(* ===== verification/Prelude.thy ===== *)
theory Prelude
  imports Main "HOL-Library.Word" "HOL-Library.Multiset"
begin

text \<open>
  Shared vocabulary of the development.

  \<^item> Machine integers. The crates are deployed with \<^verbatim>\<open>cargo build --release\<close>, where
    integer arithmetic wraps. \<open>u32\<close> and \<open>u64\<close> are words; \<open>usize\<close> (log indexes, counters)
    is a natural number with the wrap-around at \<open>2 ^ 64\<close> written out in \<open>usize_add\<close> and
    \<open>usize_sub\<close>, because the indexes address lists.
  \<^item> Time. A \<open>SystemTime\<close> is an integer number of nanoseconds, a \<open>Duration\<close> a natural one.
  \<^item> Errors. A Rust \<open>Result\<close> whose function may also panic is a sum \<open>'e fault + 'a\<close>:
    \<open>Err e\<close> is an error value, \<open>Panic m\<close> a panic. State-changing code returns the state it
    leaves behind together with its result, also when it fails.
  \<^item> The generic lemmas on lists, maps and results the components share.
\<close>

named_theorems usize_simps \<open>wrap-around arithmetic that stays in range\<close>
named_theorems result_simps \<open>evaluation of results and panics\<close>
named_theorems store_simps \<open>what a storage operation changes\<close>

section \<open>Integers, time, strings\<close>

type_synonym u16 = "16 word"
type_synonym u32 = "32 word"
type_synonym u64 = "64 word"
type_synonym usize = nat
type_synonym NodeId = u64
type_synonym ClientId = u64
type_synonym CommandId = usize
type_synonym ConfigurationId = u32
type_synonym TrimmedIndex = usize
type_synonym SystemTime = int
type_synonym Duration = nat

abbreviation usize_limit :: nat where
  "usize_limit \<equiv> 18446744073709551616"

definition usize_add :: "usize \<Rightarrow> usize \<Rightarrow> usize" where
  "usize_add a b = (a + b) mod usize_limit"

definition usize_sub :: "usize \<Rightarrow> usize \<Rightarrow> usize" where
  "usize_sub a b = (a + (usize_limit - b)) mod usize_limit"

lemma usize_add_lt [simp]: "usize_add a b < usize_limit"
  by (simp add: usize_add_def)

lemma usize_sub_lt [simp]: "usize_sub a b < usize_limit"
  by (simp add: usize_sub_def)

lemma usize_add_exact [usize_simps]: "a + b < usize_limit \<Longrightarrow> usize_add a b = a + b"
  by (simp add: usize_add_def)

lemma usize_sub_exact [usize_simps]:
  assumes "b \<le> a" and "a < usize_limit"
  shows "usize_sub a b = a - b"
proof -
  have "a + (usize_limit - b) = (a - b) + usize_limit"
    using assms by simp
  then have "usize_sub a b = ((a - b) + usize_limit) mod usize_limit"
    by (simp only: usize_sub_def)
  also have "\<dots> = a - b"
    using assms by (simp del: add_diff_assoc2)
  finally show ?thesis .
qed

lemma usize_sub_wraps [usize_simps]:
  assumes "a < b" and "b \<le> usize_limit"
  shows "usize_sub a b = a + usize_limit - b"
  using assms by (simp add: usize_sub_def)

text \<open>The decimal rendering of \<open>usize::to_string\<close>.\<close>

definition digit_char :: "nat \<Rightarrow> char" where
  "digit_char d = char_of (48 + d)"

fun usize_to_string :: "usize \<Rightarrow> string" where
  "usize_to_string n =
     (if n < 10 then [digit_char n]
      else usize_to_string (n div 10) @ [digit_char (n mod 10)])"

declare usize_to_string.simps [simp del]

definition char_digit :: "char \<Rightarrow> nat" where
  "char_digit c = of_char c - 48"

definition digits_value :: "string \<Rightarrow> nat" where
  "digits_value s = foldl (\<lambda>acc c. 10 * acc + char_digit c) 0 s"

lemma char_digit_digit_char: "d < 10 \<Longrightarrow> char_digit (digit_char d) = d"
  by (simp add: char_digit_def digit_char_def of_char_of)

lemma digits_value_to_string: "digits_value (usize_to_string n) = n"
proof (induction n rule: usize_to_string.induct)
  case (1 n)
  show ?case
  proof (cases "n < 10")
    case True
    then show ?thesis
      by (simp add: usize_to_string.simps [of n] digits_value_def char_digit_digit_char)
  next
    case False
    with 1 have "digits_value (usize_to_string (n div 10)) = n div 10" by simp
    with False show ?thesis
      by (simp add: usize_to_string.simps [of n] digits_value_def char_digit_digit_char)
  qed
qed

lemma usize_to_string_inject: "usize_to_string m = usize_to_string n \<longleftrightarrow> m = n"
  by (metis digits_value_to_string)

section \<open>Results, panics and state\<close>

datatype 'e fault = Err 'e | Panic string

type_synonym ('e, 'a) result = "'e fault + 'a"

text \<open>\<open>Result::expect\<close> (and \<open>Result::unwrap\<close>) turn an error into a panic.\<close>

fun expect :: "string \<Rightarrow> ('e, 'a) result \<Rightarrow> ('e, 'a) result" where
  "expect m (Inl (Err e)) = Inl (Panic m)"
| "expect m (Inl (Panic p)) = Inl (Panic p)"
| "expect m (Inr x) = Inr x"

text \<open>\<open>Option::unwrap\<close>: panics on \<open>None\<close>.\<close>

fun unwrap :: "string \<Rightarrow> 'a option \<Rightarrow> ('e, 'a) result" where
  "unwrap m None = Inl (Panic m)"
| "unwrap m (Some x) = Inr x"

definition unwrap_or :: "'a option \<Rightarrow> 'a \<Rightarrow> 'a" where
  "unwrap_or x d = (case x of None \<Rightarrow> d | Some v \<Rightarrow> v)"

text \<open>The \<open>?\<close> operator: on pure results, and on results that carry the state left behind.\<close>

definition try_result :: "('e, 'a) result \<Rightarrow> ('a \<Rightarrow> ('e, 'b) result) \<Rightarrow> ('e, 'b) result" where
  "try_result r f = (case r of Inl e \<Rightarrow> Inl e | Inr x \<Rightarrow> f x)"

definition try_state ::
  "'s \<times> ('e, 'a) result \<Rightarrow> ('s \<Rightarrow> 'a \<Rightarrow> 's \<times> ('e, 'b) result) \<Rightarrow> 's \<times> ('e, 'b) result" where
  "try_state p f = (case p of (s, Inl e) \<Rightarrow> (s, Inl e) | (s, Inr x) \<Rightarrow> f s x)"

lemma unwrap_or_simps [simp]: "unwrap_or None d = d" "unwrap_or (Some v) d = v"
  by (simp_all add: unwrap_or_def)

lemma try_result_simps [simp, result_simps]:
  "try_result (Inl e) f = Inl e" "try_result (Inr x) f = f x"
  by (simp_all add: try_result_def)

lemma try_state_simps [simp, result_simps]:
  "try_state (s, Inl e) f = (s, Inl e)" "try_state (s, Inr x) f = f s x"
  by (simp_all add: try_state_def)

lemma try_result_Inr_iff:
  "try_result r f = Inr y \<longleftrightarrow> (\<exists>x. r = Inr x \<and> f x = Inr y)"
  by (cases r) auto

lemma expect_Inr_iff [simp]: "expect m r = Inr x \<longleftrightarrow> r = Inr x"
  by (cases "(m, r)" rule: expect.cases) auto

lemma unwrap_Inr_iff [simp]: "unwrap m v = Inr x \<longleftrightarrow> v = Some x"
  by (cases v) auto

lemma unwrap_Inl_iff [simp]: "unwrap m v = Inl e \<longleftrightarrow> v = None \<and> e = Panic m"
  by (cases v) auto

section \<open>Vectors\<close>

text \<open>\<open>slice::get(from..to)\<close>: \<open>None\<close> unless \<open>from \<le> to \<le> len\<close>.\<close>

definition vec_range :: "'a list \<Rightarrow> nat \<Rightarrow> nat \<Rightarrow> 'a list option" where
  "vec_range xs i j = (if i \<le> j \<and> j \<le> length xs then Some (take (j - i) (drop i xs)) else None)"

text \<open>\<open>slice::get(from..)\<close>: \<open>None\<close> unless \<open>from \<le> len\<close>.\<close>

definition vec_from :: "'a list \<Rightarrow> nat \<Rightarrow> 'a list option" where
  "vec_from xs i = (if i \<le> length xs then Some (drop i xs) else None)"

text \<open>\<open>iter().position(..)\<close>.\<close>

fun position :: "('a \<Rightarrow> bool) \<Rightarrow> 'a list \<Rightarrow> nat option" where
  "position P [] = None"
| "position P (x # xs) = (if P x then Some 0 else map_option Suc (position P xs))"

lemma position_Some: "position P xs = Some i \<Longrightarrow> i < length xs \<and> P (xs ! i)"
  by (induction xs arbitrary: i) (auto split: if_splits)

lemma position_None: "position P xs = None \<longleftrightarrow> (\<forall>x\<in>set xs. \<not> P x)"
  by (induction xs) (auto split: if_splits)

text \<open>
  \<open>Iterator::max\<close> over elements compared by a key: \<open>None\<close> for the empty iterator and the
  last of several maximal elements otherwise.
\<close>

fun iter_max :: "('a \<Rightarrow> 'a \<Rightarrow> bool) \<Rightarrow> 'a list \<Rightarrow> 'a option" where
  "iter_max le [] = None"
| "iter_max le (x # xs) = Some (foldl (\<lambda>m y. if le m y then y else m) x xs)"

text \<open>
  \<open>std::collections::BinaryHeap\<close> promises that \<open>pop\<close> removes a greatest element and says
  nothing about the order of equal ones. A heap is the list of its elements in an arbitrary
  order; \<open>heap_pop key h x h'\<close> says that popping \<open>h\<close> (a min-heap on \<open>key\<close>) may return \<open>x\<close>
  and leave \<open>h'\<close>.
\<close>

definition heap_pop :: "('a \<Rightarrow> 'k::linorder) \<Rightarrow> 'a list \<Rightarrow> 'a \<Rightarrow> 'a list \<Rightarrow> bool" where
  "heap_pop key h x h' \<longleftrightarrow> x \<in> set h \<and> (\<forall>y\<in>set h. key x \<le> key y) \<and> h' = remove1 x h"

definition heap_push :: "'a \<Rightarrow> 'a list \<Rightarrow> 'a list" where
  "heap_push x h = x # h"

lemma heap_pop_mset: "heap_pop key h x h' \<Longrightarrow> mset h = add_mset x (mset h')"
  by (auto simp: heap_pop_def)

lemma heap_pop_exists: "h \<noteq> [] \<Longrightarrow> \<exists>x h'. heap_pop key h x h'"
proof -
  assume "h \<noteq> []"
  then have "finite (key ` set h)" "key ` set h \<noteq> {}" by auto
  then have "Min (key ` set h) \<in> key ` set h" and "\<forall>y\<in>set h. Min (key ` set h) \<le> key y"
    by auto
  then obtain x where "x \<in> set h" "\<forall>y\<in>set h. key x \<le> key y"
    by force
  then show ?thesis by (auto simp: heap_pop_def)
qed

lemma heap_pop_min:
  "heap_pop key h x h' \<Longrightarrow> y \<in> set h' \<Longrightarrow> key x \<le> key y"
  by (auto simp: heap_pop_def dest: notin_set_remove1)

section \<open>Generic lemmas\<close>

lemma take_append_self [simp]: "take (length xs) (xs @ ys) = xs"
  by simp

lemma take_mono_prefix: "i \<le> length xs \<Longrightarrow> take i (xs @ ys) = take i xs"
  by simp

lemma drop_min_length [simp]: "drop (min n (length xs)) xs = drop n xs"
  by (cases "n \<le> length xs") (auto simp: min_def)

lemma length_take_drop: "j \<le> length xs \<Longrightarrow> length (take (j - i) (drop i xs)) = j - i"
  by simp

lemma foldl_max_ge:
  assumes refl: "\<And>x. le x x" and trans: "\<And>x y z. le x y \<Longrightarrow> le y z \<Longrightarrow> le x z"
    and total: "\<And>x y. le x y \<or> le y x"
  shows "le x (foldl (\<lambda>m y. if le m y then y else m) x xs) \<and>
         (\<forall>y\<in>set xs. le y (foldl (\<lambda>m y. if le m y then y else m) x xs))"
proof (induction xs arbitrary: x)
  case Nil
  then show ?case by (simp add: refl)
next
  case (Cons a xs)
  let ?m = "if le x a then a else x"
  have m: "le x ?m" "le a ?m" using refl total by auto
  from Cons [of ?m] have ih: "le ?m (foldl (\<lambda>m y. if le m y then y else m) ?m xs)"
    "\<forall>y\<in>set xs. le y (foldl (\<lambda>m y. if le m y then y else m) ?m xs)" by blast+
  have "le x (foldl (\<lambda>m y. if le m y then y else m) ?m xs)"
    by (rule trans [OF m(1) ih(1)])
  moreover have "le a (foldl (\<lambda>m y. if le m y then y else m) ?m xs)"
    by (rule trans [OF m(2) ih(1)])
  ultimately show ?case using ih(2) by simp
qed

lemma foldl_max_in:
  "foldl (\<lambda>m y. if le m y then y else m) x xs \<in> insert x (set xs)"
proof (induction xs arbitrary: x)
  case Nil
  then show ?case by simp
next
  case (Cons a xs)
  from Cons [of "if le x a then a else x"] show ?case by (auto split: if_splits)
qed

lemma iter_max_in: "iter_max le xs = Some m \<Longrightarrow> m \<in> set xs"
  by (cases xs) (use foldl_max_in [of le] in auto)

lemma iter_max_ge:
  assumes "iter_max le xs = Some m" and "y \<in> set xs"
    and "\<And>x. le x x" and "\<And>x y z. le x y \<Longrightarrow> le y z \<Longrightarrow> le x z" and "\<And>x y. le x y \<or> le y x"
  shows "le y m"
  using assms foldl_max_ge [of le] by (cases xs) auto

lemma iter_max_None [simp]: "iter_max le xs = None \<longleftrightarrow> xs = []"
  by (cases xs) auto

end
