(* ===== verification/Ballots.thy ===== *)
theory Ballots
  imports Prelude
begin

text \<open>
  \<open>Ballot\<close> of \<^verbatim>\<open>omnipaxos/src/ballot_leader_election.rs\<close>: the round number of leader election
  and of the log. Its \<open>Ord\<close> compares \<open>(n, priority, pid)\<close> and leaves \<open>config_id\<close> out, while
  its derived \<open>PartialEq\<close> compares all four fields, so the order is a total preorder that is
  antisymmetric only among ballots of one configuration.
\<close>

record Ballot =
  b_config_id :: ConfigurationId
  b_n :: u32
  b_priority :: u32
  b_pid :: NodeId

definition Ballot_with :: "ConfigurationId \<Rightarrow> u32 \<Rightarrow> u32 \<Rightarrow> NodeId \<Rightarrow> Ballot" where
  "Ballot_with config_id n priority pid =
     \<lparr>b_config_id = config_id, b_n = n, b_priority = priority, b_pid = pid\<rparr>"

text \<open>\<open>#[derive(Default)]\<close>.\<close>

definition Ballot_default :: Ballot where
  "Ballot_default = Ballot_with 0 0 0 0"

text \<open>\<open>Ord::cmp\<close>: the lexicographic order of the tuple \<open>(n, priority, pid)\<close>.\<close>

definition ballot_le :: "'a Ballot_scheme \<Rightarrow> 'a Ballot_scheme \<Rightarrow> bool" where
  "ballot_le a b \<longleftrightarrow>
     b_n a < b_n b \<or>
     b_n a = b_n b \<and> (b_priority a < b_priority b \<or>
       b_priority a = b_priority b \<and> b_pid a \<le> b_pid b)"

instantiation Ballot_ext :: (type) preorder
begin

definition less_eq_Ballot_ext :: "'a Ballot_scheme \<Rightarrow> 'a Ballot_scheme \<Rightarrow> bool" where
  "less_eq_Ballot_ext a b = ballot_le a b"

definition less_Ballot_ext :: "'a Ballot_scheme \<Rightarrow> 'a Ballot_scheme \<Rightarrow> bool" where
  "less_Ballot_ext a b = (ballot_le a b \<and> \<not> ballot_le b a)"

instance
  by intro_classes (auto simp: less_eq_Ballot_ext_def less_Ballot_ext_def ballot_le_def)

end

lemmas ballot_order_defs = less_eq_Ballot_ext_def less_Ballot_ext_def ballot_le_def

lemma ballot_total: "(a :: 'a Ballot_scheme) \<le> b \<or> b \<le> a"
  by (auto simp: ballot_order_defs)

lemma ballot_not_le [simp]: "\<not> (a :: 'a Ballot_scheme) \<le> b \<longleftrightarrow> b < a"
  by (auto simp: ballot_order_defs)

lemma ballot_not_less [simp]: "\<not> (a :: 'a Ballot_scheme) < b \<longleftrightarrow> b \<le> a"
  by (auto simp: ballot_order_defs)

lemma ballot_antisym_config:
  "(a :: Ballot) \<le> b \<Longrightarrow> b \<le> a \<Longrightarrow> b_config_id a = b_config_id b \<Longrightarrow> a = b"
  by (cases a; cases b) (auto simp: ballot_order_defs)

lemma ballot_less_n: "b_n a < b_n b \<Longrightarrow> (a :: 'a Ballot_scheme) < b"
  by (auto simp: ballot_order_defs)

lemma ballot_le_n: "(a :: 'a Ballot_scheme) \<le> b \<Longrightarrow> b_n a \<le> b_n b"
  by (auto simp: ballot_order_defs)

lemma ballot_default_le [simp]: "Ballot_default \<le> (b :: Ballot)"
  by (auto simp: ballot_order_defs Ballot_default_def Ballot_with_def not_less
      intro: order.antisym)

text \<open>Incrementing a round number past \<open>u32::MAX\<close> wraps to 0 in the release profile.\<close>

lemma u32_succ_less: "(x :: u32) < x + 1 \<longleftrightarrow> x \<noteq> - 1"
  using inc_less_eq_self_iff_eq [of x] by (auto simp: not_le)

end
