(* ===== verification/Util.thy ===== *)
theory Util
  imports Ballots
begin

text \<open>
  \<^verbatim>\<open>omnipaxos/src/util.rs\<close>: quorums, the tick counter of leader election, sequence numbers
  and the default settings. (\<open>LogEntry\<close>, \<open>IndexEntry\<close> and \<open>LogSync\<close> mention stop signs and
  snapshots and are in \<open>Storage_Api\<close>.)
\<close>

section \<open>Defaults\<close>

definition BUFFER_SIZE :: usize where "BUFFER_SIZE = 100000"
definition BLE_BUFFER_SIZE :: usize where "BLE_BUFFER_SIZE = 100"
definition ELECTION_TIMEOUT :: u64 where "ELECTION_TIMEOUT = 1"
definition RESEND_MESSAGE_TIMEOUT :: u64 where "RESEND_MESSAGE_TIMEOUT = 100"
definition FLUSH_BATCH_TIMEOUT :: u64 where "FLUSH_BATCH_TIMEOUT = 200"

definition READ_ERROR_MSG :: string where "READ_ERROR_MSG = ''Error reading from storage.''"
definition WRITE_ERROR_MSG :: string where "WRITE_ERROR_MSG = ''Error writing to storage.''"

section \<open>Sequence numbers\<close>

datatype SequenceNumber = SequenceNumber (session: u64) (counter: u64)

text \<open>The derived \<open>Ord\<close>: sessions first, then counters.\<close>

instantiation SequenceNumber :: linorder
begin

definition less_eq_SequenceNumber :: "SequenceNumber \<Rightarrow> SequenceNumber \<Rightarrow> bool" where
  "less_eq_SequenceNumber a b \<longleftrightarrow>
     session a < session b \<or> session a = session b \<and> counter a \<le> counter b"

definition less_SequenceNumber :: "SequenceNumber \<Rightarrow> SequenceNumber \<Rightarrow> bool" where
  "less_SequenceNumber a b \<longleftrightarrow>
     session a < session b \<or> session a = session b \<and> counter a < counter b"

instance
  by intro_classes
    (auto simp: less_eq_SequenceNumber_def less_SequenceNumber_def SequenceNumber.expand)

end

section \<open>The logical clock of ticks\<close>

record LogicalClock =
  lc_time :: u64
  lc_timeout :: u64

definition LogicalClock_with :: "u64 \<Rightarrow> LogicalClock" where
  "LogicalClock_with timeout = \<lparr>lc_time = 0, lc_timeout = timeout\<rparr>"

definition tick_and_check_timeout :: "LogicalClock \<Rightarrow> LogicalClock \<times> bool" where
  "tick_and_check_timeout c =
     (let c = c\<lparr>lc_time := lc_time c + 1\<rparr>
      in if lc_time c = lc_timeout c then (c\<lparr>lc_time := 0\<rparr>, True) else (c, False))"

fun ticks :: "nat \<Rightarrow> LogicalClock \<Rightarrow> LogicalClock \<times> bool list" where
  "ticks 0 c = (c, [])"
| "ticks (Suc k) c =
     (let (c', b) = tick_and_check_timeout c; (c'', bs) = ticks k c' in (c'', b # bs))"

text \<open>A clock whose counter is below its timeout times out exactly when the counter reaches it.\<close>

lemma tick_step:
  assumes "lc_time c < lc_timeout c"
  shows "tick_and_check_timeout c =
    (if lc_time c + 1 = lc_timeout c then (c\<lparr>lc_time := 0\<rparr>, True)
     else (c\<lparr>lc_time := lc_time c + 1\<rparr>, False))"
  by (simp add: tick_and_check_timeout_def Let_def)

lemma tick_keeps_below:
  assumes "lc_time c < lc_timeout c"
  shows "lc_time (fst (tick_and_check_timeout c)) < lc_timeout (fst (tick_and_check_timeout c))"
    and "lc_timeout (fst (tick_and_check_timeout c)) = lc_timeout c"
proof -
  have "lc_time c + 1 \<le> lc_timeout c"
    using assms by (rule inc_le)
  then show "lc_time (fst (tick_and_check_timeout c)) < lc_timeout (fst (tick_and_check_timeout c))"
    using assms by (auto simp: tick_step word_gt_0)
  show "lc_timeout (fst (tick_and_check_timeout c)) = lc_timeout c"
    using assms by (simp add: tick_step)
qed

lemma ticks_quiet:
  assumes "unat (lc_time c) + k < unat (lc_timeout c)"
  shows "ticks k c = (c\<lparr>lc_time := lc_time c + word_of_nat k\<rparr>, replicate k False)"
  using assms
proof (induction k arbitrary: c)
  case 0
  then show ?case by simp
next
  case (Suc k)
  let ?t = "lc_time c + 1"
  have lt: "lc_time c < lc_timeout c"
    using Suc.prems by (simp add: word_less_nat_alt)
  have "unat ?t = unat (lc_time c) + 1"
    using Suc.prems unsigned_less [of "lc_timeout c", where ?'a = nat] by (simp add: unat_word_ariths)
  then have "?t \<noteq> lc_timeout c" and "unat ?t + k < unat (lc_timeout c)"
    using Suc.prems by auto
  then show ?case
    using lt Suc.IH [of "c\<lparr>lc_time := ?t\<rparr>"] by (simp add: tick_step add.assoc)
qed

lemma ticks_append:
  "ticks (j + k) c =
     (let (c', bs) = ticks j c; (c'', bs') = ticks k c' in (c'', bs @ bs'))"
  by (induction j arbitrary: c) (auto simp: Let_def split: prod.splits)

text \<open>
  Counting from a fresh clock, the election timeout fires at exactly every
  \<open>timeout\<close>-th call of \<open>tick\<close>: the first \<open>timeout\<close> calls report \<open>timeout - 1\<close> times nothing
  and then once the timeout, and leave the clock as it was created.
\<close>

theorem ticks_period:
  assumes "0 < timeout"
  shows "ticks (unat timeout) (LogicalClock_with timeout) =
           (LogicalClock_with timeout, replicate (unat timeout - 1) False @ [True])"
proof -
  let ?c = "LogicalClock_with timeout"
  obtain m where m: "unat timeout = Suc m"
    using assms by (metis not0_implies_Suc unat_gt_0 word_gt_0 less_numeral_extra(3))
  have quiet: "ticks m ?c = (?c\<lparr>lc_time := word_of_nat m\<rparr>, replicate m False)"
    using ticks_quiet [of ?c m] m by (simp add: LogicalClock_with_def)
  have "word_of_nat (Suc m) = timeout"
    by (simp only: m [symmetric] of_nat_unat ucast_id)
  then have "word_of_nat m + 1 = timeout"
    by (simp add: add.commute)
  then have "tick_and_check_timeout (?c\<lparr>lc_time := word_of_nat m\<rparr>) = (?c, True)"
    by (simp add: tick_and_check_timeout_def LogicalClock_with_def)
  with quiet have "ticks (m + 1) ?c = (?c, replicate m False @ [True])"
    unfolding ticks_append by (simp add: Let_def)
  then show ?thesis using m by simp
qed

theorem ticks_period_witness:
  "(0::u64) < 3 \<and> ticks 3 (LogicalClock_with 3) = (LogicalClock_with 3, [False, False, True])"
proof -
  have lt: "(0::u64) < 3" and three: "unat (3::u64) = 3" by simp_all
  show ?thesis
    using lt ticks_period [OF lt] unfolding three by (simp add: numeral_2_eq_2)
qed

section \<open>Quorums\<close>

record FlexibleQuorum =
  read_quorum_size :: usize
  write_quorum_size :: usize

datatype Quorum = Majority usize | Flexible FlexibleQuorum

definition Quorum_with :: "FlexibleQuorum option \<Rightarrow> usize \<Rightarrow> Quorum" where
  "Quorum_with flexible_quorum_config num_nodes =
     (case flexible_quorum_config of
        Some q \<Rightarrow> Flexible \<lparr>read_quorum_size = read_quorum_size q,
                            write_quorum_size = write_quorum_size q\<rparr>
      | None \<Rightarrow> Majority (num_nodes div 2 + 1))"

fun is_prepare_quorum :: "Quorum \<Rightarrow> usize \<Rightarrow> bool" where
  "is_prepare_quorum (Majority majority) num_nodes = (majority \<le> num_nodes)"
| "is_prepare_quorum (Flexible q) num_nodes = (read_quorum_size q \<le> num_nodes)"

fun is_accept_quorum :: "Quorum \<Rightarrow> usize \<Rightarrow> bool" where
  "is_accept_quorum (Majority majority) num_nodes = (majority \<le> num_nodes)"
| "is_accept_quorum (Flexible q) num_nodes = (write_quorum_size q \<le> num_nodes)"

lemma quorum_mono:
  "is_prepare_quorum q m \<Longrightarrow> m \<le> n \<Longrightarrow> is_prepare_quorum q n"
  "is_accept_quorum q m \<Longrightarrow> m \<le> n \<Longrightarrow> is_accept_quorum q n"
  by (cases q; simp)+

lemma card_overlap:
  assumes "finite S" and "R \<subseteq> S" and "W \<subseteq> S" and "card S < card R + card W"
  shows "R \<inter> W \<noteq> {}"
proof
  assume "R \<inter> W = {}"
  then have "card (R \<union> W) = card R + card W"
    using assms by (intro card_Un_disjoint) (auto intro: finite_subset)
  moreover have "card (R \<union> W) \<le> card S"
    using assms by (intro card_mono) auto
  ultimately show False using assms(4) by simp
qed

section \<open>The state of a leader\<close>

record LeaderState =
  n_leader :: Ballot
  ls_max_pid :: usize
  ls_quorum :: Quorum

definition LeaderState_with :: "Ballot \<Rightarrow> usize \<Rightarrow> Quorum \<Rightarrow> LeaderState" where
  "LeaderState_with n max_pid quorum = \<lparr>n_leader = n, ls_max_pid = max_pid, ls_quorum = quorum\<rparr>"

end
