(* ===== verification/Config.thy ===== *)
theory Config
  imports Util
begin

text \<open>
  Configuration of a cluster and of a server (\<^verbatim>\<open>omnipaxos/src/omni_paxos.rs\<close>,
  \<^verbatim>\<open>omnipaxos/src/errors.rs\<close>): the records, their defaults and the \<open>validate\<close> methods, each a
  chain of \<open>valid_config!\<close> checks whose first failing predicate is the error.
\<close>

datatype ConfigError = ReadFile string | Parse string | InvalidConfig string

text \<open>\<open>valid_config!(pred, msg)\<close> followed by the rest of the method.\<close>

definition valid_config :: "bool \<Rightarrow> string \<Rightarrow> ConfigError + unit \<Rightarrow> ConfigError + unit" where
  "valid_config pred err_str rest = (if \<not> pred then Inl (InvalidConfig err_str) else rest)"

lemma valid_config_Inr [simp]: "valid_config p m r = Inr () \<longleftrightarrow> p \<and> r = Inr ()"
  by (simp add: valid_config_def)

record ClusterConfig =
  configuration_id :: ConfigurationId
  cc_nodes :: "NodeId list"
  cc_flexible_quorum :: "FlexibleQuorum option"

definition ClusterConfig_validate :: "ClusterConfig \<Rightarrow> ConfigError + unit" where
  "ClusterConfig_validate c =
     (let num_nodes = length (cc_nodes c) in
      valid_config (num_nodes > 1) ''Need more than 1 node'' (
      valid_config (configuration_id c \<noteq> 0) ''Configuration ID cannot be 0'' (
      case cc_flexible_quorum c of
        Some q \<Rightarrow>
          valid_config (usize_add (read_quorum_size q) (write_quorum_size q) > num_nodes)
            ''The quorums must overlap i.e., the sum of their sizes must exceed the # of nodes'' (
          valid_config (2 \<le> read_quorum_size q \<and> read_quorum_size q \<le> num_nodes)
            ''Read quorum must be in range 2 to # of nodes in the cluster'' (
          valid_config (2 \<le> write_quorum_size q \<and> write_quorum_size q \<le> num_nodes)
            ''Write quorum must be in range 2 to # of nodes in the cluster'' (
          valid_config (write_quorum_size q \<le> read_quorum_size q)
            ''Read quorum size must be >= the write quorum size.'' (
          Inr ()))))
      | None \<Rightarrow> Inr ())))"

record ServerConfig =
  sc_pid :: NodeId
  election_tick_timeout :: u64
  resend_message_tick_timeout :: u64
  sc_buffer_size :: usize
  sc_batch_size :: usize
  flush_batch_tick_timeout :: u64
  leader_priority :: u32

definition ServerConfig_validate :: "ServerConfig \<Rightarrow> ConfigError + unit" where
  "ServerConfig_validate s =
     valid_config (sc_pid s \<noteq> 0) ''Server pid cannot be 0'' (
     valid_config (sc_buffer_size s \<noteq> 0) ''Buffer size must be greater than 0'' (
     valid_config (sc_batch_size s \<noteq> 0) ''Batch size must be greater than 0'' (
     valid_config (election_tick_timeout s \<noteq> 0)
       ''Election tick timeout must be greater than 0'' (
     valid_config (resend_message_tick_timeout s \<noteq> 0)
       ''Resend message tick timeout must be greater than 0'' (
     Inr ())))))"

definition ServerConfig_default :: ServerConfig where
  "ServerConfig_default =
     \<lparr>sc_pid = 0,
      election_tick_timeout = ELECTION_TIMEOUT,
      resend_message_tick_timeout = RESEND_MESSAGE_TIMEOUT,
      sc_buffer_size = BUFFER_SIZE,
      sc_batch_size = 1,
      flush_batch_tick_timeout = FLUSH_BATCH_TIMEOUT,
      leader_priority = 0\<rparr>"

record OmniPaxosConfig =
  cluster_config :: ClusterConfig
  server_config :: ServerConfig

definition OmniPaxosConfig_validate :: "OmniPaxosConfig \<Rightarrow> ConfigError + unit" where
  "OmniPaxosConfig_validate c =
     (case ClusterConfig_validate (cluster_config c) of
        Inl e \<Rightarrow> Inl e
      | Inr _ \<Rightarrow>
          (case ServerConfig_validate (server_config c) of
             Inl e \<Rightarrow> Inl e
           | Inr _ \<Rightarrow>
               valid_config (sc_pid (server_config c) \<in> set (cc_nodes (cluster_config c)))
                 ''Nodes must include own server pid'' (Inr ())))"

text \<open>
  \<open>OmniPaxosConfig::with_toml\<close>. The file system (\<open>read_to_string\<close>) and the TOML parser
  (\<open>from_str\<close>) are arguments; their errors are represented by their messages.
\<close>

definition with_toml ::
  "(string \<Rightarrow> string + string) \<Rightarrow> (string \<Rightarrow> string + OmniPaxosConfig) \<Rightarrow> string \<Rightarrow>
   ConfigError + OmniPaxosConfig" where
  "with_toml read_to_string from_str file_path =
     (case read_to_string file_path of
        Inl e \<Rightarrow> Inl (ReadFile e)
      | Inr config_file \<Rightarrow>
          (case from_str config_file of
             Inl e \<Rightarrow> Inl (Parse e)
           | Inr config \<Rightarrow>
               (case OmniPaxosConfig_validate config of
                  Inl e \<Rightarrow> Inl e
                | Inr _ \<Rightarrow> Inr config)))"

text \<open>
  The peers of a node: \<open>nodes.into_iter().filter(|x| *x != pid)\<close>, as both the BLE and the
  Sequence Paxos configuration compute them.
\<close>

definition peers_of :: "NodeId \<Rightarrow> NodeId list \<Rightarrow> NodeId list" where
  "peers_of pid nodes = filter (\<lambda>x. x \<noteq> pid) nodes"

lemma card_nodes_le_peers: "card (set nodes) \<le> length (peers_of pid nodes) + 1"
proof -
  have "set nodes \<subseteq> insert pid (set (peers_of pid nodes))"
    by (auto simp: peers_of_def)
  then have "card (set nodes) \<le> card (insert pid (set (peers_of pid nodes)))"
    by (rule card_mono [rotated]) simp
  also have "\<dots> \<le> Suc (card (set (peers_of pid nodes)))"
    by (simp add: card_insert_le_m1 card_insert_if)
  also have "\<dots> \<le> length (peers_of pid nodes) + 1"
    by (simp add: card_length)
  finally show ?thesis .
qed

lemma OmniPaxosConfig_validate_Inr:
  "OmniPaxosConfig_validate c = Inr () \<longleftrightarrow>
     ClusterConfig_validate (cluster_config c) = Inr () \<and>
     ServerConfig_validate (server_config c) = Inr () \<and>
     sc_pid (server_config c) \<in> set (cc_nodes (cluster_config c))"
  by (auto simp: OmniPaxosConfig_validate_def split: sum.splits)

lemma ClusterConfig_validate_quorum:
  assumes "ClusterConfig_validate c = Inr ()" and "cc_flexible_quorum c = Some q"
    and "2 * length (cc_nodes c) < usize_limit"
  shows "length (cc_nodes c) < read_quorum_size q + write_quorum_size q"
proof -
  have "read_quorum_size q \<le> length (cc_nodes c)" "write_quorum_size q \<le> length (cc_nodes c)"
    and sum: "length (cc_nodes c) < usize_add (read_quorum_size q) (write_quorum_size q)"
    using assms(1,2) by (auto simp: ClusterConfig_validate_def Let_def)
  then have "read_quorum_size q + write_quorum_size q < usize_limit"
    using assms(3) by linarith
  with sum show ?thesis by (simp add: usize_add_exact)
qed

text \<open>
  C18. In a configuration that passes \<open>validate\<close>, every set of nodes that is a prepare (read)
  quorum meets every set that is an accept (write) quorum, for the quorum the node builds
  from the configuration with the number of nodes it counts (its peers and itself), whether
  majorities or flexible quorums are used.
\<close>

theorem quorums_intersect:
  assumes "OmniPaxosConfig_validate c = Inr ()"
    and "2 * length (cc_nodes (cluster_config c)) < usize_limit"
    and "R \<subseteq> set (cc_nodes (cluster_config c))" and "W \<subseteq> set (cc_nodes (cluster_config c))"
    and "quorum = Quorum_with (cc_flexible_quorum (cluster_config c))
           (length (peers_of (sc_pid (server_config c)) (cc_nodes (cluster_config c))) + 1)"
    and "is_prepare_quorum quorum (card R)" and "is_accept_quorum quorum (card W)"
  shows "R \<inter> W \<noteq> {}"
proof (rule card_overlap [of "set (cc_nodes (cluster_config c))"])
  let ?nodes = "cc_nodes (cluster_config c)"
  show "card (set ?nodes) < card R + card W"
  proof (cases "cc_flexible_quorum (cluster_config c)")
    case None
    then show ?thesis
      using assms(5-7) card_nodes_le_peers [of ?nodes "sc_pid (server_config c)"]
      by (simp add: Quorum_with_def)
  next
    case (Some q)
    then have "length ?nodes < read_quorum_size q + write_quorum_size q"
      using assms(1,2) ClusterConfig_validate_quorum OmniPaxosConfig_validate_Inr by blast
    then show ?thesis
      using assms(5-7) Some card_length [of ?nodes] by (simp add: Quorum_with_def)
  qed
qed (use assms in auto)

definition example_config :: OmniPaxosConfig where
  "example_config =
     \<lparr>cluster_config = \<lparr>configuration_id = 1, cc_nodes = [1, 2, 3],
        cc_flexible_quorum = Some \<lparr>read_quorum_size = 2, write_quorum_size = 2\<rparr>\<rparr>,
      server_config = ServerConfig_default\<lparr>sc_pid := 1\<rparr>\<rparr>"

lemma example_config_valid: "OmniPaxosConfig_validate example_config = Inr ()"
  by (simp add: example_config_def OmniPaxosConfig_validate_def ClusterConfig_validate_def
      ServerConfig_validate_def ServerConfig_default_def valid_config_def usize_add_def
      BUFFER_SIZE_def ELECTION_TIMEOUT_def RESEND_MESSAGE_TIMEOUT_def)

theorem quorums_intersect_witness:
  "{1, 2} \<inter> {2, 3} \<noteq> ({} :: NodeId set)"
proof (rule quorums_intersect [where c = example_config and
      quorum = "Flexible \<lparr>read_quorum_size = 2, write_quorum_size = 2\<rparr>"])
  show "OmniPaxosConfig_validate example_config = Inr ()" by (rule example_config_valid)
qed (simp_all add: example_config_def Quorum_with_def)

end
