(* ===== verification/Storage_Api.thy ===== *)
theory Storage_Api
  imports Config
begin

text \<open>
  The storage interface of \<^verbatim>\<open>omnipaxos/src/storage/mod.rs\<close> and the log types of
  \<^verbatim>\<open>omnipaxos/src/util.rs\<close> that mention it.

  The traits \<open>Snapshot\<close> and \<open>Storage\<close> are records of operations, and generic code takes the
  record as an argument, as a Rust generic takes the implementation. What an implementation
  of \<open>Storage\<close> promises is the locale \<open>log_storage\<close>: an abstract view of the stored data
  (\<open>StoreView\<close>) on which every operation has a one-line meaning. \<open>snapshots\<close> is the contract of
  a \<open>Snapshot\<close> implementation that the log compaction relies on.
\<close>

section \<open>Errors\<close>

datatype CompactionErr =
    UndecidedIndex usize
  | TrimmedIndex usize
  | NotAllDecided usize
  | NotCurrentLeader NodeId

text \<open>
  \<open>Box<dyn Error>\<close>: the storage code raises \<open>CompactionErr\<close> itself, everything else comes from
  the backend.
\<close>

datatype StorageError = CompactionError CompactionErr | BackendError string

type_synonym 'a StorageResult = "(StorageError, 'a) result"

section \<open>Data\<close>

record StopSign =
  next_config :: ClusterConfig
  metadata :: "8 word list option"

definition StopSign_with :: "ClusterConfig \<Rightarrow> 8 word list option \<Rightarrow> StopSign" where
  "StopSign_with config md = \<lparr>next_config = config, metadata = md\<rparr>"

datatype 'n SnapshotType = Complete 'n | Delta 'n

record ('t, 'n) LogSync =
  decided_snapshot :: "'n SnapshotType option"
  sync_suffix :: "'t list"
  sync_idx :: usize
  sync_stopsign :: "StopSign option"

datatype 't LogEntry =
    Decided 't
  | Undecided 't
  | Trimmed TrimmedIndex
  | StopSignEntry StopSign bool

text \<open>\<open>PartialEq\<close> of log entries, given the one of the entries.\<close>

fun LogEntry_eq :: "('t \<Rightarrow> 't \<Rightarrow> bool) \<Rightarrow> 't LogEntry \<Rightarrow> 't LogEntry \<Rightarrow> bool" where
  "LogEntry_eq eq (Decided v1) (Decided v2) = eq v1 v2"
| "LogEntry_eq eq (Undecided v1) (Undecided v2) = eq v1 v2"
| "LogEntry_eq eq (Trimmed idx1) (Trimmed idx2) = (idx1 = idx2)"
| "LogEntry_eq eq (StopSignEntry ss1 b1) (StopSignEntry ss2 b2) = (ss1 = ss2 \<and> b1 = b2)"
| "LogEntry_eq eq _ _ = False"

lemma LogEntry_eq_iff: "LogEntry_eq (=) a b \<longleftrightarrow> a = b"
  by (cases a; cases b) simp_all

datatype IndexEntry = Entry | Compacted | StopSignIdx StopSign

datatype ('t, 'n) StorageOp =
    AppendEntry 't
  | AppendEntries "'t list"
  | AppendOnPrefix usize "'t list"
  | SetPromise Ballot
  | SetDecidedIndex usize
  | SetAcceptedRound Ballot
  | SetCompactedIdx usize
  | Trim usize
  | SetStopsign "StopSign option"
  | SetSnapshot "'n option"

section \<open>The traits\<close>

record ('t, 'n) Snapshot =
  create :: "'t list \<Rightarrow> 'n StorageResult"
  merge :: "'n \<Rightarrow> 'n \<Rightarrow> 'n StorageResult"
  use_snapshots :: bool

record ('s, 't, 'n) Storage =
  history_hash :: "'s \<Rightarrow> u64"
  write_atomically :: "'s \<Rightarrow> ('t, 'n) StorageOp list \<Rightarrow> 's \<times> unit StorageResult"
  append_entry :: "'s \<Rightarrow> 't \<Rightarrow> 's \<times> unit StorageResult"
  append_entries :: "'s \<Rightarrow> 't list \<Rightarrow> 's \<times> unit StorageResult"
  append_on_prefix :: "'s \<Rightarrow> usize \<Rightarrow> 't list \<Rightarrow> 's \<times> unit StorageResult"
  set_promise :: "'s \<Rightarrow> Ballot \<Rightarrow> 's \<times> unit StorageResult"
  set_decided_idx :: "'s \<Rightarrow> usize \<Rightarrow> 's \<times> unit StorageResult"
  get_decided_idx :: "'s \<Rightarrow> usize StorageResult"
  set_accepted_round :: "'s \<Rightarrow> Ballot \<Rightarrow> 's \<times> unit StorageResult"
  get_accepted_round :: "'s \<Rightarrow> Ballot option StorageResult"
  get_entries :: "'s \<Rightarrow> usize \<Rightarrow> usize \<Rightarrow> 't list StorageResult"
  get_log_len :: "'s \<Rightarrow> usize StorageResult"
  get_suffix :: "'s \<Rightarrow> usize \<Rightarrow> 't list StorageResult"
  get_promise :: "'s \<Rightarrow> Ballot option StorageResult"
  set_stopsign :: "'s \<Rightarrow> StopSign option \<Rightarrow> 's \<times> unit StorageResult"
  get_stopsign :: "'s \<Rightarrow> StopSign option StorageResult"
  trim :: "'s \<Rightarrow> usize \<Rightarrow> 's \<times> unit StorageResult"
  set_compacted_idx :: "'s \<Rightarrow> usize \<Rightarrow> 's \<times> unit StorageResult"
  get_compacted_idx :: "'s \<Rightarrow> usize StorageResult"
  set_snapshot :: "'s \<Rightarrow> 'n option \<Rightarrow> 's \<times> unit StorageResult"
  get_snapshot :: "'s \<Rightarrow> 'n option StorageResult"

text \<open>\<open>NoSnapshot\<close>: what \<open>#[derive(Entry)]\<close> uses for an entry type without snapshots.\<close>

datatype NoSnapshot = NoSnapshot

definition NoSnapshot_create :: "'t list \<Rightarrow> NoSnapshot StorageResult" where
  "NoSnapshot_create entries = Inl (Panic ''NoSnapshot should not be created'')"

definition NoSnapshot_merge :: "NoSnapshot \<Rightarrow> NoSnapshot \<Rightarrow> NoSnapshot StorageResult" where
  "NoSnapshot_merge self delta = Inl (Panic ''NoSnapshot should not be merged'')"

definition NoSnapshot_impl :: "('t, NoSnapshot) Snapshot" where
  "NoSnapshot_impl =
     \<lparr>create = NoSnapshot_create, merge = NoSnapshot_merge, use_snapshots = False\<rparr>"

section \<open>The contract of a storage backend\<close>

text \<open>
  The abstract state of a backend: the retained log, the absolute index of its first entry,
  and the scalar values.
\<close>

record ('t, 'n) StoreView =
  v_offset :: nat
  v_log :: "'t list"
  v_promise :: "Ballot option"
  v_acc_round :: "Ballot option"
  v_decided :: nat
  v_compacted :: nat
  v_snapshot :: "'n option"
  v_stopsign :: "StopSign option"

abbreviation v_end :: "('t, 'n) StoreView \<Rightarrow> nat" where
  "v_end v \<equiv> v_offset v + length (v_log v)"

text \<open>The meaning of one write, and when it is legal.\<close>

fun view_op :: "('t, 'n) StorageOp \<Rightarrow> ('t, 'n) StoreView \<Rightarrow> ('t, 'n) StoreView" where
  "view_op (AppendEntry e) v = v\<lparr>v_log := v_log v @ [e]\<rparr>"
| "view_op (AppendEntries es) v = v\<lparr>v_log := v_log v @ es\<rparr>"
| "view_op (AppendOnPrefix i es) v = v\<lparr>v_log := take (i - v_offset v) (v_log v) @ es\<rparr>"
| "view_op (SetPromise b) v = v\<lparr>v_promise := Some b\<rparr>"
| "view_op (SetDecidedIndex i) v = v\<lparr>v_decided := i\<rparr>"
| "view_op (SetAcceptedRound b) v = v\<lparr>v_acc_round := Some b\<rparr>"
| "view_op (SetCompactedIdx i) v = v\<lparr>v_compacted := i\<rparr>"
| "view_op (Trim i) v = v\<lparr>v_log := drop (i - v_offset v) (v_log v), v_offset := i\<rparr>"
| "view_op (SetStopsign s) v = v\<lparr>v_stopsign := s\<rparr>"
| "view_op (SetSnapshot s) v = v\<lparr>v_snapshot := s\<rparr>"

fun view_op_ok :: "('t, 'n) StorageOp \<Rightarrow> ('t, 'n) StoreView \<Rightarrow> bool" where
  "view_op_ok (AppendEntry e) v = (v_end v + 1 < usize_limit)"
| "view_op_ok (AppendEntries es) v = (v_end v + length es < usize_limit)"
| "view_op_ok (AppendOnPrefix i es) v =
     (v_offset v \<le> i \<and> i \<le> v_end v \<and> i + length es < usize_limit)"
| "view_op_ok (Trim i) v = (v_offset v \<le> i \<and> i < usize_limit)"
| "view_op_ok (SetDecidedIndex i) v = (i < usize_limit)"
| "view_op_ok (SetCompactedIdx i) v = (i < usize_limit)"
| "view_op_ok _ v = True"

fun view_ops :: "('t, 'n) StorageOp list \<Rightarrow> ('t, 'n) StoreView \<Rightarrow> ('t, 'n) StoreView" where
  "view_ops [] v = v"
| "view_ops (x # xs) v = view_ops xs (view_op x v)"

text \<open>
  A batch may trim beyond the end of the log, as a synchronisation with a snapshot does, if it
  then writes the log from the new start on: an append in between, or the end of the batch, finds
  the log \<open>settled\<close>.
\<close>

fun settled :: "bool \<Rightarrow> ('t, 'n) StorageOp list \<Rightarrow> ('t, 'n) StoreView \<Rightarrow> bool" where
  "settled open_end [] v = (\<not> open_end)"
| "settled open_end (AppendEntry e # xs) v = (\<not> open_end \<and> settled False xs (view_op (AppendEntry e) v))"
| "settled open_end (AppendEntries es # xs) v = (\<not> open_end \<and> settled False xs (view_op (AppendEntries es) v))"
| "settled open_end (AppendOnPrefix i es # xs) v = settled False xs (view_op (AppendOnPrefix i es) v)"
| "settled open_end (Trim i # xs) v = settled (open_end \<or> v_end v < i) xs (view_op (Trim i) v)"
| "settled open_end (x # xs) v = settled open_end xs (view_op x v)"

fun view_ops_legal :: "('t, 'n) StorageOp list \<Rightarrow> ('t, 'n) StoreView \<Rightarrow> bool" where
  "view_ops_legal [] v = True"
| "view_ops_legal (x # xs) v = (view_op_ok x v \<and> view_ops_legal xs (view_op x v))"

definition view_ops_ok :: "('t, 'n) StorageOp list \<Rightarrow> ('t, 'n) StoreView \<Rightarrow> bool" where
  "view_ops_ok ops v \<longleftrightarrow> view_ops_legal ops v \<and> settled False ops v"

definition view_entries :: "('t, 'n) StoreView \<Rightarrow> nat \<Rightarrow> nat \<Rightarrow> 't list" where
  "view_entries v i j =
     (if i \<le> j \<and> j \<le> v_end v then take (j - i) (drop (i - v_offset v) (v_log v)) else [])"

locale log_storage =
  fixes S :: "('s, 't, 'n) Storage"
    and view :: "'s \<Rightarrow> ('t, 'n) StoreView"
    and invar :: "'s \<Rightarrow> bool"
  assumes view_bound: "invar s \<Longrightarrow> v_end (view s) < usize_limit"
    and write_atomically_law:
      "invar s \<Longrightarrow> view_ops_ok ops (view s) \<Longrightarrow>
       \<exists>s'. write_atomically S s ops = (s', Inr ()) \<and> invar s' \<and> view s' = view_ops ops (view s)"
    and append_entries_law:
      "invar s \<Longrightarrow> view_op_ok (AppendEntries es) (view s) \<Longrightarrow>
       \<exists>s'. append_entries S s es = (s', Inr ()) \<and> invar s' \<and>
            view s' = view_op (AppendEntries es) (view s)"
    and set_promise_law:
      "invar s \<Longrightarrow> \<exists>s'. set_promise S s b = (s', Inr ()) \<and> invar s' \<and>
            view s' = view_op (SetPromise b) (view s)"
    and set_decided_idx_law:
      "invar s \<Longrightarrow> i < usize_limit \<Longrightarrow> \<exists>s'. set_decided_idx S s i = (s', Inr ()) \<and> invar s' \<and>
            view s' = view_op (SetDecidedIndex i) (view s)"
    and set_stopsign_law:
      "invar s \<Longrightarrow> \<exists>s'. set_stopsign S s ss = (s', Inr ()) \<and> invar s' \<and>
            view s' = view_op (SetStopsign ss) (view s)"
    and get_promise_law: "invar s \<Longrightarrow> get_promise S s = Inr (v_promise (view s))"
    and get_decided_idx_law: "invar s \<Longrightarrow> get_decided_idx S s = Inr (v_decided (view s))"
    and get_accepted_round_law: "invar s \<Longrightarrow> get_accepted_round S s = Inr (v_acc_round (view s))"
    and get_compacted_idx_law: "invar s \<Longrightarrow> get_compacted_idx S s = Inr (v_compacted (view s))"
    and get_stopsign_law: "invar s \<Longrightarrow> get_stopsign S s = Inr (v_stopsign (view s))"
    and get_snapshot_law: "invar s \<Longrightarrow> get_snapshot S s = Inr (v_snapshot (view s))"
    and get_log_len_law:
      "invar s \<Longrightarrow> v_compacted (view s) = v_offset (view s) \<Longrightarrow>
       get_log_len S s = Inr (length (v_log (view s)))"
    and get_entries_law:
      "invar s \<Longrightarrow> v_offset (view s) \<le> i \<Longrightarrow> v_offset (view s) \<le> j \<Longrightarrow> i < usize_limit \<Longrightarrow>
       j < usize_limit \<Longrightarrow> get_entries S s i j = Inr (view_entries (view s) i j)"
    and get_suffix_law:
      "invar s \<Longrightarrow> v_offset (view s) \<le> i \<Longrightarrow> i \<le> v_end (view s) \<Longrightarrow>
       get_suffix S s i = Inr (view_entries (view s) i (v_end (view s)))"
begin

lemmas getter_laws = get_promise_law get_decided_idx_law get_accepted_round_law
  get_compacted_idx_law get_stopsign_law get_snapshot_law get_log_len_law

end

section \<open>The contract of snapshots\<close>

text \<open>
  A usable snapshot type never panics, and snapshotting a log in two pieces and merging gives
  the snapshot of the whole.
\<close>

locale snapshots =
  fixes SN :: "('t, 'n) Snapshot"
  assumes create_total: "\<exists>n. create SN es = Inr n"
    and merge_create:
      "create SN xs = Inr a \<Longrightarrow> create SN ys = Inr b \<Longrightarrow> merge SN a b = create SN (xs @ ys)"
    and enabled: "use_snapshots SN"
begin

definition snapshot_of :: "'t list \<Rightarrow> 'n" where
  "snapshot_of es = projr (create SN es)"

lemma create_snapshot_of: "create SN es = Inr (snapshot_of es)"
  using create_total [of es] by (auto simp: snapshot_of_def)

lemma merge_snapshot_of: "merge SN (snapshot_of xs) (snapshot_of ys) = Inr (snapshot_of (xs @ ys))"
  using merge_create create_snapshot_of by metis

end

end
