(* ===== verification/Internal_Storage.thy ===== *)
theory Internal_Storage
  imports Storage_Api
begin

text \<open>
  \<^verbatim>\<open>omnipaxos/src/storage/state_cache.rs\<close> and \<^verbatim>\<open>omnipaxos/src/storage/internal_storage.rs\<close>: the
  layer between Sequence Paxos and the storage backend. It caches the scalar values and the
  log length, batches appends, reads ranges of the log and compacts it.

  The operations are generic in the backend \<open>S\<close> and the snapshot type \<open>SN\<close>, as the Rust code
  is. In \<open>Internal_Storage_Laws\<close>, for any lawful backend, the cache invariant \<open>coherent\<close> is
  shown for every operation, together with what the operation does to the abstract log.
  The model is of the build without the \<open>unicache\<close> feature, as the server is built.
\<close>

section \<open>The state cache\<close>

record 't StateCache =
  batch_size :: usize
  batched_entries :: "'t list"
  promise :: Ballot
  accepted_round :: Ballot
  decided_idx :: usize
  accepted_idx :: usize
  compacted_idx :: usize
  stopsign :: "StopSign option"

record InternalStorageConfig =
  isc_batch_size :: usize

definition StateCache_new :: "InternalStorageConfig \<Rightarrow> 't StateCache" where
  "StateCache_new config =
     \<lparr>batch_size = isc_batch_size config, batched_entries = [], promise = Ballot_default,
      accepted_round = Ballot_default, decided_idx = 0, accepted_idx = 0, compacted_idx = 0,
      stopsign = None\<rparr>"

definition take_batched_entries :: "'t StateCache \<Rightarrow> 't StateCache \<times> 't list" where
  "take_batched_entries c = (c\<lparr>batched_entries := []\<rparr>, batched_entries c)"

definition take_entries_if_batch_is_full :: "'t StateCache \<Rightarrow> 't StateCache \<times> 't list option" where
  "take_entries_if_batch_is_full c =
     (if batch_size c \<le> length (batched_entries c)
      then (let (c', es) = take_batched_entries c in (c', Some es))
      else (c, None))"

definition StateCache_append_entry :: "'t StateCache \<Rightarrow> 't \<Rightarrow> 't StateCache \<times> 't list option" where
  "StateCache_append_entry c entry =
     take_entries_if_batch_is_full (c\<lparr>batched_entries := batched_entries c @ [entry]\<rparr>)"

definition StateCache_append_entries ::
  "'t StateCache \<Rightarrow> 't list \<Rightarrow> 't StateCache \<times> 't list option" where
  "StateCache_append_entries c entries =
     take_entries_if_batch_is_full (c\<lparr>batched_entries := batched_entries c @ entries\<rparr>)"

definition StateCache_append_stopsign ::
  "'t StateCache \<Rightarrow> StopSign \<Rightarrow> 't StateCache \<times> 't list option" where
  "StateCache_append_stopsign c ss =
     (let c = c\<lparr>stopsign := Some ss\<rparr>
      in if batched_entries c = [] then (c, None)
         else (let (c', es) = take_batched_entries c in (c', Some es)))"

definition StateCache_stopsign_is_decided :: "'t StateCache \<Rightarrow> bool" where
  "StateCache_stopsign_is_decided c \<longleftrightarrow> stopsign c \<noteq> None \<and> decided_idx c = accepted_idx c"

section \<open>The internal storage\<close>

record ('s, 't) InternalStorage =
  storage :: 's
  state_cache :: "'t StateCache"

abbreviation update_cache ::
  "('t StateCache \<Rightarrow> 't StateCache) \<Rightarrow> ('s, 't) InternalStorage \<Rightarrow> ('s, 't) InternalStorage" where
  "update_cache f i \<equiv> i\<lparr>state_cache := f (state_cache i)\<rparr>"

definition UNWRAP_ERR :: string where
  "UNWRAP_ERR = ''called Result::unwrap() on an Err value''"

definition load_cache ::
  "('s, 't, 'n) Storage \<Rightarrow> ('s, 't) InternalStorage \<Rightarrow> ('s, 't) InternalStorage StorageResult" where
  "load_cache S i =
     try_result (expect ''Failed to load cache from storage.'' (get_promise S (storage i))) (\<lambda>prom.
     try_result (expect UNWRAP_ERR (get_decided_idx S (storage i))) (\<lambda>decided.
     try_result (expect UNWRAP_ERR (get_accepted_round S (storage i))) (\<lambda>acc.
     try_result (expect UNWRAP_ERR (get_compacted_idx S (storage i))) (\<lambda>compacted.
     try_result (expect UNWRAP_ERR (get_stopsign S (storage i))) (\<lambda>ss.
     try_result (expect UNWRAP_ERR (get_log_len S (storage i))) (\<lambda>len.
       (let accepted = usize_add len compacted;
            accepted = (if ss \<noteq> None then usize_add accepted 1 else accepted)
        in Inr (update_cache (\<lambda>c. c\<lparr>promise := unwrap_or prom Ballot_default,
             decided_idx := decided,
             accepted_round := unwrap_or acc Ballot_default,
             compacted_idx := compacted,
             stopsign := ss,
             accepted_idx := accepted\<rparr>) i))))))))"

definition InternalStorage_with ::
  "('s, 't, 'n) Storage \<Rightarrow> 's \<Rightarrow> InternalStorageConfig \<Rightarrow> ('s, 't) InternalStorage StorageResult" where
  "InternalStorage_with S st config =
     load_cache S \<lparr>storage = st, state_cache = StateCache_new config\<rparr>"

subsection \<open>Reading\<close>

definition InternalStorage_get_promise :: "('s, 't) InternalStorage \<Rightarrow> Ballot" where
  "InternalStorage_get_promise i = promise (state_cache i)"

definition InternalStorage_get_decided_idx :: "('s, 't) InternalStorage \<Rightarrow> usize" where
  "InternalStorage_get_decided_idx i = decided_idx (state_cache i)"

definition InternalStorage_get_stopsign :: "('s, 't) InternalStorage \<Rightarrow> StopSign option" where
  "InternalStorage_get_stopsign i = stopsign (state_cache i)"

definition InternalStorage_get_suffix ::
  "('s, 't, 'n) Storage \<Rightarrow> ('s, 't) InternalStorage \<Rightarrow> usize \<Rightarrow> 't list StorageResult" where
  "InternalStorage_get_suffix S i from_idx = get_suffix S (storage i) from_idx"

definition stopsign_is_decided :: "('s, 't) InternalStorage \<Rightarrow> bool" where
  "stopsign_is_decided i = StateCache_stopsign_is_decided (state_cache i)"

definition get_decided_idx_without_stopsign :: "('s, 't) InternalStorage \<Rightarrow> usize" where
  "get_decided_idx_without_stopsign i =
     (if stopsign_is_decided i then usize_sub (decided_idx (state_cache i)) 1
      else decided_idx (state_cache i))"

definition get_entry_type ::
  "('s, 't) InternalStorage \<Rightarrow> usize \<Rightarrow> usize \<Rightarrow> usize \<Rightarrow> IndexEntry option StorageResult" where
  "get_entry_type i idx compacted accepted =
     (if idx < compacted then Inr (Some Compacted)
      else if usize_add idx 1 < accepted then Inr (Some Entry)
      else if usize_add idx 1 = accepted then
        (case stopsign (state_cache i) of
           Some ss \<Rightarrow> Inr (Some (StopSignIdx ss))
         | None \<Rightarrow> Inr (Some Entry))
      else Inr None)"

definition create_read_log_entries ::
  "('s, 't, 'n) Storage \<Rightarrow> ('s, 't) InternalStorage \<Rightarrow> usize \<Rightarrow> usize \<Rightarrow> 't LogEntry list StorageResult"
  where
  "create_read_log_entries S i from_idx to_idx =
     try_result (get_entries S (storage i) from_idx to_idx) (\<lambda>entries.
       Inr (map (\<lambda>(idx, e).
                   if usize_add idx from_idx < decided_idx (state_cache i)
                   then Decided e else Undecided e)
              (enumerate 0 entries)))"

datatype Bound = Included usize | Excluded usize | Unbounded

definition InternalStorage_read ::
  "('s, 't, 'n) Storage \<Rightarrow> ('s, 't) InternalStorage \<Rightarrow> Bound \<Rightarrow> Bound \<Rightarrow>
   't LogEntry list option StorageResult" where
  "InternalStorage_read S i start_bound end_bound =
     (let from_idx = (case start_bound of Included k \<Rightarrow> k | Excluded e \<Rightarrow> usize_add e 1 | Unbounded \<Rightarrow> 0);
          to_idx = (case end_bound of Included k \<Rightarrow> usize_add k 1 | Excluded e \<Rightarrow> e
                    | Unbounded \<Rightarrow> accepted_idx (state_cache i))
      in if to_idx = 0 then Inr None
         else
           let compacted = compacted_idx (state_cache i); accepted = accepted_idx (state_cache i)
           in try_result (get_entry_type i (usize_sub to_idx 1) compacted accepted) (\<lambda>to_opt.
              case to_opt of None \<Rightarrow> Inr None | Some to_type \<Rightarrow>
              try_result (get_entry_type i from_idx compacted accepted) (\<lambda>from_opt.
              case from_opt of None \<Rightarrow> Inr None | Some from_type \<Rightarrow>
              (case (from_type, to_type) of
                 (Entry, Entry) \<Rightarrow>
                   try_result (create_read_log_entries S i from_idx to_idx) (\<lambda>es. Inr (Some es))
               | (Entry, StopSignIdx ss) \<Rightarrow>
                   try_result (create_read_log_entries S i from_idx (usize_sub to_idx 1)) (\<lambda>es.
                     Inr (Some (es @ [StopSignEntry ss (stopsign_is_decided i)])))
               | (StopSignIdx ss, StopSignIdx _) \<Rightarrow>
                   Inr (Some [StopSignEntry ss (stopsign_is_decided i)])
               | _ \<Rightarrow> Inl (Panic ''not implemented: Unexpected read combination'')))))"

definition InternalStorage_read_decided_suffix ::
  "('s, 't, 'n) Storage \<Rightarrow> ('s, 't) InternalStorage \<Rightarrow> usize \<Rightarrow>
   't LogEntry list option StorageResult" where
  "InternalStorage_read_decided_suffix S i from_idx =
     (let decided = decided_idx (state_cache i)
      in if from_idx < decided then InternalStorage_read S i (Included from_idx) (Excluded decided)
         else Inr None)"

subsection \<open>Appending\<close>

definition append_entries_without_batching ::
  "('s, 't, 'n) Storage \<Rightarrow> ('s, 't) InternalStorage \<Rightarrow> 't list \<Rightarrow>
   ('s, 't) InternalStorage \<times> usize StorageResult" where
  "append_entries_without_batching S i entries =
     (let num_new_entries = length entries;
          (st, r) = append_entries S (storage i) entries;
          i = i\<lparr>storage := st\<rparr>
      in try_state (i, r) (\<lambda>i _.
           let i = update_cache (\<lambda>c. c\<lparr>accepted_idx := usize_add (accepted_idx c) num_new_entries\<rparr>) i
           in (i, Inr (accepted_idx (state_cache i)))))"

definition append_entries_and_get_accepted_idx ::
  "('s, 't, 'n) Storage \<Rightarrow> ('s, 't) InternalStorage \<Rightarrow> 't list \<Rightarrow>
   ('s, 't) InternalStorage \<times> usize option StorageResult" where
  "append_entries_and_get_accepted_idx S i entries =
     (let (c, append_res) = StateCache_append_entries (state_cache i) entries;
          i = i\<lparr>state_cache := c\<rparr>
      in case append_res of
           Some flushed_entries \<Rightarrow>
             try_state (append_entries_without_batching S i flushed_entries)
               (\<lambda>i accepted. (i, Inr (Some accepted)))
         | None \<Rightarrow> (i, Inr None))"

definition flush_batch ::
  "('s, 't, 'n) Storage \<Rightarrow> ('s, 't) InternalStorage \<Rightarrow>
   ('s, 't) InternalStorage \<times> usize StorageResult" where
  "flush_batch S i =
     (let (c, flushed_entries) = take_batched_entries (state_cache i)
      in append_entries_without_batching S (i\<lparr>state_cache := c\<rparr>) flushed_entries)"

subsection \<open>Snapshots and compaction\<close>

definition create_snapshot ::
  "('s, 't, 'n) Storage \<Rightarrow> ('t, 'n) Snapshot \<Rightarrow> ('s, 't) InternalStorage \<Rightarrow> usize \<Rightarrow> 'n StorageResult"
  where
  "create_snapshot S SN i compact_idx =
     (let current_compacted_idx = compacted_idx (state_cache i)
      in if compact_idx < current_compacted_idx
         then Inl (Err (CompactionError (TrimmedIndex current_compacted_idx)))
         else
           try_result (get_entries S (storage i) current_compacted_idx compact_idx) (\<lambda>entries.
           try_result (create SN entries) (\<lambda>delta.
           try_result (get_snapshot S (storage i)) (\<lambda>snap.
             case snap of Some s \<Rightarrow> merge SN s delta | None \<Rightarrow> Inr delta))))"

definition create_decided_snapshot ::
  "('s, 't, 'n) Storage \<Rightarrow> ('t, 'n) Snapshot \<Rightarrow> ('s, 't) InternalStorage \<Rightarrow> 'n StorageResult" where
  "create_decided_snapshot S SN i = create_snapshot S SN i (get_decided_idx_without_stopsign i)"

definition create_diff_snapshot ::
  "('s, 't, 'n) Storage \<Rightarrow> ('t, 'n) Snapshot \<Rightarrow> ('s, 't) InternalStorage \<Rightarrow> usize \<Rightarrow>
   ('n SnapshotType option \<times> usize) StorageResult" where
  "create_diff_snapshot S SN i from_idx =
     (let log_decided_idx = get_decided_idx_without_stopsign i;
          compacted = compacted_idx (state_cache i)
      in try_result
           (if from_idx \<le> compacted then
              (if compacted < log_decided_idx
               then try_result (create_snapshot S SN i log_decided_idx) (\<lambda>s. Inr (Some (Complete s)))
               else try_result (get_snapshot S (storage i)) (\<lambda>s. Inr (map_option Complete s)))
            else
              try_result (get_entries S (storage i) from_idx log_decided_idx) (\<lambda>diff_entries.
              try_result (create SN diff_entries) (\<lambda>d. Inr (Some (Delta d)))))
           (\<lambda>snapshot. Inr (snapshot, log_decided_idx)))"

definition try_trim ::
  "('s, 't, 'n) Storage \<Rightarrow> ('s, 't) InternalStorage \<Rightarrow> usize \<Rightarrow>
   ('s, 't) InternalStorage \<times> unit StorageResult" where
  "try_trim S i idx =
     (let decided = decided_idx (state_cache i);
          log_decided_idx = get_decided_idx_without_stopsign i
      in if decided < idx then (i, Inl (Err (CompactionError (UndecidedIndex decided))))
         else
           let new_compacted_idx = (if idx < decided then idx else log_decided_idx)
           in if compacted_idx (state_cache i) < new_compacted_idx then
                (let (st, r) = write_atomically S (storage i)
                   [Trim new_compacted_idx, SetCompactedIdx new_compacted_idx]
                 in try_state (i\<lparr>storage := st\<rparr>, r) (\<lambda>i _.
                      (update_cache (\<lambda>c. c\<lparr>compacted_idx := new_compacted_idx\<rparr>) i, Inr ())))
              else (i, Inr ()))"

definition try_snapshot ::
  "('s, 't, 'n) Storage \<Rightarrow> ('t, 'n) Snapshot \<Rightarrow> ('s, 't) InternalStorage \<Rightarrow> usize option \<Rightarrow>
   ('s, 't) InternalStorage \<times> unit StorageResult" where
  "try_snapshot S SN i snapshot_idx =
     (let decided = decided_idx (state_cache i);
          log_decided_idx = get_decided_idx_without_stopsign i
      in case (case snapshot_idx of
                 Some k \<Rightarrow> (if k < decided then Inr k
                           else if k = decided then Inr log_decided_idx
                           else Inl (Err (CompactionError (UndecidedIndex decided))))
               | None \<Rightarrow> Inr log_decided_idx) of
           Inl e \<Rightarrow> (i, Inl e)
         | Inr new_compacted_idx \<Rightarrow>
             if compacted_idx (state_cache i) < new_compacted_idx then
               (case create_snapshot S SN i new_compacted_idx of
                  Inl e \<Rightarrow> (i, Inl e)
                | Inr snapshot \<Rightarrow>
                    (let (st, r) = write_atomically S (storage i)
                       [Trim new_compacted_idx, SetCompactedIdx new_compacted_idx,
                        SetSnapshot (Some snapshot)]
                     in try_state (i\<lparr>storage := st\<rparr>, r) (\<lambda>i _.
                          (update_cache (\<lambda>c. c\<lparr>compacted_idx := new_compacted_idx\<rparr>) i, Inr ()))))
             else (i, Inr ()))"

subsection \<open>Synchronising the log\<close>

text \<open>
  \<open>sync_log\<close> updates the cache as it builds the transaction. The \<open>Delta\<close> branch snapshots the
  local decided log after the decided index in the cache was already replaced.
\<close>

definition sync_snapshot_ops ::
  "('s, 't, 'n) Storage \<Rightarrow> ('t, 'n) Snapshot \<Rightarrow> ('s, 't) InternalStorage \<Rightarrow> ('t, 'n) LogSync \<Rightarrow>
   ('s, 't) InternalStorage \<times> ('t, 'n) StorageOp list StorageResult" where
  "sync_snapshot_ops S SN i sync =
     (case decided_snapshot sync of
        Some (Complete c) \<Rightarrow>
          (update_cache (\<lambda>k. k\<lparr>compacted_idx := sync_idx sync\<rparr>) i,
           Inr [Trim (sync_idx sync), SetCompactedIdx (sync_idx sync), SetSnapshot (Some c)])
      | Some (Delta d) \<Rightarrow>
          (case try_result (create_decided_snapshot S SN i) (\<lambda>s. merge SN s d) of
             Inl e \<Rightarrow> (i, Inl e)
           | Inr snapshot \<Rightarrow>
               (update_cache (\<lambda>k. k\<lparr>compacted_idx := sync_idx sync\<rparr>) i,
                Inr [Trim (sync_idx sync), SetCompactedIdx (sync_idx sync),
                     SetSnapshot (Some snapshot)]))
      | None \<Rightarrow> (i, Inr []))"

definition sync_suffix_ops ::
  "('s, 't) InternalStorage \<Rightarrow> ('t, 'n) LogSync \<Rightarrow>
   ('s, 't) InternalStorage \<times> ('t, 'n) StorageOp list" where
  "sync_suffix_ops i sync =
     (let i = update_cache (\<lambda>k. k\<lparr>accepted_idx := usize_add (sync_idx sync) (length (sync_suffix sync))\<rparr>) i;
          ops = [AppendOnPrefix (sync_idx sync) (sync_suffix sync)]
      in case sync_stopsign sync of
           Some ss \<Rightarrow>
             (update_cache (\<lambda>k. k\<lparr>stopsign := Some ss, accepted_idx := usize_add (accepted_idx k) 1\<rparr>) i,
              ops @ [SetStopsign (Some ss)])
         | None \<Rightarrow>
             (if stopsign (state_cache i) \<noteq> None
              then (update_cache (\<lambda>k. k\<lparr>stopsign := None\<rparr>) i, ops @ [SetStopsign None])
              else (i, ops)))"

definition sync_log ::
  "('s, 't, 'n) Storage \<Rightarrow> ('t, 'n) Snapshot \<Rightarrow> ('s, 't) InternalStorage \<Rightarrow> Ballot \<Rightarrow> usize \<Rightarrow>
   ('t, 'n) LogSync option \<Rightarrow> ('s, 't) InternalStorage \<times> usize StorageResult" where
  "sync_log S SN i acc_round decided log_sync =
     (let i = update_cache (\<lambda>c. c\<lparr>accepted_round := acc_round, decided_idx := decided\<rparr>) i;
          sync_txn = [SetAcceptedRound acc_round, SetDecidedIndex decided]
      in try_state
           (case log_sync of
              None \<Rightarrow> (i, Inr sync_txn)
            | Some sync \<Rightarrow>
                try_state (sync_snapshot_ops S SN i sync) (\<lambda>i snap_ops.
                  let (i, suffix_ops) = sync_suffix_ops i sync
                  in (i, Inr (sync_txn @ snap_ops @ suffix_ops))))
           (\<lambda>i ops.
              let (st, r) = write_atomically S (storage i) ops
              in try_state (i\<lparr>storage := st\<rparr>, r) (\<lambda>i _. (i, Inr (accepted_idx (state_cache i))))))"

subsection \<open>Setters\<close>

definition InternalStorage_set_promise ::
  "('s, 't, 'n) Storage \<Rightarrow> ('s, 't) InternalStorage \<Rightarrow> Ballot \<Rightarrow>
   ('s, 't) InternalStorage \<times> unit StorageResult" where
  "InternalStorage_set_promise S i n_prom =
     (let i = update_cache (\<lambda>c. c\<lparr>promise := n_prom\<rparr>) i;
          (st, r) = set_promise S (storage i) n_prom
      in (i\<lparr>storage := st\<rparr>, r))"

definition InternalStorage_set_decided_idx ::
  "('s, 't, 'n) Storage \<Rightarrow> ('s, 't) InternalStorage \<Rightarrow> usize \<Rightarrow>
   ('s, 't) InternalStorage \<times> unit StorageResult" where
  "InternalStorage_set_decided_idx S i idx =
     (let i = update_cache (\<lambda>c. c\<lparr>decided_idx := idx\<rparr>) i;
          (st, r) = set_decided_idx S (storage i) idx
      in (i\<lparr>storage := st\<rparr>, r))"

definition InternalStorage_set_stopsign ::
  "('s, 't, 'n) Storage \<Rightarrow> ('s, 't) InternalStorage \<Rightarrow> StopSign option \<Rightarrow>
   ('s, 't) InternalStorage \<times> usize StorageResult" where
  "InternalStorage_set_stopsign S i ss =
     (let i = update_cache (\<lambda>c.
            if ss \<noteq> None \<and> stopsign c = None then c\<lparr>accepted_idx := usize_add (accepted_idx c) 1\<rparr>
            else if ss = None \<and> stopsign c \<noteq> None then c\<lparr>accepted_idx := usize_sub (accepted_idx c) 1\<rparr>
            else c) i;
          i = update_cache (\<lambda>c. c\<lparr>stopsign := ss\<rparr>) i;
          (st, r) = set_stopsign S (storage i) ss
      in try_state (i\<lparr>storage := st\<rparr>, r) (\<lambda>i _. (i, Inr (accepted_idx (state_cache i)))))"

end
