(* ===== verification/Memory_Storage.thy ===== *)
theory Memory_Storage
  imports Storage_Api
begin

text \<open>
  \<open>MemoryStorage\<close> of \<^verbatim>\<open>omnipaxos_storage/src/memory_storage.rs\<close>, the backend the server runs on:
  its fields, every method of its \<open>Storage\<close> implementation, and the interpretation of
  \<open>log_storage\<close> on it. Index arithmetic (\<open>from - self.trimmed_idx\<close>) wraps, so a request below
  the trimmed index becomes a huge index; \<open>trim\<close> with such an index empties the log.
\<close>

record ('t, 'n) MemoryStorage =
  ms_log :: "'t list"
  ms_n_prom :: "Ballot option"
  ms_acc_round :: "Ballot option"
  ms_ld :: usize
  ms_trimmed_idx :: usize
  ms_compacted_idx :: usize
  ms_snapshot :: "'n option"
  ms_stopsign :: "StopSign option"

definition MemoryStorage_default :: "('t, 'n) MemoryStorage" where
  "MemoryStorage_default =
     \<lparr>ms_log = [], ms_n_prom = None, ms_acc_round = None, ms_ld = 0, ms_trimmed_idx = 0,
      ms_compacted_idx = 0, ms_snapshot = None, ms_stopsign = None\<rparr>"

section \<open>Hashing the history\<close>

text \<open>
  What a \<open>Hash\<close> implementation feeds to the hasher. \<open>finish\<close>, the standard library's
  \<open>DefaultHasher\<close> (whose algorithm is not specified), is an argument.
\<close>

datatype HashToken = WriteUsize usize | WriteIsize int | WriteStr string

definition MemoryStorage_history_hash ::
  "('t \<Rightarrow> HashToken list) \<Rightarrow> (HashToken list \<Rightarrow> u64) \<Rightarrow> ('t, 'n) MemoryStorage \<Rightarrow> u64" where
  "MemoryStorage_history_hash hash finish s =
     finish (foldl (\<lambda>hasher entry. hasher @ hash entry) [] (ms_log s))"

lemma foldl_hash: "foldl (\<lambda>h e. h @ f e) acc xs = acc @ concat (map f xs)"
  by (induction xs arbitrary: acc) auto

lemma history_hash_concat:
  "MemoryStorage_history_hash hash finish s = finish (concat (map hash (ms_log s)))"
  by (simp add: MemoryStorage_history_hash_def foldl_hash)

section \<open>Methods\<close>

definition MemoryStorage_append_entry ::
  "('t, 'n) MemoryStorage \<Rightarrow> 't \<Rightarrow> ('t, 'n) MemoryStorage \<times> unit StorageResult" where
  "MemoryStorage_append_entry s entry = (s\<lparr>ms_log := ms_log s @ [entry]\<rparr>, Inr ())"

definition MemoryStorage_append_entries ::
  "('t, 'n) MemoryStorage \<Rightarrow> 't list \<Rightarrow> ('t, 'n) MemoryStorage \<times> unit StorageResult" where
  "MemoryStorage_append_entries s entries = (s\<lparr>ms_log := ms_log s @ entries\<rparr>, Inr ())"

definition MemoryStorage_append_on_prefix ::
  "('t, 'n) MemoryStorage \<Rightarrow> usize \<Rightarrow> 't list \<Rightarrow> ('t, 'n) MemoryStorage \<times> unit StorageResult" where
  "MemoryStorage_append_on_prefix s from_idx entries =
     (let s = s\<lparr>ms_log := take (usize_sub from_idx (ms_trimmed_idx s)) (ms_log s)\<rparr>
      in MemoryStorage_append_entries s entries)"

definition MemoryStorage_set_promise ::
  "('t, 'n) MemoryStorage \<Rightarrow> Ballot \<Rightarrow> ('t, 'n) MemoryStorage \<times> unit StorageResult" where
  "MemoryStorage_set_promise s n_prom = (s\<lparr>ms_n_prom := Some n_prom\<rparr>, Inr ())"

definition MemoryStorage_set_decided_idx ::
  "('t, 'n) MemoryStorage \<Rightarrow> usize \<Rightarrow> ('t, 'n) MemoryStorage \<times> unit StorageResult" where
  "MemoryStorage_set_decided_idx s ld = (s\<lparr>ms_ld := ld\<rparr>, Inr ())"

definition MemoryStorage_get_decided_idx :: "('t, 'n) MemoryStorage \<Rightarrow> usize StorageResult" where
  "MemoryStorage_get_decided_idx s = Inr (ms_ld s)"

definition MemoryStorage_set_accepted_round ::
  "('t, 'n) MemoryStorage \<Rightarrow> Ballot \<Rightarrow> ('t, 'n) MemoryStorage \<times> unit StorageResult" where
  "MemoryStorage_set_accepted_round s na = (s\<lparr>ms_acc_round := Some na\<rparr>, Inr ())"

definition MemoryStorage_get_accepted_round ::
  "('t, 'n) MemoryStorage \<Rightarrow> Ballot option StorageResult" where
  "MemoryStorage_get_accepted_round s = Inr (ms_acc_round s)"

definition MemoryStorage_get_entries ::
  "('t, 'n) MemoryStorage \<Rightarrow> usize \<Rightarrow> usize \<Rightarrow> 't list StorageResult" where
  "MemoryStorage_get_entries s from_idx to_idx =
     (let i = usize_sub from_idx (ms_trimmed_idx s); j = usize_sub to_idx (ms_trimmed_idx s)
      in Inr (unwrap_or (vec_range (ms_log s) i j) []))"

definition MemoryStorage_get_log_len :: "('t, 'n) MemoryStorage \<Rightarrow> usize StorageResult" where
  "MemoryStorage_get_log_len s = Inr (length (ms_log s))"

definition MemoryStorage_get_suffix ::
  "('t, 'n) MemoryStorage \<Rightarrow> usize \<Rightarrow> 't list StorageResult" where
  "MemoryStorage_get_suffix s from_idx =
     Inr (case vec_from (ms_log s) (usize_sub from_idx (ms_trimmed_idx s)) of
            Some suffix \<Rightarrow> suffix | None \<Rightarrow> [])"

definition MemoryStorage_get_promise :: "('t, 'n) MemoryStorage \<Rightarrow> Ballot option StorageResult" where
  "MemoryStorage_get_promise s = Inr (ms_n_prom s)"

definition MemoryStorage_set_stopsign ::
  "('t, 'n) MemoryStorage \<Rightarrow> StopSign option \<Rightarrow> ('t, 'n) MemoryStorage \<times> unit StorageResult" where
  "MemoryStorage_set_stopsign s ss = (s\<lparr>ms_stopsign := ss\<rparr>, Inr ())"

definition MemoryStorage_get_stopsign ::
  "('t, 'n) MemoryStorage \<Rightarrow> StopSign option StorageResult" where
  "MemoryStorage_get_stopsign s = Inr (ms_stopsign s)"

definition MemoryStorage_trim ::
  "('t, 'n) MemoryStorage \<Rightarrow> usize \<Rightarrow> ('t, 'n) MemoryStorage \<times> unit StorageResult" where
  "MemoryStorage_trim s trimmed_idx =
     (let to_trim = min (usize_sub trimmed_idx (ms_trimmed_idx s)) (length (ms_log s))
      in (s\<lparr>ms_log := drop to_trim (ms_log s), ms_trimmed_idx := trimmed_idx\<rparr>, Inr ()))"

definition MemoryStorage_set_compacted_idx ::
  "('t, 'n) MemoryStorage \<Rightarrow> usize \<Rightarrow> ('t, 'n) MemoryStorage \<times> unit StorageResult" where
  "MemoryStorage_set_compacted_idx s compact_idx = (s\<lparr>ms_compacted_idx := compact_idx\<rparr>, Inr ())"

definition MemoryStorage_get_compacted_idx :: "('t, 'n) MemoryStorage \<Rightarrow> usize StorageResult" where
  "MemoryStorage_get_compacted_idx s = Inr (ms_compacted_idx s)"

definition MemoryStorage_set_snapshot ::
  "('t, 'n) MemoryStorage \<Rightarrow> 'n option \<Rightarrow> ('t, 'n) MemoryStorage \<times> unit StorageResult" where
  "MemoryStorage_set_snapshot s snapshot = (s\<lparr>ms_snapshot := snapshot\<rparr>, Inr ())"

definition MemoryStorage_get_snapshot :: "('t, 'n) MemoryStorage \<Rightarrow> 'n option StorageResult" where
  "MemoryStorage_get_snapshot s = Inr (ms_snapshot s)"

text \<open>The body of the loop of \<open>write_atomically\<close>, and the loop: it stops at the first error.\<close>

fun MemoryStorage_write_op ::
  "('t, 'n) MemoryStorage \<Rightarrow> ('t, 'n) StorageOp \<Rightarrow> ('t, 'n) MemoryStorage \<times> unit StorageResult" where
  "MemoryStorage_write_op s (AppendEntry entry) = MemoryStorage_append_entry s entry"
| "MemoryStorage_write_op s (AppendEntries entries) = MemoryStorage_append_entries s entries"
| "MemoryStorage_write_op s (AppendOnPrefix from_idx entries) =
     MemoryStorage_append_on_prefix s from_idx entries"
| "MemoryStorage_write_op s (SetPromise bal) = MemoryStorage_set_promise s bal"
| "MemoryStorage_write_op s (SetDecidedIndex idx) = MemoryStorage_set_decided_idx s idx"
| "MemoryStorage_write_op s (SetAcceptedRound bal) = MemoryStorage_set_accepted_round s bal"
| "MemoryStorage_write_op s (SetCompactedIdx idx) = MemoryStorage_set_compacted_idx s idx"
| "MemoryStorage_write_op s (Trim idx) = MemoryStorage_trim s idx"
| "MemoryStorage_write_op s (SetStopsign ss) = MemoryStorage_set_stopsign s ss"
| "MemoryStorage_write_op s (SetSnapshot snap) = MemoryStorage_set_snapshot s snap"

fun MemoryStorage_write_atomically ::
  "('t, 'n) MemoryStorage \<Rightarrow> ('t, 'n) StorageOp list \<Rightarrow> ('t, 'n) MemoryStorage \<times> unit StorageResult"
  where
  "MemoryStorage_write_atomically s [] = (s, Inr ())"
| "MemoryStorage_write_atomically s (op # ops) =
     try_state (MemoryStorage_write_op s op) (\<lambda>s _. MemoryStorage_write_atomically s ops)"

text \<open>\<open>impl Storage<T> for MemoryStorage<T>\<close>.\<close>

definition MemoryStorage_impl ::
  "('t \<Rightarrow> HashToken list) \<Rightarrow> (HashToken list \<Rightarrow> u64) \<Rightarrow>
   (('t, 'n) MemoryStorage, 't, 'n) Storage" where
  "MemoryStorage_impl hash finish =
     \<lparr>history_hash = MemoryStorage_history_hash hash finish,
      write_atomically = MemoryStorage_write_atomically,
      append_entry = MemoryStorage_append_entry,
      append_entries = MemoryStorage_append_entries,
      append_on_prefix = MemoryStorage_append_on_prefix,
      set_promise = MemoryStorage_set_promise,
      set_decided_idx = MemoryStorage_set_decided_idx,
      get_decided_idx = MemoryStorage_get_decided_idx,
      set_accepted_round = MemoryStorage_set_accepted_round,
      get_accepted_round = MemoryStorage_get_accepted_round,
      get_entries = MemoryStorage_get_entries,
      get_log_len = MemoryStorage_get_log_len,
      get_suffix = MemoryStorage_get_suffix,
      get_promise = MemoryStorage_get_promise,
      set_stopsign = MemoryStorage_set_stopsign,
      get_stopsign = MemoryStorage_get_stopsign,
      trim = MemoryStorage_trim,
      set_compacted_idx = MemoryStorage_set_compacted_idx,
      get_compacted_idx = MemoryStorage_get_compacted_idx,
      set_snapshot = MemoryStorage_set_snapshot,
      get_snapshot = MemoryStorage_get_snapshot\<rparr>"

lemmas MemoryStorage_defs =
  MemoryStorage_append_entry_def MemoryStorage_append_entries_def
  MemoryStorage_append_on_prefix_def MemoryStorage_set_promise_def
  MemoryStorage_set_decided_idx_def MemoryStorage_get_decided_idx_def
  MemoryStorage_set_accepted_round_def MemoryStorage_get_accepted_round_def
  MemoryStorage_get_entries_def MemoryStorage_get_log_len_def MemoryStorage_get_suffix_def
  MemoryStorage_get_promise_def MemoryStorage_set_stopsign_def MemoryStorage_get_stopsign_def
  MemoryStorage_trim_def MemoryStorage_set_compacted_idx_def MemoryStorage_get_compacted_idx_def
  MemoryStorage_set_snapshot_def MemoryStorage_get_snapshot_def

section \<open>It is a storage\<close>

definition ms_view :: "('t, 'n) MemoryStorage \<Rightarrow> ('t, 'n) StoreView" where
  "ms_view s =
     \<lparr>v_offset = ms_trimmed_idx s, v_log = ms_log s, v_promise = ms_n_prom s,
      v_acc_round = ms_acc_round s, v_decided = ms_ld s, v_compacted = ms_compacted_idx s,
      v_snapshot = ms_snapshot s, v_stopsign = ms_stopsign s\<rparr>"

definition ms_invar :: "('t, 'n) MemoryStorage \<Rightarrow> bool" where
  "ms_invar s \<longleftrightarrow> ms_trimmed_idx s + length (ms_log s) < usize_limit"

lemma ms_view_sel [simp]:
  "v_offset (ms_view s) = ms_trimmed_idx s" "v_log (ms_view s) = ms_log s"
  "v_promise (ms_view s) = ms_n_prom s" "v_acc_round (ms_view s) = ms_acc_round s"
  "v_decided (ms_view s) = ms_ld s" "v_compacted (ms_view s) = ms_compacted_idx s"
  "v_snapshot (ms_view s) = ms_snapshot s" "v_stopsign (ms_view s) = ms_stopsign s"
  by (simp_all add: ms_view_def)

lemma write_op_refines:
  assumes "ms_invar s" and "view_op_ok x (ms_view s)"
  shows "\<exists>s'. MemoryStorage_write_op s x = (s', Inr ()) \<and> ms_invar s' \<and>
              ms_view s' = view_op x (ms_view s)"
  using assms
  by (cases x) (auto simp: MemoryStorage_defs ms_invar_def ms_view_def usize_sub_exact Let_def)

lemma write_atomically_refines:
  assumes "ms_invar s" and "view_ops_legal xs (ms_view s)"
  shows "\<exists>s'. MemoryStorage_write_atomically s xs = (s', Inr ()) \<and> ms_invar s' \<and>
              ms_view s' = view_ops xs (ms_view s)"
  using assms
proof (induction xs arbitrary: s)
  case Nil
  then show ?case by simp
next
  case (Cons x xs)
  then obtain s1 where s1: "MemoryStorage_write_op s x = (s1, Inr ())" "ms_invar s1"
    "ms_view s1 = view_op x (ms_view s)"
    using write_op_refines by fastforce
  with Cons.IH [of s1] Cons.prems show ?case by simp
qed

lemma get_entries_refines:
  assumes "ms_invar s" "ms_trimmed_idx s \<le> i" "ms_trimmed_idx s \<le> j" "i < usize_limit" "j < usize_limit"
  shows "MemoryStorage_get_entries s i j = Inr (view_entries (ms_view s) i j)"
proof (cases "i \<le> j \<and> j \<le> ms_trimmed_idx s + length (ms_log s)")
  case True
  then have "j - ms_trimmed_idx s - (i - ms_trimmed_idx s) = j - i"
    using assms by arith
  with True assms show ?thesis
    by (auto simp: MemoryStorage_get_entries_def usize_sub_exact vec_range_def view_entries_def Let_def)
next
  case False
  then have "\<not> (i - ms_trimmed_idx s \<le> j - ms_trimmed_idx s \<and> j - ms_trimmed_idx s \<le> length (ms_log s))"
    using assms by arith
  with False assms show ?thesis
    by (auto simp: MemoryStorage_get_entries_def usize_sub_exact vec_range_def view_entries_def Let_def)
qed

interpretation mem: log_storage "MemoryStorage_impl hash finish" ms_view ms_invar
  for hash :: "'t \<Rightarrow> HashToken list" and finish
proof (unfold_locales, goal_cases)
  case 2
  then show ?case by (simp add: MemoryStorage_impl_def write_atomically_refines view_ops_ok_def)
next
  case (14 s i j)
  then show ?case by (simp add: MemoryStorage_impl_def get_entries_refines)
next
  case (15 s i)
  then show ?case
    by (auto simp: MemoryStorage_impl_def MemoryStorage_get_suffix_def vec_from_def view_entries_def
        ms_invar_def usize_sub_exact)
qed (auto simp: MemoryStorage_impl_def MemoryStorage_defs ms_invar_def ms_view_def)

lemma ms_default_invar [simp]: "ms_invar MemoryStorage_default"
  by (simp add: ms_invar_def MemoryStorage_default_def)

text \<open>
  C14. Every batch of storage writes that is legal for the current log is carried out
  completely and in order by \<open>write_atomically\<close>: it reports success and leaves exactly the
  abstract state obtained by applying the operations one after the other.
\<close>

theorem memory_write_atomically_refines:
  assumes "ms_invar s" and "view_ops_legal ops (ms_view s)"
  shows "\<exists>s'. MemoryStorage_write_atomically s ops = (s', Inr ()) \<and> ms_invar s' \<and>
              ms_view s' = view_ops ops (ms_view s)"
  using assms by (rule write_atomically_refines)

theorem memory_write_atomically_refines_witness:
  "\<exists>s'. MemoryStorage_write_atomically
          (MemoryStorage_default :: (nat, NoSnapshot) MemoryStorage)
          [AppendEntries [1, 2, 3], AppendOnPrefix 2 [7], Trim 1, SetDecidedIndex 2] = (s', Inr ()) \<and>
        ms_invar s' \<and> v_log (ms_view s') = [2, 7] \<and> v_offset (ms_view s') = 1"
proof -
  let ?ops = "[AppendEntries [1, 2, 3], AppendOnPrefix 2 [7], Trim 1, SetDecidedIndex 2]"
  let ?s = "MemoryStorage_default :: (nat, NoSnapshot) MemoryStorage"
  have ok: "view_ops_legal ?ops (ms_view ?s)"
    by (simp add: MemoryStorage_default_def)
  show ?thesis
    using memory_write_atomically_refines [OF ms_default_invar ok]
    by (auto simp: MemoryStorage_default_def ms_view_def)
qed

end
