(* ===== verification/Internal_Storage_Laws.thy ===== *)
theory Internal_Storage_Laws
  imports Internal_Storage Memory_Storage
begin

text \<open>
  Facts about \<open>Internal_Storage\<close> over any lawful backend (in the locale \<open>log_storage\<close>), and
  their instances for the server's \<open>MemoryStorage\<close>: the cache stays coherent with the backend
  under every operation, reads return exactly the requested part of the log with the right
  decided marks, and compaction removes only what it may.
\<close>

definition stop_len :: "StopSign option \<Rightarrow> nat" where
  "stop_len ss = (if ss = None then 0 else 1)"

lemma stop_len_simps [simp]: "stop_len None = 0" "stop_len (Some ss) = 1"
  by (simp_all add: stop_len_def)

text \<open>The cache agrees with the backend, and all entries below the compacted index are gone.\<close>

definition coherent ::
  "('s \<Rightarrow> ('t, 'n) StoreView) \<Rightarrow> ('s \<Rightarrow> bool) \<Rightarrow> ('s, 't) InternalStorage \<Rightarrow> bool" where
  "coherent view invar i \<longleftrightarrow>
     invar (storage i) \<and>
     promise (state_cache i) = unwrap_or (v_promise (view (storage i))) Ballot_default \<and>
     accepted_round (state_cache i) = unwrap_or (v_acc_round (view (storage i))) Ballot_default \<and>
     decided_idx (state_cache i) = v_decided (view (storage i)) \<and>
     compacted_idx (state_cache i) = v_compacted (view (storage i)) \<and>
     v_compacted (view (storage i)) = v_offset (view (storage i)) \<and>
     stopsign (state_cache i) = v_stopsign (view (storage i)) \<and>
     accepted_idx (state_cache i) = v_end (view (storage i)) + stop_len (v_stopsign (view (storage i))) \<and>
     accepted_idx (state_cache i) < usize_limit"

text \<open>What a reader sees at an index at or after the compacted one.\<close>

definition log_entry_at :: "('t, 'n) StoreView \<Rightarrow> nat \<Rightarrow> 't LogEntry" where
  "log_entry_at v k =
     (if k < v_end v
      then (if k < v_decided v then Decided (v_log v ! (k - v_offset v))
            else Undecided (v_log v ! (k - v_offset v)))
      else StopSignEntry (the (v_stopsign v))
             (v_decided v = v_end v + stop_len (v_stopsign v)))"

lemma map_log_entry_range:
  assumes "v_offset v \<le> i" and "i \<le> j" and "j \<le> v_end v" and "v_end v < usize_limit"
  shows "map (\<lambda>(idx, e). if usize_add idx i < v_decided v then Decided e else Undecided e)
           (enumerate 0 (view_entries v i j)) = map (log_entry_at v) [i..<j]"
proof (rule nth_equalityI)
  show "length (map (\<lambda>(idx, e). if usize_add idx i < v_decided v then Decided e else Undecided e)
           (enumerate 0 (view_entries v i j))) = length (map (log_entry_at v) [i..<j])"
    using assms by (simp add: view_entries_def)
next
  fix k
  assume "k < length (map (\<lambda>(idx, e). if usize_add idx i < v_decided v then Decided e else Undecided e)
           (enumerate 0 (view_entries v i j)))"
  then have k: "k < j - i"
    using assms by (simp add: view_entries_def)
  then have "usize_add k i = i + k"
    using assms by (simp add: usize_add_exact add.commute)
  moreover have "view_entries v i j ! k = v_log v ! (i + k - v_offset v)"
    using assms k by (simp add: view_entries_def)
  ultimately show "map (\<lambda>(idx, e). if usize_add idx i < v_decided v then Decided e else Undecided e)
           (enumerate 0 (view_entries v i j)) ! k = map (log_entry_at v) [i..<j] ! k"
    using k assms by (simp add: nth_enumerate_eq log_entry_at_def view_entries_def)
qed

text \<open>The view after synchronising with a leader that sent no delta snapshot.\<close>

definition synced_view ::
  "('t, 'n) LogSync \<Rightarrow> Ballot \<Rightarrow> nat \<Rightarrow> ('t, 'n) StoreView \<Rightarrow> ('t, 'n) StoreView" where
  "synced_view sync b decided v =
     (let v = v\<lparr>v_acc_round := Some b, v_decided := decided, v_stopsign := sync_stopsign sync\<rparr>
      in case decided_snapshot sync of
           Some (Complete c) \<Rightarrow> v\<lparr>v_log := sync_suffix sync, v_offset := sync_idx sync,
             v_compacted := sync_idx sync, v_snapshot := Some c\<rparr>
         | _ \<Rightarrow> v\<lparr>v_log := take (sync_idx sync - v_offset v) (v_log v) @ sync_suffix sync\<rparr>)"

context log_storage
begin

abbreviation coh :: "('s, 't) InternalStorage \<Rightarrow> bool" where
  "coh \<equiv> coherent view invar"

abbreviation iview :: "('s, 't) InternalStorage \<Rightarrow> ('t, 'n) StoreView" where
  "iview i \<equiv> view (storage i)"

lemma with_coherent:
  assumes "invar st" and "v_compacted (view st) = v_offset (view st)"
    and "v_end (view st) + stop_len (v_stopsign (view st)) < usize_limit"
  shows "\<exists>i. InternalStorage_with S st config = Inr i \<and> coh i \<and> storage i = st \<and>
             batched_entries (state_cache i) = [] \<and>
             batch_size (state_cache i) = isc_batch_size config"
  using assms
  by (auto simp: InternalStorage_with_def load_cache_def getter_laws coherent_def StateCache_new_def
      Let_def usize_add_exact add.commute)

lemma append_without_batching:
  assumes "coh i" and "accepted_idx (state_cache i) + length es < usize_limit"
  shows "\<exists>i'. append_entries_without_batching S i es =
                (i', Inr (accepted_idx (state_cache i) + length es)) \<and> coh i' \<and>
              iview i' = (iview i)\<lparr>v_log := v_log (iview i) @ es\<rparr> \<and>
              state_cache i' = (state_cache i)\<lparr>accepted_idx := accepted_idx (state_cache i) + length es\<rparr>"
proof -
  have inv: "invar (storage i)" and ok: "view_op_ok (AppendEntries es) (iview i)"
    using assms by (auto simp: coherent_def)
  obtain st where "append_entries S (storage i) es = (st, Inr ())" "invar st"
    "view st = (iview i)\<lparr>v_log := v_log (iview i) @ es\<rparr>"
    using append_entries_law [OF inv ok] by auto
  with assms show ?thesis
    by (auto simp: append_entries_without_batching_def Let_def usize_add_exact coherent_def)
qed

lemma append_and_get_accepted:
  assumes "coh i"
    and "accepted_idx (state_cache i) + length (batched_entries (state_cache i)) + length es < usize_limit"
  shows "\<exists>i'. append_entries_and_get_accepted_idx S i es = (i', Inr
                (if batch_size (state_cache i) \<le> length (batched_entries (state_cache i)) + length es
                 then Some (accepted_idx (state_cache i) +
                            length (batched_entries (state_cache i)) + length es) else None)) \<and>
              coh i' \<and> batch_size (state_cache i') = batch_size (state_cache i) \<and>
              iview i' = (iview i)\<lparr>v_log := v_log (iview i')\<rparr> \<and>
              v_log (iview i') @ batched_entries (state_cache i') =
                v_log (iview i) @ batched_entries (state_cache i) @ es \<and>
              (batch_size (state_cache i) \<le> length (batched_entries (state_cache i)) + length es \<longrightarrow>
                 batched_entries (state_cache i') = [])"
proof (cases "batch_size (state_cache i) \<le> length (batched_entries (state_cache i)) + length es")
  case True
  let ?all = "batched_entries (state_cache i) @ es"
  let ?i = "i\<lparr>state_cache := (state_cache i)\<lparr>batched_entries := []\<rparr>\<rparr>"
  have "coh ?i" and "accepted_idx (state_cache ?i) + length ?all < usize_limit"
    using assms by (auto simp: coherent_def)
  then obtain i' where "append_entries_without_batching S ?i ?all =
      (i', Inr (accepted_idx (state_cache ?i) + length ?all))" "coh i'"
    "iview i' = (iview ?i)\<lparr>v_log := v_log (iview ?i) @ ?all\<rparr>"
    "state_cache i' = (state_cache ?i)\<lparr>accepted_idx := accepted_idx (state_cache ?i) + length ?all\<rparr>"
    using append_without_batching by blast
  with True show ?thesis
    by (auto simp: append_entries_and_get_accepted_idx_def StateCache_append_entries_def
        take_entries_if_batch_is_full_def take_batched_entries_def Let_def add.assoc)
next
  case False
  with assms show ?thesis
    by (auto simp: append_entries_and_get_accepted_idx_def StateCache_append_entries_def
        take_entries_if_batch_is_full_def take_batched_entries_def Let_def coherent_def)
qed

lemma flush_batch_law:
  assumes "coh i"
    and "accepted_idx (state_cache i) + length (batched_entries (state_cache i)) < usize_limit"
  shows "\<exists>i'. flush_batch S i =
                (i', Inr (accepted_idx (state_cache i) + length (batched_entries (state_cache i)))) \<and>
              coh i' \<and> batched_entries (state_cache i') = [] \<and>
              iview i' = (iview i)\<lparr>v_log := v_log (iview i) @ batched_entries (state_cache i)\<rparr>"
proof -
  let ?i = "i\<lparr>state_cache := (state_cache i)\<lparr>batched_entries := []\<rparr>\<rparr>"
  have "coh ?i" and "accepted_idx (state_cache ?i) + length (batched_entries (state_cache i)) < usize_limit"
    using assms by (auto simp: coherent_def)
  then obtain i' where "append_entries_without_batching S ?i (batched_entries (state_cache i)) =
      (i', Inr (accepted_idx (state_cache ?i) + length (batched_entries (state_cache i))))" "coh i'"
    "iview i' = (iview ?i)\<lparr>v_log := v_log (iview ?i) @ batched_entries (state_cache i)\<rparr>"
    "state_cache i' = (state_cache ?i)\<lparr>accepted_idx := accepted_idx (state_cache ?i) +
       length (batched_entries (state_cache i))\<rparr>"
    using append_without_batching by blast
  then show ?thesis by (auto simp: flush_batch_def take_batched_entries_def)
qed

lemma set_promise_coherent:
  assumes "coh i"
  shows "\<exists>i'. InternalStorage_set_promise S i b = (i', Inr ()) \<and> coh i' \<and>
              state_cache i' = (state_cache i)\<lparr>promise := b\<rparr> \<and>
              iview i' = (iview i)\<lparr>v_promise := Some b\<rparr>"
  using assms set_promise_law [of "storage i" b]
  by (auto simp: InternalStorage_set_promise_def coherent_def)

lemma set_decided_idx_coherent:
  assumes "coh i" and "k < usize_limit"
  shows "\<exists>i'. InternalStorage_set_decided_idx S i k = (i', Inr ()) \<and> coh i' \<and>
              state_cache i' = (state_cache i)\<lparr>decided_idx := k\<rparr> \<and>
              iview i' = (iview i)\<lparr>v_decided := k\<rparr>"
  using assms set_decided_idx_law [of "storage i" k]
  by (auto simp: InternalStorage_set_decided_idx_def coherent_def)

lemma set_stopsign_coherent:
  assumes "coh i" and "v_end (iview i) + 1 < usize_limit"
  shows "\<exists>i'. InternalStorage_set_stopsign S i ss = (i', Inr (v_end (iview i) + stop_len ss)) \<and>
              coh i' \<and> iview i' = (iview i)\<lparr>v_stopsign := ss\<rparr>"
proof -
  have "invar (storage i)" using assms by (simp add: coherent_def)
  from set_stopsign_law [OF this, of ss] show ?thesis
    using assms
    by (cases ss; cases "v_stopsign (iview i)")
      (auto simp: InternalStorage_set_stopsign_def coherent_def usize_add_exact usize_sub_exact Let_def)
qed

lemma create_read_log_entries_eq:
  assumes "coh i" and "v_offset (iview i) \<le> a" and "a \<le> b" and "b \<le> v_end (iview i)"
  shows "create_read_log_entries S i a b = Inr (map (log_entry_at (iview i)) [a..<b])"
proof -
  have bound: "v_end (iview i) < usize_limit" and inv: "invar (storage i)"
    using assms view_bound by (auto simp: coherent_def)
  then have "get_entries S (storage i) a b = Inr (view_entries (iview i) a b)"
    using assms get_entries_law by simp
  then show ?thesis
    using map_log_entry_range [OF assms(2-4) bound] assms(1)
    by (simp add: create_read_log_entries_def coherent_def)
qed

lemma entry_type:
  assumes "coh i" and "k < usize_limit - 1"
  shows "get_entry_type i k (compacted_idx (state_cache i)) (accepted_idx (state_cache i)) = Inr (
    if k < v_offset (iview i) then Some Compacted
    else if k < v_end (iview i) then Some Entry
    else if k = v_end (iview i) then map_option StopSignIdx (v_stopsign (iview i))
    else None)"
  using assms
  by (cases "v_stopsign (iview i)") (auto simp: get_entry_type_def coherent_def usize_add_exact)

lemma stopsign_decided:
  "coh i \<Longrightarrow> stopsign_is_decided i \<longleftrightarrow> v_stopsign (iview i) \<noteq> None \<and>
     v_decided (iview i) = v_end (iview i) + stop_len (v_stopsign (iview i))"
  by (auto simp: stopsign_is_decided_def StateCache_stopsign_is_decided_def coherent_def)

text \<open>A range inside the retained log (and its stop sign) is returned entry by entry.\<close>

lemma read_in_bounds:
  assumes "coh i" and "v_offset (iview i) \<le> a" and "a < b"
    and "b \<le> v_end (iview i) + stop_len (v_stopsign (iview i))"
  shows "InternalStorage_read S i (Included a) (Excluded b) =
           Inr (Some (map (log_entry_at (iview i)) [a..<b]))"
proof -
  have acc: "accepted_idx (state_cache i) = v_end (iview i) + stop_len (v_stopsign (iview i))"
    and lim: "accepted_idx (state_cache i) < usize_limit"
    using assms(1) by (auto simp: coherent_def)
  have b: "usize_sub b 1 = b - 1" and b0: "b \<noteq> 0"
    using assms acc lim by (auto simp: usize_sub_exact)
  have a_lt: "a < usize_limit - 1" and b_lt: "b - 1 < usize_limit - 1"
    using assms acc lim by auto
  have at_end: "log_entry_at (iview i) (v_end (iview i)) =
      StopSignEntry (the (v_stopsign (iview i))) (v_decided (iview i) =
        v_end (iview i) + stop_len (v_stopsign (iview i)))"
    by (simp add: log_entry_at_def)
  consider (entries) "b \<le> v_end (iview i)"
    | (mixed) ss where "v_stopsign (iview i) = Some ss" "b = v_end (iview i) + 1" "a < v_end (iview i)"
    | (stop) ss where "v_stopsign (iview i) = Some ss" "b = v_end (iview i) + 1" "a = v_end (iview i)"
    using assms(3,4) by (cases "v_stopsign (iview i)") (auto simp: less_Suc_eq_le le_less)
  then show ?thesis
  proof cases
    case entries
    then have "b - 1 < v_end (iview i)" "a < v_end (iview i)" "v_offset (iview i) \<le> b - 1"
      using assms by auto
    with entries assms b b0 a_lt b_lt show ?thesis
      by (simp add: InternalStorage_read_def Let_def entry_type create_read_log_entries_eq)
  next
    case mixed
    then have "[a..<b] = [a..<v_end (iview i)] @ [v_end (iview i)]"
      using upt_Suc_append [of a "v_end (iview i)"] by simp
    with mixed assms b b0 a_lt b_lt at_end show ?thesis
      by (simp add: InternalStorage_read_def Let_def entry_type create_read_log_entries_eq
          stopsign_decided)
  next
    case stop
    with assms b b0 a_lt b_lt at_end show ?thesis
      by (simp add: InternalStorage_read_def Let_def entry_type stopsign_decided)
  qed
qed

text \<open>A range that reaches past the accepted log is no error: the answer is \<open>None\<close>.\<close>

lemma read_out_of_bounds:
  assumes "coh i" and "b < usize_limit" and "v_end (iview i) + stop_len (v_stopsign (iview i)) < b"
  shows "InternalStorage_read S i (Included a) (Excluded b) = Inr None"
proof -
  have "usize_sub b 1 = b - 1" "b - 1 < usize_limit - 1" "b \<noteq> 0"
    using assms by (auto simp: usize_sub_exact)
  moreover have "\<not> b - 1 < v_offset (iview i)" "\<not> b - 1 < v_end (iview i)"
    "b - 1 = v_end (iview i) \<Longrightarrow> v_stopsign (iview i) = None"
    using assms by (auto simp: stop_len_def split: if_splits)
  ultimately show ?thesis
    using assms(1) by (auto simp: InternalStorage_read_def Let_def entry_type)
qed

text \<open>Reading a compacted entry is not implemented: the call panics.\<close>

lemma read_compacted_panics:
  assumes "coh i" and "a < v_offset (iview i)" and "a < b"
    and "b \<le> v_end (iview i) + stop_len (v_stopsign (iview i))"
  shows "\<exists>m. InternalStorage_read S i (Included a) (Excluded b) = Inl (Panic m)"
proof -
  have lim: "v_end (iview i) + stop_len (v_stopsign (iview i)) < usize_limit"
    using assms(1) by (auto simp: coherent_def)
  then have "usize_sub b 1 = b - 1" "b - 1 < usize_limit - 1" "b \<noteq> 0" "a < usize_limit - 1"
    using assms by (auto simp: usize_sub_exact)
  moreover have "b - 1 = v_end (iview i) \<Longrightarrow> \<exists>ss. v_stopsign (iview i) = Some ss"
    "b - 1 \<le> v_end (iview i)"
    using assms by (auto simp: stop_len_def split: if_splits)
  ultimately show ?thesis
    using assms(1,2) by (auto simp: InternalStorage_read_def Let_def entry_type)
qed

lemma read_decided_suffix_law:
  assumes "coh i" and "v_offset (iview i) \<le> a" and "a < v_decided (iview i)"
    and "v_decided (iview i) \<le> v_end (iview i)"
  shows "InternalStorage_read_decided_suffix S i a =
           Inr (Some (map (\<lambda>k. Decided (v_log (iview i) ! (k - v_offset (iview i))))
                        [a..<v_decided (iview i)]))"
proof -
  have "InternalStorage_read S i (Included a) (Excluded (v_decided (iview i))) =
      Inr (Some (map (log_entry_at (iview i)) [a..<v_decided (iview i)]))"
    using assms by (intro read_in_bounds) auto
  moreover have "map (log_entry_at (iview i)) [a..<v_decided (iview i)] =
      map (\<lambda>k. Decided (v_log (iview i) ! (k - v_offset (iview i)))) [a..<v_decided (iview i)]"
    using assms(4) by (auto simp: log_entry_at_def)
  moreover have "decided_idx (state_cache i) = v_decided (iview i)"
    using assms(1) by (simp add: coherent_def)
  ultimately show ?thesis
    using assms(3) by (simp add: InternalStorage_read_decided_suffix_def)
qed

lemma decided_without_stopsign:
  assumes "coh i" and "v_decided (iview i) \<le> v_end (iview i) + stop_len (v_stopsign (iview i))"
  shows "get_decided_idx_without_stopsign i = min (v_decided (iview i)) (v_end (iview i))"
proof -
  have "v_decided (iview i) < usize_limit" "decided_idx (state_cache i) = v_decided (iview i)"
    using assms by (auto simp: coherent_def)
  with assms show ?thesis
    by (cases "v_stopsign (iview i)")
      (auto simp: get_decided_idx_without_stopsign_def stopsign_decided usize_sub_exact)
qed

lemma write_compaction:
  assumes "coh i" and "v_offset (iview i) \<le> n" and "n \<le> v_end (iview i)"
    and "snap = [] \<or> (\<exists>s. snap = [SetSnapshot s])"
  shows "\<exists>st. write_atomically S (storage i) ([Trim n, SetCompactedIdx n] @ snap) = (st, Inr ()) \<and>
      invar st \<and> view st = view_ops snap ((iview i)\<lparr>v_log := drop (n - v_offset (iview i)) (v_log (iview i)),
        v_offset := n, v_compacted := n\<rparr>)"
proof -
  have "invar (storage i)" using assms by (simp add: coherent_def)
  moreover have "view_ops_ok ([Trim n, SetCompactedIdx n] @ snap) (iview i)"
    using assms by (auto simp: coherent_def view_ops_ok_def)
  ultimately show ?thesis using write_atomically_law by fastforce
qed

text \<open>
  Trimming fails past the decided index and otherwise drops exactly the entries below the
  requested index (below the stop sign, when the whole log is decided).
\<close>

lemma try_trim_undecided:
  "coh i \<Longrightarrow> v_decided (iview i) < idx \<Longrightarrow>
   try_trim S i idx = (i, Inl (Err (CompactionError (UndecidedIndex (v_decided (iview i))))))"
  by (simp add: try_trim_def coherent_def)

lemma try_trim_law:
  assumes "coh i" and "v_decided (iview i) \<le> v_end (iview i) + stop_len (v_stopsign (iview i))"
    and "idx \<le> v_decided (iview i)"
    and "n = max (v_offset (iview i)) (min idx (v_end (iview i)))"
  shows "\<exists>i'. try_trim S i idx = (i', Inr ()) \<and> coh i' \<and>
      iview i' = (iview i)\<lparr>v_log := drop (n - v_offset (iview i)) (v_log (iview i)),
        v_offset := n, v_compacted := n\<rparr>"
proof -
  let ?m = "if idx < v_decided (iview i) then idx else get_decided_idx_without_stopsign i"
  have m: "?m = min idx (v_end (iview i))"
    using assms(2,3) decided_without_stopsign [OF assms(1,2)]
    by (auto simp: stop_len_def split: if_splits)
  have c: "decided_idx (state_cache i) = v_decided (iview i)"
    "compacted_idx (state_cache i) = v_offset (iview i)" "v_compacted (iview i) = v_offset (iview i)"
    using assms(1) by (auto simp: coherent_def)
  show ?thesis
  proof (cases "v_offset (iview i) < ?m")
    case True
    then have n: "n = ?m" using assms(4) m by simp
    obtain st where "write_atomically S (storage i) [Trim n, SetCompactedIdx n] = (st, Inr ())"
      "invar st" "view st = (iview i)\<lparr>v_log := drop (n - v_offset (iview i)) (v_log (iview i)),
        v_offset := n, v_compacted := n\<rparr>"
      using write_compaction [OF assms(1), of n "[]"] True n m assms(4) by auto
    with True n c assms(1,3) m show ?thesis
      by (auto simp: try_trim_def Let_def coherent_def)
  next
    case False
    then have "min idx (v_end (iview i)) \<le> v_offset (iview i)"
      unfolding m by (simp only: not_less)
    then have "n = v_offset (iview i)" unfolding assms(4) by (rule max_absorb1)
    with False c assms(1,3) show ?thesis
      by (auto simp: try_trim_def Let_def)
  qed
qed

text \<open>Synchronising with a leader's log, without a delta snapshot.\<close>

lemma sync_log_law:
  assumes "coh i" and "\<nexists>d. decided_snapshot sync = Some (Delta d)"
    and "v_offset (iview i) \<le> sync_idx sync"
    and "decided_snapshot sync = None \<Longrightarrow> sync_idx sync \<le> v_end (iview i)"
    and "sync_idx sync + length (sync_suffix sync) + stop_len (sync_stopsign sync) < usize_limit"
    and "decided < usize_limit"
  shows "\<exists>i'. sync_log S SN i b decided (Some sync) =
      (i', Inr (sync_idx sync + length (sync_suffix sync) + stop_len (sync_stopsign sync))) \<and>
      coh i' \<and> iview i' = synced_view sync b decided (iview i)"
proof (cases "decided_snapshot sync")
  case None
  let ?ops = "[SetAcceptedRound b, SetDecidedIndex decided, AppendOnPrefix (sync_idx sync) (sync_suffix sync)]
     @ (if sync_stopsign sync \<noteq> None \<or> v_stopsign (iview i) \<noteq> None then [SetStopsign (sync_stopsign sync)] else [])"
  have "invar (storage i)" "view_ops_ok ?ops (iview i)"
    using assms None by (auto simp: coherent_def view_ops_ok_def)
  then obtain st where st: "write_atomically S (storage i) ?ops = (st, Inr ())" "invar st"
    "view st = view_ops ?ops (iview i)"
    using write_atomically_law by blast
  have "view st = synced_view sync b decided (iview i)"
    using st(3) None by (cases "sync_stopsign sync"; cases "v_stopsign (iview i)")
      (auto simp: synced_view_def Let_def)
  with st None assms show ?thesis
    by (cases "sync_stopsign sync"; cases "v_stopsign (iview i)")
      (auto simp: sync_log_def sync_snapshot_ops_def sync_suffix_ops_def Let_def coherent_def
        usize_add_exact synced_view_def)
next
  case (Some sn)
  then obtain c where c: "decided_snapshot sync = Some (Complete c)"
    using assms(2) by (cases sn) auto
  let ?ops = "[SetAcceptedRound b, SetDecidedIndex decided, Trim (sync_idx sync),
      SetCompactedIdx (sync_idx sync), SetSnapshot (Some c),
      AppendOnPrefix (sync_idx sync) (sync_suffix sync)]
     @ (if sync_stopsign sync \<noteq> None \<or> v_stopsign (iview i) \<noteq> None then [SetStopsign (sync_stopsign sync)] else [])"
  have "invar (storage i)" "view_ops_ok ?ops (iview i)"
    using assms by (auto simp: coherent_def view_ops_ok_def)
  then obtain st where st: "write_atomically S (storage i) ?ops = (st, Inr ())" "invar st"
    "view st = view_ops ?ops (iview i)"
    using write_atomically_law by blast
  have "view st = synced_view sync b decided (iview i)"
    using st(3) c by (cases "sync_stopsign sync"; cases "v_stopsign (iview i)")
      (auto simp: synced_view_def Let_def)
  with st c assms show ?thesis
    by (cases "sync_stopsign sync"; cases "v_stopsign (iview i)")
      (auto simp: sync_log_def sync_snapshot_ops_def sync_suffix_ops_def Let_def coherent_def
        usize_add_exact synced_view_def)
qed

end

section \<open>The server's log\<close>

text \<open>A concrete coherent storage: three entries, the first trimmed away, two decided.\<close>

definition example_storage :: "((nat, NoSnapshot) MemoryStorage, nat) InternalStorage" where
  "example_storage =
     \<lparr>storage = MemoryStorage_default\<lparr>ms_log := [20, 30], ms_trimmed_idx := 1, ms_compacted_idx := 1,
        ms_ld := 2\<rparr>,
      state_cache = (StateCache_new \<lparr>isc_batch_size = 1\<rparr>)\<lparr>accepted_idx := 3, decided_idx := 2,
        compacted_idx := 1\<rparr>\<rparr>"

lemmas example_storage_defs = example_storage_def MemoryStorage_default_def StateCache_new_def

lemma example_storage_coherent: "coherent ms_view ms_invar example_storage"
  by (simp add: example_storage_defs coherent_def ms_invar_def)

text \<open>
  C13. Reading a range of the log that starts at or after the compacted index and ends within
  the accepted log returns exactly the entries of that range in order, each marked decided or
  undecided by its absolute index, with the stop sign as the last entry of a stopped log.
\<close>

theorem memory_read_exact:
  assumes "coherent ms_view ms_invar i" and "compacted_idx (state_cache i) \<le> a" and "a < b"
    and "b \<le> accepted_idx (state_cache i)"
  shows "InternalStorage_read (MemoryStorage_impl hash finish) i (Included a) (Excluded b) =
           Inr (Some (map (log_entry_at (ms_view (storage i))) [a..<b]))"
  using assms by (intro mem.read_in_bounds) (auto simp: coherent_def)

theorem memory_read_exact_witness:
  "InternalStorage_read (MemoryStorage_impl (\<lambda>_. []) (\<lambda>_. 0)) example_storage (Included 1) (Excluded 3) =
     Inr (Some [Decided 20, Undecided 30])"
proof -
  have bounds: "compacted_idx (state_cache example_storage) \<le> 1" "(1::nat) < 3"
    "3 \<le> accepted_idx (state_cache example_storage)"
    by (simp_all add: example_storage_defs)
  have upt: "[1..<3] = [1, 2 :: nat]" by (simp add: upt_rec)
  have "map (log_entry_at (ms_view (storage example_storage))) [1..<3] = [Decided 20, Undecided 30]"
    unfolding upt by (simp add: log_entry_at_def example_storage_defs)
  then show ?thesis
    by (simp only: memory_read_exact [OF example_storage_coherent bounds])
qed

text \<open>
  C21. Trimming at a decided index succeeds and keeps the cache coherent; every range of the
  log that starts at or after the index trimmed to reads the same before and after.
\<close>

theorem memory_trim_preserves_reads:
  assumes "coherent ms_view ms_invar i" and "decided_idx (state_cache i) \<le> accepted_idx (state_cache i)"
    and "idx \<le> decided_idx (state_cache i)"
    and "max (compacted_idx (state_cache i)) idx \<le> a" and "a < b" and "b \<le> accepted_idx (state_cache i)"
  shows "\<exists>i'. try_trim (MemoryStorage_impl hash finish) i idx = (i', Inr ()) \<and>
      coherent ms_view ms_invar i' \<and>
      InternalStorage_read (MemoryStorage_impl hash finish) i' (Included a) (Excluded b) =
      InternalStorage_read (MemoryStorage_impl hash finish) i (Included a) (Excluded b)"
proof -
  let ?v = "ms_view (storage i)"
  let ?n = "max (v_offset ?v) (min idx (v_end ?v))"
  have c: "accepted_idx (state_cache i) = v_end ?v + stop_len (v_stopsign ?v)"
    "compacted_idx (state_cache i) = v_offset ?v" "decided_idx (state_cache i) = v_decided ?v"
    using assms(1) by (auto simp: coherent_def)
  have "v_decided ?v \<le> v_end ?v + stop_len (v_stopsign ?v)" "idx \<le> v_decided ?v"
    using assms(2,3) c by auto
  then obtain i' where i': "try_trim (MemoryStorage_impl hash finish) i idx = (i', Inr ())"
    "coherent ms_view ms_invar i'"
    "ms_view (storage i') = ?v\<lparr>v_log := drop (?n - v_offset ?v) (v_log ?v), v_offset := ?n, v_compacted := ?n\<rparr>"
    using mem.try_trim_law [OF assms(1) _ _ refl] by blast
  have n: "?n \<le> v_end ?v" "?n \<le> a" "v_offset ?v \<le> ?n"
    using assms(4) c by auto
  have same_end: "v_end (ms_view (storage i')) = v_end ?v"
    unfolding i'(3) using n by simp
  have same: "log_entry_at (ms_view (storage i')) k = log_entry_at ?v k" if "a \<le> k" for k
  proof -
    have "?n - v_offset ?v + (k - ?n) = k - v_offset ?v"
      using n that by arith
    then show ?thesis
      using n that same_end unfolding i'(3) by (auto simp: log_entry_at_def)
  qed
  have "compacted_idx (state_cache i') = ?n" "accepted_idx (state_cache i') = accepted_idx (state_cache i)"
    using i'(2,3) same_end c(1) by (auto simp: coherent_def)
  then have "InternalStorage_read (MemoryStorage_impl hash finish) i' (Included a) (Excluded b) =
      Inr (Some (map (log_entry_at (ms_view (storage i'))) [a..<b]))"
    using i'(2) assms(5,6) n by (intro mem.read_in_bounds) (auto simp: coherent_def)
  also have "map (log_entry_at (ms_view (storage i'))) [a..<b] = map (log_entry_at ?v) [a..<b]"
    using same by simp
  also have "Inr (Some (map (log_entry_at ?v) [a..<b])) =
      InternalStorage_read (MemoryStorage_impl hash finish) i (Included a) (Excluded b)"
    using assms c by (intro mem.read_in_bounds [symmetric]) auto
  finally show ?thesis using i' by blast
qed

theorem memory_trim_preserves_reads_witness:
  "\<exists>i'. try_trim (MemoryStorage_impl (\<lambda>_. []) (\<lambda>_. 0)) example_storage 2 = (i', Inr ()) \<and>
      coherent ms_view ms_invar i' \<and>
      InternalStorage_read (MemoryStorage_impl (\<lambda>_. []) (\<lambda>_. 0)) i' (Included 2) (Excluded 3) =
      InternalStorage_read (MemoryStorage_impl (\<lambda>_. []) (\<lambda>_. 0)) example_storage (Included 2) (Excluded 3)"
  by (rule memory_trim_preserves_reads [OF example_storage_coherent]) (simp_all add: example_storage_defs)

text \<open>
  C8. Synchronising a follower with a leader's log suffix (or with a complete snapshot and a
  suffix) succeeds, returns the new accepted index and leaves exactly the leader's log from
  the synchronisation index on, its stop sign, decided index and accepted round, with the
  cache coherent.
\<close>

theorem memory_sync_log:
  assumes "coherent ms_view ms_invar i" and "\<nexists>d. decided_snapshot sync = Some (Delta d)"
    and "compacted_idx (state_cache i) \<le> sync_idx sync"
    and "decided_snapshot sync = None \<Longrightarrow> sync_idx sync \<le> v_end (ms_view (storage i))"
    and "sync_idx sync + length (sync_suffix sync) + stop_len (sync_stopsign sync) < usize_limit"
    and "decided < usize_limit"
  shows "\<exists>i'. sync_log (MemoryStorage_impl hash finish) SN i b decided (Some sync) =
      (i', Inr (sync_idx sync + length (sync_suffix sync) + stop_len (sync_stopsign sync))) \<and>
      coherent ms_view ms_invar i' \<and> ms_view (storage i') = synced_view sync b decided (ms_view (storage i))"
  using assms by (intro mem.sync_log_law) (auto simp: coherent_def)

theorem memory_sync_log_witness:
  "\<exists>i'. sync_log (MemoryStorage_impl (\<lambda>_. []) (\<lambda>_. 0)) NoSnapshot_impl example_storage Ballot_default 3
          (Some \<lparr>decided_snapshot = None, sync_suffix = [40, 50], sync_idx = 2, sync_stopsign = None\<rparr>) =
        (i', Inr 4) \<and> ms_log (storage i') = [20, 40, 50]"
proof -
  let ?sync = "\<lparr>decided_snapshot = None, sync_suffix = [40, 50 :: nat], sync_idx = 2, sync_stopsign = None\<rparr>
    :: (nat, NoSnapshot) LogSync"
  have h: "\<nexists>d. decided_snapshot ?sync = Some (Delta d)"
    "compacted_idx (state_cache example_storage) \<le> sync_idx ?sync"
    "decided_snapshot ?sync = None \<Longrightarrow> sync_idx ?sync \<le> v_end (ms_view (storage example_storage))"
    "sync_idx ?sync + length (sync_suffix ?sync) + stop_len (sync_stopsign ?sync) < usize_limit"
    "(3 :: nat) < usize_limit"
    by (simp_all add: example_storage_defs)
  obtain i' where i': "sync_log (MemoryStorage_impl (\<lambda>_. []) (\<lambda>_. 0)) NoSnapshot_impl example_storage
      Ballot_default 3 (Some ?sync) = (i', Inr 4)"
    "ms_view (storage i') = synced_view ?sync Ballot_default 3 (ms_view (storage example_storage))"
    using memory_sync_log [OF example_storage_coherent h, where SN = NoSnapshot_impl
        and b = Ballot_default and hash = "\<lambda>_. []" and finish = "\<lambda>_. 0"]
    by (auto simp: numeral_eq_Suc)
  have "ms_log (storage i') = [20, 40, 50]"
    using arg_cong [OF i'(2), of v_log] by (simp add: synced_view_def example_storage_defs)
  with i'(1) show ?thesis by blast
qed

end
