(* ===== verification/Log_Compaction.thy ===== *)
theory Log_Compaction
  imports Internal_Storage_Laws
begin

text \<open>
  Compaction of the log into snapshots, over any lawful backend and any lawful snapshot type
  (locale \<open>compaction\<close>), and the snapshot type of
  \<^verbatim>\<open>examples/kv_store/src/kv.rs\<close> with the interpretation on it.

  \<open>compacts H v\<close> relates the stored data to the history \<open>H\<close> of all entries ever appended:
  the retained log is the rest of \<open>H\<close> from the offset on, and the part before the offset is
  represented by the stored snapshot.
\<close>

locale compaction = log_storage S view invar + snapshots SN
  for S :: "('s, 't, 'n) Storage"
    and view :: "'s \<Rightarrow> ('t, 'n) StoreView"
    and invar :: "'s \<Rightarrow> bool"
    and SN :: "('t, 'n) Snapshot"
begin

definition compacts :: "'t list \<Rightarrow> ('t, 'n) StoreView \<Rightarrow> bool" where
  "compacts H v \<longleftrightarrow>
     v_offset v \<le> length H \<and> v_log v = drop (v_offset v) H \<and>
     (v_snapshot v = Some (snapshot_of (take (v_offset v) H)) \<or> v_snapshot v = None \<and> v_offset v = 0)"

lemma compacts_end: "compacts H v \<Longrightarrow> v_end v = length H"
  by (auto simp: compacts_def)

lemma compacts_entries:
  "compacts H v \<Longrightarrow> v_offset v \<le> j \<Longrightarrow> j \<le> length H \<Longrightarrow>
   take (v_offset v) H @ view_entries v (v_offset v) j = take j H"
  by (auto simp: compacts_def view_entries_def take_add [symmetric])

lemma create_snapshot_law:
  assumes "coh i" and "compacts H (iview i)" and "v_offset (iview i) \<le> n" and "n \<le> length H"
  shows "create_snapshot S SN i n = Inr (snapshot_of (take n H))"
proof -
  have inv: "invar (storage i)" and off: "compacted_idx (state_cache i) = v_offset (iview i)"
    and lim: "v_end (iview i) < usize_limit"
    using assms(1) view_bound by (auto simp: coherent_def)
  then have "get_entries S (storage i) (v_offset (iview i)) n =
      Inr (view_entries (iview i) (v_offset (iview i)) n)"
    using assms compacts_end [OF assms(2)] by (intro get_entries_law) auto
  moreover have "take (v_offset (iview i)) H @ view_entries (iview i) (v_offset (iview i)) n = take n H"
    using assms by (intro compacts_entries) auto
  ultimately show ?thesis
    using inv off assms(2,3) merge_snapshot_of
      [of "take (v_offset (iview i)) H" "view_entries (iview i) (v_offset (iview i)) n"]
    by (auto simp: create_snapshot_def Let_def create_snapshot_of get_snapshot_law compacts_def)
qed

text \<open>
  Snapshotting up to a decided index keeps the history represented: the entries below the
  new compacted index are in the snapshot, all others are still in the log.
\<close>

lemma try_snapshot_law:
  assumes "coh i" and "compacts H (iview i)"
    and "v_decided (iview i) \<le> length H + stop_len (v_stopsign (iview i))"
    and "idx = None \<or> (\<exists>k. idx = Some k \<and> k \<le> v_decided (iview i))"
    and "n = max (v_offset (iview i))
               (min (case idx of Some k \<Rightarrow> k | None \<Rightarrow> v_decided (iview i)) (length H))"
  shows "\<exists>i'. try_snapshot S SN i idx = (i', Inr ()) \<and> coh i' \<and> compacts H (iview i') \<and>
      v_offset (iview i') = n \<and> v_decided (iview i') = v_decided (iview i) \<and>
      v_stopsign (iview i') = v_stopsign (iview i)"
proof -
  have len: "v_end (iview i) = length H" using assms(2) by (rule compacts_end)
  let ?k = "case idx of Some k \<Rightarrow> k | None \<Rightarrow> v_decided (iview i)"
  have d: "get_decided_idx_without_stopsign i = min (v_decided (iview i)) (length H)"
    using decided_without_stopsign [OF assms(1)] assms(3) len by simp
  let ?m = "if ?k < v_decided (iview i) then ?k else get_decided_idx_without_stopsign i"
  have m: "?m = min ?k (length H)"
    using assms(3,4) d by (auto simp: stop_len_def split: if_splits option.splits)
  have c: "decided_idx (state_cache i) = v_decided (iview i)"
    "compacted_idx (state_cache i) = v_offset (iview i)" "v_compacted (iview i) = v_offset (iview i)"
    using assms(1) by (auto simp: coherent_def)
  have sel: "(case idx of Some k \<Rightarrow> (if k < decided_idx (state_cache i) then Inr k
        else if k = decided_idx (state_cache i) then Inr (get_decided_idx_without_stopsign i)
        else Inl (Err (CompactionError (UndecidedIndex (decided_idx (state_cache i))))))
      | None \<Rightarrow> Inr (get_decided_idx_without_stopsign i)) = Inr ?m"
    using assms(4) c by (auto split: option.splits)
  show ?thesis
  proof (cases "v_offset (iview i) < ?m")
    case True
    then have n: "n = ?m" "v_offset (iview i) < n" "n \<le> length H" using assms(5) m by auto
    then have snap: "create_snapshot S SN i n = Inr (snapshot_of (take n H))"
      using create_snapshot_law [OF assms(1,2)] by simp
    obtain st where st: "write_atomically S (storage i)
        [Trim n, SetCompactedIdx n, SetSnapshot (Some (snapshot_of (take n H)))] = (st, Inr ())"
      "invar st" "view st = (iview i)\<lparr>v_log := drop (n - v_offset (iview i)) (v_log (iview i)),
        v_offset := n, v_compacted := n, v_snapshot := Some (snapshot_of (take n H))\<rparr>"
      using write_compaction [OF assms(1), of n "[SetSnapshot (Some (snapshot_of (take n H)))]"] n len
      by auto
    have "try_snapshot S SN i idx =
        (i\<lparr>storage := st, state_cache := (state_cache i)\<lparr>compacted_idx := n\<rparr>\<rparr>, Inr ())"
      using True n(1) snap st(1) c unfolding try_snapshot_def Let_def sel by simp
    with st n assms(1,2) len show ?thesis
      by (auto simp: coherent_def compacts_def)
  next
    case False
    then have "min ?k (length H) \<le> v_offset (iview i)"
      unfolding m by (simp only: not_less)
    then have "n = v_offset (iview i)" unfolding assms(5) by (rule max_absorb1)
    with False c assms(1,2) show ?thesis
      unfolding try_snapshot_def Let_def sel by auto
  qed
qed

end

section \<open>The snapshot of a key-value log\<close>

record KeyValue =
  kv_key :: string
  kv_value :: u64

record KVSnapshot =
  snapshotted :: "string \<rightharpoonup> u64"

fun KVSnapshot_insert_all :: "KeyValue list \<Rightarrow> (string \<rightharpoonup> u64) \<Rightarrow> (string \<rightharpoonup> u64)" where
  "KVSnapshot_insert_all [] m = m"
| "KVSnapshot_insert_all (e # es) m = KVSnapshot_insert_all es (m(kv_key e \<mapsto> kv_value e))"

definition KVSnapshot_create :: "KeyValue list \<Rightarrow> KVSnapshot StorageResult" where
  "KVSnapshot_create entries = Inr \<lparr>snapshotted = KVSnapshot_insert_all entries Map.empty\<rparr>"

text \<open>The loop over the delta's bindings, in whatever order the hash map yields its distinct keys.\<close>

definition KVSnapshot_merge :: "KVSnapshot \<Rightarrow> KVSnapshot \<Rightarrow> KVSnapshot StorageResult" where
  "KVSnapshot_merge self delta =
     Inr (self\<lparr>snapshotted := (\<lambda>k. case snapshotted delta k of Some v \<Rightarrow> Some v
                                   | None \<Rightarrow> snapshotted self k)\<rparr>)"

definition KVSnapshot_impl :: "(KeyValue, KVSnapshot) Snapshot" where
  "KVSnapshot_impl =
     \<lparr>create = KVSnapshot_create, merge = KVSnapshot_merge, use_snapshots = True\<rparr>"

lemma insert_all_overrides:
  "KVSnapshot_insert_all es m =
     (\<lambda>k. case KVSnapshot_insert_all es Map.empty k of Some v \<Rightarrow> Some v | None \<Rightarrow> m k)"
proof (induction es arbitrary: m)
  case Nil
  then show ?case by simp
next
  case (Cons e es)
  show ?case
    by (rule ext, simp, subst Cons, subst (2) Cons) (simp split: option.split)
qed

lemma insert_all_append:
  "KVSnapshot_insert_all (xs @ ys) m = KVSnapshot_insert_all ys (KVSnapshot_insert_all xs m)"
  by (induction xs arbitrary: m) auto

interpretation kv: snapshots KVSnapshot_impl
proof unfold_locales
  fix xs ys a b
  assume "create KVSnapshot_impl xs = Inr a" and "create KVSnapshot_impl ys = Inr b"
  then show "merge KVSnapshot_impl a b = create KVSnapshot_impl (xs @ ys)"
    using insert_all_overrides [of ys "KVSnapshot_insert_all xs Map.empty"]
    by (auto simp: KVSnapshot_impl_def KVSnapshot_create_def KVSnapshot_merge_def insert_all_append
        cong: option.case_cong)
qed (auto simp: KVSnapshot_impl_def KVSnapshot_create_def)

interpretation memkv: compaction "MemoryStorage_impl hash finish" ms_view ms_invar KVSnapshot_impl
  for hash finish ..

text \<open>
  The stored data of a key-value replica represents the history \<open>H\<close>: the retained log is the
  rest of \<open>H\<close>, and the map of the snapshot is the result of inserting the entries before it.
\<close>

definition kv_represents :: "KeyValue list \<Rightarrow> (KeyValue, KVSnapshot) MemoryStorage \<Rightarrow> bool" where
  "kv_represents H s \<longleftrightarrow>
     ms_trimmed_idx s \<le> length H \<and> ms_log s = drop (ms_trimmed_idx s) H \<and>
     (ms_snapshot s = Some \<lparr>snapshotted = KVSnapshot_insert_all (take (ms_trimmed_idx s) H) Map.empty\<rparr> \<or>
      ms_snapshot s = None \<and> ms_trimmed_idx s = 0)"

lemma kv_snapshot_of: "kv.snapshot_of es = \<lparr>snapshotted = KVSnapshot_insert_all es Map.empty\<rparr>"
  using kv.create_snapshot_of [of es] by (simp add: KVSnapshot_impl_def KVSnapshot_create_def)

lemma kv_represents_compacts: "kv_represents H s \<longleftrightarrow> memkv.compacts H (ms_view s)"
  by (simp add: kv_represents_def memkv.compacts_def kv_snapshot_of)

text \<open>
  C20. Snapshotting a key-value log up to a decided index succeeds, keeps the cache coherent
  and loses nothing: afterwards the entries before the new compacted index are exactly what
  the stored snapshot holds, and all later entries are still in the log.
\<close>

theorem kv_try_snapshot_represents:
  assumes "coherent ms_view ms_invar i" and "kv_represents H (storage i)"
    and "ms_ld (storage i) \<le> length H + stop_len (ms_stopsign (storage i))"
    and "k \<le> ms_ld (storage i)"
  shows "\<exists>i'. try_snapshot (MemoryStorage_impl hash finish) KVSnapshot_impl i (Some k) = (i', Inr ()) \<and>
      coherent ms_view ms_invar i' \<and> kv_represents H (storage i') \<and>
      ms_trimmed_idx (storage i') = max (ms_trimmed_idx (storage i)) (min k (length H))"
  using memkv.try_snapshot_law [where H = H and idx = "Some k", OF assms(1)] assms(2-4)
  by (fastforce simp: kv_represents_compacts)

definition example_kv_log :: "KeyValue list" where
  "example_kv_log =
     [\<lparr>kv_key = ''a'', kv_value = 1\<rparr>, \<lparr>kv_key = ''b'', kv_value = 2\<rparr>, \<lparr>kv_key = ''a'', kv_value = 3\<rparr>]"

definition example_kv_storage ::
  "((KeyValue, KVSnapshot) MemoryStorage, KeyValue) InternalStorage" where
  "example_kv_storage =
     \<lparr>storage = MemoryStorage_default\<lparr>ms_log := example_kv_log, ms_ld := 2\<rparr>,
      state_cache = (StateCache_new \<lparr>isc_batch_size = 1\<rparr>)\<lparr>accepted_idx := 3, decided_idx := 2\<rparr>\<rparr>"

lemmas example_kv_defs = example_kv_storage_def example_kv_log_def MemoryStorage_default_def
  StateCache_new_def

lemma example_kv_coherent: "coherent ms_view ms_invar example_kv_storage"
  by (simp add: example_kv_defs coherent_def ms_invar_def)

theorem kv_try_snapshot_represents_witness:
  "\<exists>i'. try_snapshot (MemoryStorage_impl (\<lambda>_. []) (\<lambda>_. 0)) KVSnapshot_impl example_kv_storage (Some 2)
         = (i', Inr ()) \<and> coherent ms_view ms_invar i' \<and>
       kv_represents example_kv_log (storage i') \<and> ms_trimmed_idx (storage i') = 2"
proof -
  have "kv_represents example_kv_log (storage example_kv_storage)"
    by (simp add: kv_represents_def example_kv_defs)
  from kv_try_snapshot_represents [OF example_kv_coherent this, where k = 2 and hash = "\<lambda>_. []"
      and finish = "\<lambda>_. 0"]
  show ?thesis by (simp add: example_kv_defs numeral_2_eq_2)
qed


end
