(* ===== verification/Messages.thy ===== *)
theory Messages
  imports Storage_Api
begin

text \<open>
  \<^verbatim>\<open>omnipaxos/src/messages.rs\<close>: the messages of leader election and of the log. The result of
  a speculative execution has three levels of \<open>Option\<close>: whether the sender speculated, whether
  the command returns a value at all, and the value.
\<close>

type_synonym Speculation = "string option option option"

section \<open>Sequence Paxos\<close>

record PrepareReq =
  prepare_n :: Ballot

record ('t, 'n) Promise =
  promise_n :: Ballot
  n_accepted :: Ballot
  promise_decided_idx :: usize
  promise_accepted_idx :: usize
  log_sync :: "('t, 'n) LogSync option"

datatype 't PaxosMsg =
    Ack 't u64 Speculation usize
  | Confirm 't usize
  | NewDeadline usize SystemTime
  | SyncReq
  | SyncAnswer SystemTime

record 't PaxosMessage =
  pm_from :: NodeId
  pm_to :: NodeId
  pm_msg :: "'t PaxosMsg"

section \<open>Leader election\<close>

record HeartbeatRequest =
  req_round :: u32

record HeartbeatReply =
  rep_round :: u32
  rep_ballot :: Ballot
  rep_leader :: Ballot
  rep_happy :: bool

datatype HeartbeatMsg = Request HeartbeatRequest | Reply HeartbeatReply

record BLEMessage =
  ble_from :: NodeId
  ble_to :: NodeId
  ble_msg :: HeartbeatMsg

section \<open>Messages between servers\<close>

datatype 't Message = SequencePaxos "'t PaxosMessage" | BLE BLEMessage

fun get_sender :: "'t Message \<Rightarrow> NodeId" where
  "get_sender (SequencePaxos p) = pm_from p"
| "get_sender (BLE b) = ble_from b"

fun get_receiver :: "'t Message \<Rightarrow> NodeId" where
  "get_receiver (SequencePaxos p) = pm_to p"
| "get_receiver (BLE b) = ble_to b"

end
