(* ===== verification/Clock.thy ===== *)
theory Clock
  imports Messages
begin

text \<open>
  \<^verbatim>\<open>omnipaxos/src/clock.rs\<close>: the simulated clock of a replica. A background task advances the
  logical time once per millisecond by a millisecond plus or minus the drift, wakes the
  deadlines that have passed and starts a synchronisation with node 1 every \<open>sync_freq\<close> ticks.

  \<open>Clock\<close> is a handle to a shared, locked \<open>ClockState\<close>; the model passes the state. The senders
  in \<open>database\<close> and the channel of master times are represented by channel numbers and by the
  queue of sent times. The field \<open>offset\<close> (a float nothing reads) is left out. \<open>outgoing\<close> is a
  reference: the private vector \<open>Clock::new\<close> is given, or the vector of the replica once
  \<open>set_outgoing\<close> was called. Asynchronous code is cut into the sections that run under one
  lock; the tasks themselves are in \<open>Sequence_Paxos\<close>.

  Shown: a tick wakes exactly the deadlines that are strictly in the past and keeps the others,
  ticking never moves the time backwards, and the reported uncertainty bounds the error that
  drift can have caused since the last synchronisation.
\<close>

type_synonym Chan = nat

datatype OutgoingRef = PrivateOutgoing | ReplicaOutgoing

abbreviation MILLIS :: nat where "MILLIS \<equiv> 1000000"
abbreviation MICROS :: nat where "MICROS \<equiv> 1000"

record ClockState =
  clock_id :: usize
  master :: NodeId
  drift :: Duration
  uncertainty :: Duration
  sync_freq :: u32
  logical_time :: SystemTime
  clock_counter :: u32
  deadlines :: "SystemTime list"
  database :: "SystemTime \<rightharpoonup> Chan"
  master_times :: "SystemTime list"
  clock_outgoing :: OutgoingRef

text \<open>The id and the wall-clock time are what \<open>CLOCK_COUNTER\<close> and \<open>SystemTime::now\<close> give.\<close>

definition Clock_new ::
  "usize \<Rightarrow> SystemTime \<Rightarrow> NodeId \<Rightarrow> Duration \<Rightarrow> Duration \<Rightarrow> u32 \<Rightarrow> ClockState" where
  "Clock_new next_id now mas drift_bound uncertainty_bound freq =
     \<lparr>clock_id = next_id, master = mas, drift = drift_bound, uncertainty = uncertainty_bound,
      sync_freq = freq, logical_time = now, clock_counter = 0, deadlines = [], database = Map.empty,
      master_times = [], clock_outgoing = PrivateOutgoing\<rparr>"

definition set_outgoing :: "ClockState \<Rightarrow> ClockState" where
  "set_outgoing c = c\<lparr>clock_outgoing := ReplicaOutgoing\<rparr>"

text \<open>The least element of a min-heap of times.\<close>

fun peek :: "SystemTime list \<Rightarrow> SystemTime option" where
  "peek [] = None"
| "peek (d # ds) = Some (foldl min d ds)"

lemma foldl_min_le: "foldl min d ds \<le> (d :: int)" "x \<in> set ds \<Longrightarrow> foldl min d ds \<le> x"
proof (induction ds arbitrary: d)
  case (Cons a ds)
  { case 1 from Cons(1) [of "min d a"] show ?case by simp }
  { case 2 with Cons(1,2) [of "min d a"] show ?case by auto }
qed auto

lemma foldl_min_in: "foldl min d ds \<in> insert (d :: int) (set ds)"
proof (induction ds arbitrary: d)
  case (Cons a ds)
  from Cons [of "min d a"] show ?case by (auto simp: min_def split: if_splits)
qed simp

lemma peek_in: "peek h = Some d \<Longrightarrow> d \<in> set h"
  using foldl_min_in by (cases h) auto

lemma peek_le: "peek h = Some d \<Longrightarrow> x \<in> set h \<Longrightarrow> d \<le> x"
  using foldl_min_le by (cases h) auto

lemma peek_None [simp]: "peek h = None \<longleftrightarrow> h = []"
  by (cases h) auto

lemma length_remove1_peek: "peek h = Some d \<Longrightarrow> length (remove1 d h) < length h"
proof -
  assume "peek h = Some d"
  then have "d \<in> set h" by (rule peek_in)
  then show ?thesis
    using length_pos_if_in_set [of d h] by (simp add: length_remove1)
qed

text \<open>
  \<open>process_deadlines\<close>: pop deadlines while the earliest is in the past; the result lists the
  channels a spawned task will send on, in order.
\<close>

function process_deadlines :: "ClockState \<Rightarrow> ClockState \<times> Chan list" where
  "process_deadlines c =
     (case peek (deadlines c) of
        None \<Rightarrow> (c, [])
      | Some deadline \<Rightarrow>
          (if deadline < logical_time c then
             (let c' = c\<lparr>deadlines := remove1 deadline (deadlines c)\<rparr>
              in case database c' deadline of
                   Some sender \<Rightarrow>
                     (let (c'', senders) = process_deadlines (c'\<lparr>database := (database c')(deadline := None)\<rparr>)
                      in (c'', sender # senders))
                 | None \<Rightarrow> process_deadlines c')
           else (c, [])))"
  by pat_completeness auto

termination
  by (relation "measure (\<lambda>c. length (deadlines c))") (auto simp: length_remove1_peek)

declare process_deadlines.simps [simp del]

text \<open>
  The body of the loop of \<open>tick_fn\<close>; \<open>fast\<close> is the outcome of the coin that decides the sign of
  the drift. The result has the channels to wake and whether a synchronisation is started.
\<close>

definition tick_step :: "bool \<Rightarrow> Duration \<Rightarrow> Duration" where
  "tick_step fast d = (if fast then MILLIS + d else MILLIS - d)"

definition tick_fn :: "bool \<Rightarrow> ClockState \<Rightarrow> ClockState \<times> Chan list \<times> bool" where
  "tick_fn fast c =
     (let c = c\<lparr>clock_counter := clock_counter c + 1\<rparr>;
          c = c\<lparr>logical_time := logical_time c + int (tick_step fast (drift c))\<rparr>;
          (c, senders) = process_deadlines c
      in if sync_freq c \<le> clock_counter c then (c\<lparr>clock_counter := 0\<rparr>, senders, True)
         else (c, senders, False))"

definition get_time :: "ClockState \<Rightarrow> SystemTime" where
  "get_time c = logical_time c"

definition new_deadline :: "ClockState \<Rightarrow> SystemTime" where
  "new_deadline c = logical_time c + int (20 * MILLIS)"

definition get_uncertainty :: "ClockState \<Rightarrow> Duration" where
  "get_uncertainty c = uncertainty c + unat (clock_counter c) * drift c"

definition resync :: "ClockState \<Rightarrow> SystemTime \<Rightarrow> ClockState" where
  "resync c real_time = c\<lparr>logical_time := real_time, clock_counter := 0, uncertainty := 0\<rparr>"

text \<open>
  The end of \<open>sync_with_master\<close>: half the round trip is added to the master's time.
  \<open>duration_since\<close> fails, and the task panics, when the wall clock went backwards.
\<close>

definition corrected_time :: "SystemTime \<Rightarrow> SystemTime \<Rightarrow> SystemTime \<Rightarrow> (unit, SystemTime) result" where
  "corrected_time leader_time t0 t1 =
     (if t1 < t0 then Inl (Panic ''duration_since'')
      else Inr (leader_time + (t1 - t0) div 2))"

text \<open>\<open>add_deadline\<close> with the channel it created; an old sender for the same time is dropped.\<close>

definition add_deadline :: "ClockState \<Rightarrow> SystemTime \<Rightarrow> Chan \<Rightarrow> ClockState" where
  "add_deadline c deadline tx =
     c\<lparr>deadlines := heap_push deadline (deadlines c), database := (database c)(deadline \<mapsto> tx)\<rparr>"

section \<open>Waking deadlines\<close>

text \<open>One round of the loop: the state after popping \<open>d\<close>, and the channel to wake.\<close>

lemma process_deadlines_stop:
  "\<forall>d\<in>set (deadlines c). logical_time c \<le> d \<Longrightarrow> process_deadlines c = (c, [])"
  by (subst process_deadlines.simps) (auto split: option.split dest!: peek_in)

lemma process_deadlines_pop:
  assumes "peek (deadlines c) = Some d" and "d < logical_time c"
  shows "process_deadlines c =
    (let (c', senders) = process_deadlines
           (c\<lparr>deadlines := remove1 d (deadlines c), database := (database c)(d := None)\<rparr>)
     in (c', (case database c d of Some ch \<Rightarrow> ch # senders | None \<Rightarrow> senders)))"
proof (cases "database c d")
  case None
  then have "(database c)(d := None) = database c" by (simp add: fun_upd_idem)
  with None assms show ?thesis by (subst process_deadlines.simps) (simp add: Let_def)
next
  case (Some ch)
  with assms show ?thesis by (subst process_deadlines.simps) (simp add: Let_def)
qed

lemma process_deadlines_induct [case_names stop pop]:
  assumes "\<And>c. \<forall>d\<in>set (deadlines c). logical_time c \<le> d \<Longrightarrow> P c"
    and "\<And>c d. peek (deadlines c) = Some d \<Longrightarrow> d < logical_time c \<Longrightarrow>
           P (c\<lparr>deadlines := remove1 d (deadlines c), database := (database c)(d := None)\<rparr>) \<Longrightarrow> P c"
  shows "P c"
proof (induction "length (deadlines c)" arbitrary: c rule: less_induct)
  case less
  show ?case
  proof (cases "peek (deadlines c)")
    case None
    then show ?thesis by (intro assms(1)) simp
  next
    case (Some d)
    show ?thesis
    proof (cases "d < logical_time c")
      case True
      with Some less show ?thesis
        by (intro assms(2) [of c d]) (simp_all add: length_remove1_peek)
    next
      case False
      with Some show ?thesis
        by (intro assms(1)) (auto dest: peek_le intro: order_trans)
    qed
  qed
qed

lemma process_deadlines_frame:
  "\<exists>ds db. fst (process_deadlines c) = c\<lparr>deadlines := ds, database := db\<rparr>"
proof (induction c rule: process_deadlines_induct)
  case (stop c)
  have "c = c\<lparr>deadlines := deadlines c, database := database c\<rparr>" by simp
  with process_deadlines_stop [OF stop] show ?case by (metis fst_conv)
next
  case (pop c d)
  then show ?case by (auto simp: process_deadlines_pop [OF pop(1,2)] split_beta Let_def)
qed

lemma process_deadlines_frame_simps [simp]:
  "logical_time (fst (process_deadlines c)) = logical_time c"
  "drift (fst (process_deadlines c)) = drift c"
  "uncertainty (fst (process_deadlines c)) = uncertainty c"
  "sync_freq (fst (process_deadlines c)) = sync_freq c"
  "clock_counter (fst (process_deadlines c)) = clock_counter c"
  "master (fst (process_deadlines c)) = master c"
  "master_times (fst (process_deadlines c)) = master_times c"
  "clock_outgoing (fst (process_deadlines c)) = clock_outgoing c"
  using process_deadlines_frame [of c] by auto

lemma process_deadlines_keeps:
  "mset (deadlines (fst (process_deadlines c))) =
     filter_mset (\<lambda>d. logical_time c \<le> d) (mset (deadlines c))"
proof (induction c rule: process_deadlines_induct)
  case (stop c)
  then have "filter_mset (\<lambda>d. logical_time c \<le> d) (mset (deadlines c)) = mset (deadlines c)"
    by (simp add: filter_mset_eq_conv)
  with stop show ?case by (simp add: process_deadlines_stop)
next
  case (pop c d)
  then show ?case
    by (simp add: process_deadlines_pop [OF pop(1,2)] split_beta Let_def not_le)
qed

text \<open>The woken channels are those registered for the deadlines in the past.\<close>

lemma process_deadlines_wakes:
  "set (snd (process_deadlines c)) =
     {ch. \<exists>d\<in>set (deadlines c). d < logical_time c \<and> database c d = Some ch}"
proof (induction c rule: process_deadlines_induct)
  case (stop c)
  then show ?case by (auto simp: process_deadlines_stop not_less [symmetric])
next
  case (pop c d)
  have "set (snd (process_deadlines c)) = set_option (database c d) \<union>
      {ch. \<exists>x\<in>set (remove1 d (deadlines c)). x < logical_time c \<and> x \<noteq> d \<and> database c x = Some ch}"
    using pop by (auto simp: process_deadlines_pop [OF pop(1,2)] split_beta Let_def split: option.splits)
  also have "\<dots> = {ch. \<exists>d\<in>set (deadlines c). d < logical_time c \<and> database c d = Some ch}"
    using pop(2) peek_in [OF pop(1)] notin_set_remove1 [of _ "deadlines c" d]
    by (auto simp: set_eq_iff) (metis in_set_remove1)
  finally show ?case .
qed

lemma process_deadlines_single:
  assumes "deadlines c = [d]" and "database c = [d \<mapsto> ch]"
  shows "process_deadlines c =
    (if d < logical_time c then (c\<lparr>deadlines := [], database := Map.empty\<rparr>, [ch]) else (c, []))"
proof (cases "d < logical_time c")
  case True
  then show ?thesis
    using assms by (subst process_deadlines_pop [of c d]) (simp_all add: process_deadlines_stop Let_def)
next
  case False
  with assms show ?thesis by (simp add: process_deadlines_stop)
qed

lemma process_deadlines_empty: "deadlines c = [] \<Longrightarrow> process_deadlines c = (c, [])"
  by (simp add: process_deadlines_stop)

section \<open>Ticking\<close>

lemma tick_step_error: "\<bar>int (tick_step fast d) - int MILLIS\<bar> \<le> int d"
  by (cases "d \<le> MILLIS") (simp_all add: tick_step_def of_nat_diff)

lemma tick_fn_frame [simp]:
  "logical_time (fst (tick_fn fast c)) = logical_time c + int (tick_step fast (drift c))"
  "drift (fst (tick_fn fast c)) = drift c"
  "uncertainty (fst (tick_fn fast c)) = uncertainty c"
  "sync_freq (fst (tick_fn fast c)) = sync_freq c"
  "master (fst (tick_fn fast c)) = master c"
  "master_times (fst (tick_fn fast c)) = master_times c"
  "clock_outgoing (fst (tick_fn fast c)) = clock_outgoing c"
  by (simp_all add: tick_fn_def Let_def split_beta)

text \<open>
  A tick of the clock moves the logical time forward by a millisecond give or take the
  drift, wakes exactly the channels registered for deadlines strictly before the new time, and
  keeps exactly the deadlines that have not passed.
\<close>

theorem tick_wakes_past_deadlines:
  "case tick_fn fast c of (c', woken, _) \<Rightarrow>
     \<bar>logical_time c' - logical_time c - int MILLIS\<bar> \<le> int (drift c) \<and>
     logical_time c \<le> logical_time c' \<and>
     set woken = {ch. \<exists>d\<in>set (deadlines c). d < logical_time c' \<and> database c d = Some ch} \<and>
     mset (deadlines c') = filter_mset (\<lambda>d. logical_time c' \<le> d) (mset (deadlines c))"
  using process_deadlines_wakes process_deadlines_keeps tick_step_error [of fast "drift c"]
  by (simp add: tick_fn_def Let_def split_beta)

text \<open>The channels a run of ticks wakes, in order.\<close>

fun clock_wakes :: "bool list \<Rightarrow> ClockState \<Rightarrow> Chan list" where
  "clock_wakes [] c = []"
| "clock_wakes (fast # fasts) c = (let (c', woken, _) = tick_fn fast c in woken @ clock_wakes fasts c')"

lemma process_deadlines_database:
  "logical_time c \<le> d \<Longrightarrow> database (fst (process_deadlines c)) d = database c d"
proof (induction c rule: process_deadlines_induct)
  case (stop c)
  then show ?case by (simp add: process_deadlines_stop)
next
  case (pop c d')
  then show ?case by (auto simp: process_deadlines_pop [OF pop(1,2)] split_beta Let_def)
qed

lemma tick_fn_database:
  "logical_time c + int (tick_step fast (drift c)) \<le> d \<Longrightarrow> database (fst (tick_fn fast c)) d = database c d"
  by (simp add: tick_fn_def Let_def split_beta process_deadlines_database)

lemma tick_fn_wakes:
  "set (fst (snd (tick_fn fast c))) = {ch. \<exists>d\<in>set (deadlines c).
     d < logical_time c + int (tick_step fast (drift c)) \<and> database c d = Some ch}"
  by (simp add: tick_fn_def Let_def split_beta process_deadlines_wakes)

lemma tick_fn_keeps:
  "mset (deadlines (fst (tick_fn fast c))) =
     filter_mset (\<lambda>d. logical_time c + int (tick_step fast (drift c)) \<le> d) (mset (deadlines c))"
  by (simp add: tick_fn_def Let_def split_beta process_deadlines_keeps)



text \<open>The logical clock as a run of ticks.\<close>

definition clock_run :: "bool list \<Rightarrow> ClockState \<Rightarrow> ClockState" where
  "clock_run fasts c = foldl (\<lambda>c fast. fst (tick_fn fast c)) c fasts"

lemma clock_run_snoc: "clock_run (fasts @ [fast]) c = fst (tick_fn fast (clock_run fasts c))"
  by (simp add: clock_run_def)

lemma clock_run_frame [simp]:
  "drift (clock_run fasts c) = drift c" "uncertainty (clock_run fasts c) = uncertainty c"
  "sync_freq (clock_run fasts c) = sync_freq c"
  by (induction fasts rule: rev_induct) (auto simp: clock_run_snoc clock_run_def)

lemma clock_run_counter:
  assumes "clock_counter c = 0" and "length fasts < unat (sync_freq c)"
  shows "unat (clock_counter (clock_run fasts c)) = length fasts"
  using assms(2)
proof (induction fasts rule: rev_induct)
  case Nil
  then show ?case using assms(1) by (simp add: clock_run_def)
next
  case (snoc fast fasts)
  have "unat (sync_freq c) < 2 ^ 32"
    using unsigned_less [of "sync_freq c"] by simp
  with snoc have "unat (clock_counter (clock_run fasts c) + 1) = Suc (length fasts)"
    by (subst unat_word_ariths) simp
  with snoc show ?case
    by (simp add: clock_run_snoc tick_fn_def Let_def split_beta word_le_nat_alt)
qed

lemma clock_run_error:
  "\<bar>logical_time (clock_run fasts c) - logical_time c - int (length fasts * MILLIS)\<bar>
     \<le> int (length fasts * drift c)"
proof (induction fasts rule: rev_induct)
  case Nil
  then show ?case by (simp add: clock_run_def)
next
  case (snoc fast fasts)
  with tick_step_error [of fast "drift c"] show ?case
    by (simp add: clock_run_snoc algebra_simps)
qed

text \<open>
  C31. Between two synchronisation points the reported uncertainty is a bound: after \<open>n\<close> ticks
  from a freshly reset counter, \<open>n\<close> below \<open>sync_freq\<close>, the logical time has moved by \<open>n\<close>
  milliseconds up to an error which, added to the uncertainty at the reset, is within
  \<open>get_uncertainty\<close>.
\<close>

theorem uncertainty_bounds_drift:
  assumes "clock_counter c = 0" and "length fasts < unat (sync_freq c)"
  shows "\<bar>logical_time (clock_run fasts c) - logical_time c - int (length fasts * MILLIS)\<bar>
           + int (uncertainty c) \<le> int (get_uncertainty (clock_run fasts c))"
  using clock_run_error [of fasts c] clock_run_counter [OF assms] by (simp add: get_uncertainty_def)

definition example_clock :: "u32 \<Rightarrow> ClockState" where
  "example_clock freq = resync (Clock_new 1 0 2 (10 * MICROS) (10 * MICROS) freq) 0"

theorem uncertainty_bounds_drift_witness:
  "\<bar>logical_time (clock_run [True, True, False] (example_clock 10)) - 3000000\<bar>
     \<le> int (get_uncertainty (clock_run [True, True, False] (example_clock 10)))"
  using uncertainty_bounds_drift [of "example_clock 10" "[True, True, False]"]
  by (simp add: example_clock_def resync_def Clock_new_def)

text \<open>
  The bound does not survive the tick at which a synchronisation is started: \<open>tick_fn\<close> resets
  the counter when it spawns the synchronisation, before any answer has arrived. With the
  default \<open>sync_freq\<close> of one millisecond every tick does so, and a clock that was just
  synchronised reports no uncertainty at all while its error grows with every tick.
\<close>

theorem uncertainty_reset_before_sync:
  "get_uncertainty (clock_run (replicate n True) (example_clock 1)) = 0 \<and>
   logical_time (clock_run (replicate n True) (example_clock 1)) = int (n * MILLIS + n * 10000)"
proof (induction n)
  case 0
  then show ?case
    by (simp add: clock_run_def get_uncertainty_def example_clock_def resync_def Clock_new_def)
next
  case (Suc n)
  let ?c = "clock_run (replicate n True) (example_clock 1)"
  have "clock_run (replicate (Suc n) True) (example_clock 1) = fst (tick_fn True ?c)"
    by (simp add: replicate_append_same [symmetric] clock_run_snoc)
  moreover have "sync_freq ?c = 1" "drift ?c = 10000" "uncertainty ?c = 0"
    by (simp_all add: example_clock_def resync_def Clock_new_def)
  moreover from this have "clock_counter ?c = 0"
    using Suc by (simp add: get_uncertainty_def unat_eq_zero)
  ultimately show ?case
    using Suc by (auto simp: get_uncertainty_def tick_fn_def Let_def split_beta tick_step_def)
qed

end
