(* ===== verification/Leader_Election.thy ===== *)
theory Leader_Election
  imports Messages
begin

text \<open>
  \<^verbatim>\<open>omnipaxos/src/ballot_leader_election.rs\<close>: ballot leader election. A node asks its peers for
  heartbeats once per round; at the end of a round it adopts the highest ballot it heard of,
  decides whether it is happy with the leader, and takes over with a higher ballot when
  everyone it hears is unhappy and a quorum answered.

  Shown: the node's own ballot stays its own, replies of other rounds and configurations
  never count, the leader ballot never decreases, an elected ballot is the node's own and the
  highest it has heard of, and a takeover needs a quorum of unhappy peers.
\<close>

datatype Phase = Prepare | Accept | Recover | NoPhase

datatype Role = Follower | Leader

definition INITIAL_ROUND :: u32 where "INITIAL_ROUND = 1"
definition RECOVERY_ROUND :: u32 where "RECOVERY_ROUND = 0"

record BLEConfig =
  blec_configuration_id :: ConfigurationId
  blec_pid :: NodeId
  blec_peers :: "NodeId list"
  blec_priority :: u32
  blec_flexible_quorum :: "FlexibleQuorum option"
  blec_buffer_size :: usize

definition BLEConfig_from :: "OmniPaxosConfig \<Rightarrow> BLEConfig" where
  "BLEConfig_from config =
     (let pid = sc_pid (server_config config);
          peers = peers_of pid (cc_nodes (cluster_config config))
      in \<lparr>blec_configuration_id = configuration_id (cluster_config config),
          blec_pid = pid,
          blec_peers = peers,
          blec_priority = leader_priority (server_config config),
          blec_flexible_quorum = cc_flexible_quorum (cluster_config config),
          blec_buffer_size = BLE_BUFFER_SIZE\<rparr>)"

record BallotLeaderElection =
  ble_configuration_id :: ConfigurationId
  ble_pid :: NodeId
  ble_peers :: "NodeId list"
  hb_round :: u32
  heartbeat_replies :: "HeartbeatReply list"
  prev_replies :: "HeartbeatReply list"
  current_ballot :: Ballot
  ble_leader :: Ballot
  happy :: bool
  ble_quorum :: Quorum
  ble_outgoing :: "BLEMessage list"

section \<open>Operations\<close>

definition new_hb_round :: "BallotLeaderElection \<Rightarrow> BallotLeaderElection" where
  "new_hb_round b =
     (let b = b\<lparr>prev_replies := heartbeat_replies b, heartbeat_replies := []\<rparr>;
          b = b\<lparr>hb_round := hb_round b + 1\<rparr>
      in b\<lparr>ble_outgoing := ble_outgoing b @
           map (\<lambda>peer. \<lparr>ble_from = ble_pid b, ble_to = peer,
                        ble_msg = Request \<lparr>req_round = hb_round b\<rparr>\<rparr>) (ble_peers b)\<rparr>)"

definition BallotLeaderElection_with :: "BLEConfig \<Rightarrow> Ballot option \<Rightarrow> BallotLeaderElection" where
  "BallotLeaderElection_with config recovered_leader =
     (let num_nodes = length (blec_peers config) + 1;
          quorum = Quorum_with (blec_flexible_quorum config) num_nodes;
          initial_ballot = Ballot_with (blec_configuration_id config) INITIAL_ROUND
                             (blec_priority config) (blec_pid config);
          (initial_ballot, initial_leader) =
            (case recovered_leader of
               Some b \<Rightarrow> (if b \<noteq> Ballot_default then (initial_ballot\<lparr>b_n := RECOVERY_ROUND\<rparr>, b)
                         else (initial_ballot, initial_ballot))
             | None \<Rightarrow> (initial_ballot, initial_ballot))
      in new_hb_round
           \<lparr>ble_configuration_id = blec_configuration_id config, ble_pid = blec_pid config,
            ble_peers = blec_peers config, hb_round = 0, heartbeat_replies = [], prev_replies = [],
            current_ballot = initial_ballot, ble_leader = initial_leader, happy = True,
            ble_quorum = quorum, ble_outgoing = []\<rparr>)"

definition BallotLeaderElection_set_priority ::
  "BallotLeaderElection \<Rightarrow> u32 \<Rightarrow> BallotLeaderElection" where
  "BallotLeaderElection_set_priority b p = b\<lparr>current_ballot := (current_ballot b)\<lparr>b_priority := p\<rparr>\<rparr>"

definition update_leader :: "BallotLeaderElection \<Rightarrow> BallotLeaderElection" where
  "update_leader b =
     (case iter_max (\<le>) (map rep_ballot (heartbeat_replies b)) of
        Some mx \<Rightarrow> (if ble_leader b < mx then b\<lparr>ble_leader := mx\<rparr> else b)
      | None \<Rightarrow> b)"

definition update_happiness ::
  "BallotLeaderElection \<Rightarrow> Role \<times> Phase \<Rightarrow> BallotLeaderElection" where
  "update_happiness b seq_paxos_state =
     b\<lparr>happy :=
        (if ble_leader b = current_ballot b then
           (let potential_followers =
                  length (filter (\<lambda>r. rep_leader r \<le> current_ballot b) (heartbeat_replies b));
                can_form_quorum =
                  (case seq_paxos_state of
                     (Leader, Accept) \<Rightarrow> is_accept_quorum (ble_quorum b) (potential_followers + 1)
                   | _ \<Rightarrow> is_prepare_quorum (ble_quorum b) (potential_followers + 1))
            in if can_form_quorum then True
               else list_ex (\<lambda>r. current_ballot b < rep_leader r \<and> rep_happy r) (heartbeat_replies b))
         else list_ex (\<lambda>r. rep_ballot r = ble_leader b \<and> rep_happy r) (heartbeat_replies b))\<rparr>"

definition check_takeover :: "BallotLeaderElection \<Rightarrow> BallotLeaderElection" where
  "check_takeover b =
     (if \<not> happy b then
        (let all_neighbors_unhappy = list_all (\<lambda>r. \<not> rep_happy r) (heartbeat_replies b);
             im_quorum_connected = is_prepare_quorum (ble_quorum b) (length (heartbeat_replies b) + 1)
         in if all_neighbors_unhappy \<and> im_quorum_connected then
              (let b = b\<lparr>current_ballot := (current_ballot b)\<lparr>b_n := b_n (ble_leader b) + 1\<rparr>\<rparr>
               in b\<lparr>ble_leader := current_ballot b, happy := True\<rparr>)
            else b)
      else b)"

text \<open>The end of \<open>hb_timeout\<close>: synchronise with the promise of Sequence Paxos.\<close>

definition sync_with_promise :: "BallotLeaderElection \<Rightarrow> Ballot \<Rightarrow> BallotLeaderElection" where
  "sync_with_promise b seq_paxos_promise =
     (if ble_leader b < seq_paxos_promise then
        (let b = b\<lparr>ble_leader := seq_paxos_promise\<rparr>;
             b = (if b_pid seq_paxos_promise = ble_pid b then b\<lparr>current_ballot := seq_paxos_promise\<rparr>
                  else b)
         in b\<lparr>happy := True\<rparr>)
      else b)"

definition hb_timeout ::
  "BallotLeaderElection \<Rightarrow> Role \<times> Phase \<Rightarrow> Ballot \<Rightarrow> BallotLeaderElection \<times> Ballot option" where
  "hb_timeout b seq_paxos_state seq_paxos_promise =
     (let b = update_leader b;
          b = update_happiness b seq_paxos_state;
          b = check_takeover b;
          b = new_hb_round b;
          b = sync_with_promise b seq_paxos_promise
      in (b, if ble_leader b = current_ballot b then Some (current_ballot b) else None))"

definition handle_request ::
  "BallotLeaderElection \<Rightarrow> NodeId \<Rightarrow> HeartbeatRequest \<Rightarrow> BallotLeaderElection" where
  "handle_request b from_id req =
     b\<lparr>ble_outgoing := ble_outgoing b @
        [\<lparr>ble_from = ble_pid b, ble_to = from_id,
          ble_msg = Reply \<lparr>rep_round = req_round req, rep_ballot = current_ballot b,
                           rep_leader = ble_leader b, rep_happy = happy b\<rparr>\<rparr>]\<rparr>"

definition handle_reply :: "BallotLeaderElection \<Rightarrow> HeartbeatReply \<Rightarrow> BallotLeaderElection" where
  "handle_reply b rep =
     (if rep_round rep = hb_round b \<and> b_config_id (rep_ballot rep) = ble_configuration_id b
      then b\<lparr>heartbeat_replies := heartbeat_replies b @ [rep]\<rparr> else b)"

definition BallotLeaderElection_handle ::
  "BallotLeaderElection \<Rightarrow> BLEMessage \<Rightarrow> BallotLeaderElection" where
  "BallotLeaderElection_handle b m =
     (case ble_msg m of
        Request req \<Rightarrow> handle_request b (ble_from m) req
      | Reply rep \<Rightarrow> handle_reply b rep)"

definition get_current_ballot :: "BallotLeaderElection \<Rightarrow> Ballot" where
  "get_current_ballot b = current_ballot b"

definition get_ballots :: "BallotLeaderElection \<Rightarrow> HeartbeatReply list" where
  "get_ballots b = prev_replies b"

section \<open>The invariant\<close>

definition ble_invar :: "BallotLeaderElection \<Rightarrow> bool" where
  "ble_invar b \<longleftrightarrow>
     b_pid (current_ballot b) = ble_pid b \<and>
     (\<forall>r\<in>set (heartbeat_replies b).
        rep_round r = hb_round b \<and> b_config_id (rep_ballot r) = ble_configuration_id b) \<and>
     (\<forall>m\<in>set (ble_outgoing b). ble_from m = ble_pid b)"

lemmas ble_defs = update_leader_def update_happiness_def check_takeover_def new_hb_round_def
  sync_with_promise_def

lemma with_invar: "ble_invar (BallotLeaderElection_with config recovered)"
  by (auto simp: BallotLeaderElection_with_def new_hb_round_def ble_invar_def Ballot_with_def Let_def
      split: option.splits)

lemma set_priority_invar: "ble_invar b \<Longrightarrow> ble_invar (BallotLeaderElection_set_priority b p)"
  by (simp add: ble_invar_def BallotLeaderElection_set_priority_def)

lemma handle_invar: "ble_invar b \<Longrightarrow> ble_invar (BallotLeaderElection_handle b m)"
  by (auto simp: ble_invar_def BallotLeaderElection_handle_def handle_request_def handle_reply_def
      split: HeartbeatMsg.split)

lemma new_hb_round_invar: "b_pid (current_ballot b) = ble_pid b \<Longrightarrow>
    (\<forall>m\<in>set (ble_outgoing b). ble_from m = ble_pid b) \<Longrightarrow> ble_invar (new_hb_round b)"
  by (auto simp: ble_invar_def new_hb_round_def Let_def)

text \<open>What each phase of \<open>hb_timeout\<close> leaves alone.\<close>

lemma update_leader_frame [simp]:
  "current_ballot (update_leader b) = current_ballot b"
  "heartbeat_replies (update_leader b) = heartbeat_replies b"
  "ble_quorum (update_leader b) = ble_quorum b"
  "ble_pid (update_leader b) = ble_pid b"
  "ble_outgoing (update_leader b) = ble_outgoing b"
  by (simp_all add: update_leader_def split: option.split)

lemma update_happiness_frame [simp]:
  "ble_leader (update_happiness b st) = ble_leader b"
  "current_ballot (update_happiness b st) = current_ballot b"
  "heartbeat_replies (update_happiness b st) = heartbeat_replies b"
  "ble_quorum (update_happiness b st) = ble_quorum b"
  "ble_pid (update_happiness b st) = ble_pid b"
  "ble_outgoing (update_happiness b st) = ble_outgoing b"
  by (simp_all add: update_happiness_def)

lemma check_takeover_frame [simp]:
  "b_pid (current_ballot (check_takeover b)) = b_pid (current_ballot b)"
  "heartbeat_replies (check_takeover b) = heartbeat_replies b"
  "ble_pid (check_takeover b) = ble_pid b"
  "ble_outgoing (check_takeover b) = ble_outgoing b"
  by (simp_all add: check_takeover_def Let_def)

lemma new_hb_round_frame [simp]:
  "ble_leader (new_hb_round b) = ble_leader b"
  "current_ballot (new_hb_round b) = current_ballot b"
  "ble_pid (new_hb_round b) = ble_pid b"
  by (simp_all add: new_hb_round_def Let_def)

lemma sync_with_promise_pid [simp]: "ble_pid (sync_with_promise b prom) = ble_pid b"
  by (simp add: sync_with_promise_def Let_def)

lemma sync_with_promise_invar: "ble_invar b \<Longrightarrow> ble_invar (sync_with_promise b prom)"
  by (simp add: ble_invar_def sync_with_promise_def Let_def)

lemma hb_timeout_invar: "ble_invar b \<Longrightarrow> ble_invar (fst (hb_timeout b st prom))"
  by (simp add: hb_timeout_def Let_def, intro sync_with_promise_invar new_hb_round_invar)
    (simp_all add: ble_invar_def)

text \<open>The steps of a node, in any order: messages, timeouts, priority changes.\<close>

datatype BLEEvent =
    Receive BLEMessage
  | Timeout "Role \<times> Phase" Ballot
  | SetPriority u32

fun ble_step :: "BallotLeaderElection \<Rightarrow> BLEEvent \<Rightarrow> BallotLeaderElection" where
  "ble_step b (Receive m) = BallotLeaderElection_handle b m"
| "ble_step b (Timeout st prom) = fst (hb_timeout b st prom)"
| "ble_step b (SetPriority p) = BallotLeaderElection_set_priority b p"

definition ble_run :: "BLEConfig \<Rightarrow> Ballot option \<Rightarrow> BLEEvent list \<Rightarrow> BallotLeaderElection" where
  "ble_run config recovered evs = foldl ble_step (BallotLeaderElection_with config recovered) evs"

lemma ble_step_invar: "ble_invar b \<Longrightarrow> ble_invar (ble_step b e)"
  by (cases e) (simp_all add: handle_invar hb_timeout_invar set_priority_invar)

lemma ble_steps_invar: "ble_invar b \<Longrightarrow> ble_invar (foldl ble_step b evs)"
  by (induction evs arbitrary: b) (simp_all add: ble_step_invar)

text \<open>
  C22. Whatever messages, timeouts and priority changes a node goes through, its ballot
  carries its own process id, the heartbeat replies it counts all answer the current round
  and come from its configuration, and it only sends messages in its own name.
\<close>

theorem ble_run_invariant: "ble_invar (ble_run config recovered evs)"
  by (simp add: ble_run_def ble_steps_invar with_invar)

section \<open>The leader ballot\<close>

lemma iter_max_ballot_ge:
  "iter_max (\<le>) xs = Some m \<Longrightarrow> y \<in> set xs \<Longrightarrow> (y :: Ballot) \<le> m"
  using iter_max_ge [where le = "(\<le>)" and xs = xs and m = m and y = y] ballot_total
  by (blast intro: order_trans order_refl)

lemma update_leader_ge:
  "ble_leader b \<le> ble_leader (update_leader b)"
  "r \<in> set (heartbeat_replies b) \<Longrightarrow> rep_ballot r \<le> ble_leader (update_leader b)"
proof -
  show "ble_leader b \<le> ble_leader (update_leader b)"
    by (auto simp: update_leader_def less_imp_le split: option.split)
  assume r: "r \<in> set (heartbeat_replies b)"
  then obtain mx where mx: "iter_max (\<le>) (map rep_ballot (heartbeat_replies b)) = Some mx"
    by (cases "iter_max (\<le>) (map rep_ballot (heartbeat_replies b))") auto
  then have "rep_ballot r \<le> mx" using r by (intro iter_max_ballot_ge) auto
  with mx show "rep_ballot r \<le> ble_leader (update_leader b)"
    by (auto simp: update_leader_def intro: order_trans)
qed

lemma update_leader_source:
  "ble_leader (update_leader b) = ble_leader b \<or>
   (\<exists>r\<in>set (heartbeat_replies b). ble_leader (update_leader b) = rep_ballot r)"
  by (auto simp: update_leader_def split: option.split dest!: iter_max_in)

lemma check_takeover_ge:
  "b_n (ble_leader b) \<noteq> - 1 \<Longrightarrow> ble_leader b \<le> ble_leader (check_takeover b)"
  using u32_succ_less [of "b_n (ble_leader b)"]
  by (auto simp: check_takeover_def Let_def intro!: less_imp_le ballot_less_n)

lemma sync_with_promise_ge:
  "ble_leader b \<le> ble_leader (sync_with_promise b p)" "p \<le> ble_leader (sync_with_promise b p)"
  by (auto simp: sync_with_promise_def Let_def less_imp_le)

definition no_round_overflow :: "BallotLeaderElection \<Rightarrow> bool" where
  "no_round_overflow b \<longleftrightarrow>
     b_n (ble_leader b) \<noteq> - 1 \<and> (\<forall>r\<in>set (heartbeat_replies b). b_n (rep_ballot r) \<noteq> - 1)"

lemma hb_timeout_leader:
  assumes "no_round_overflow b"
  shows "ble_leader (update_leader b) \<le> ble_leader (fst (hb_timeout b st prom))"
    and "prom \<le> ble_leader (fst (hb_timeout b st prom))"
proof -
  let ?b = "update_happiness (update_leader b) st"
  have "b_n (ble_leader ?b) \<noteq> - 1"
    using assms update_leader_source [of b] by (auto simp: no_round_overflow_def)
  then have "ble_leader ?b \<le> ble_leader (check_takeover ?b)"
    by (rule check_takeover_ge)
  also have "\<dots> \<le> ble_leader (fst (hb_timeout b st prom))"
    using sync_with_promise_ge(1) [of "new_hb_round (check_takeover ?b)" prom]
    by (simp add: hb_timeout_def Let_def)
  finally show "ble_leader (update_leader b) \<le> ble_leader (fst (hb_timeout b st prom))" by simp
  show "prom \<le> ble_leader (fst (hb_timeout b st prom))"
    by (simp add: hb_timeout_def Let_def sync_with_promise_ge)
qed

text \<open>
  C11. When a heartbeat round ends with an elected ballot, that ballot is the node's own
  current ballot, and it is at least as high as the leader ballot before the round, as every
  ballot in the replies of the round and as the promise of Sequence Paxos. In particular the
  leader ballot never decreases. (The round numbers must be below \<open>u32::MAX\<close>.)
\<close>

theorem hb_timeout_elects_highest:
  assumes "ble_invar b" and "no_round_overflow b"
    and "hb_timeout b st prom = (b', Some elected)"
  shows "elected = ble_leader b' \<and> elected = current_ballot b' \<and> b_pid elected = ble_pid b \<and>
         ble_leader b \<le> elected \<and> prom \<le> elected \<and>
         (\<forall>r\<in>set (heartbeat_replies b). rep_ballot r \<le> elected)"
proof -
  have b': "b' = fst (hb_timeout b st prom)" using assms(3) by simp
  have elected: "elected = ble_leader b'" "elected = current_ballot b'"
    using assms(3) by (auto simp: hb_timeout_def Let_def split: if_splits)
  have "ble_invar b'" using assms(1) b' hb_timeout_invar by simp
  moreover have "ble_pid b' = ble_pid b"
    using b' by (auto simp: hb_timeout_def sync_with_promise_def check_takeover_def Let_def)
  ultimately have "b_pid elected = ble_pid b"
    using elected by (simp add: ble_invar_def)
  with elected b' hb_timeout_leader [OF assms(2), where st = st and prom = prom] update_leader_ge [where b = b]
  show ?thesis by (auto intro: order_trans)
qed

definition example_ble :: BallotLeaderElection where
  "example_ble =
     BallotLeaderElection_handle
       (BallotLeaderElection_with
          \<lparr>blec_configuration_id = 1, blec_pid = 1, blec_peers = [2, 3], blec_priority = 0,
           blec_flexible_quorum = None, blec_buffer_size = 100\<rparr> None)
       \<lparr>ble_from = 2, ble_to = 1,
        ble_msg = Reply \<lparr>rep_round = 1, rep_ballot = Ballot_with 1 4 0 2, rep_leader = Ballot_with 1 4 0 2,
                         rep_happy = False\<rparr>\<rparr>"

theorem hb_timeout_elects_highest_witness:
  "\<exists>b' elected.
     hb_timeout example_ble (Follower, NoPhase) Ballot_default = (b', Some elected) \<and>
     elected = Ballot_with 1 5 0 1 \<and> elected = ble_leader b' \<and>
     list_all (\<lambda>r. rep_ballot r \<le> elected) (heartbeat_replies example_ble)"
proof -
  have "no_round_overflow example_ble"
    by code_simp
  moreover have "ble_invar example_ble"
    unfolding example_ble_def by (intro handle_invar with_invar)
  moreover obtain b' where
      "hb_timeout example_ble (Follower, NoPhase) Ballot_default = (b', Some (Ballot_with 1 5 0 1))"
  proof
    show "hb_timeout example_ble (Follower, NoPhase) Ballot_default =
        (fst (hb_timeout example_ble (Follower, NoPhase) Ballot_default), Some (Ballot_with 1 5 0 1))"
      by code_simp
  qed
  ultimately show ?thesis
    using hb_timeout_elects_highest [of example_ble "(Follower, NoPhase)" Ballot_default]
    by (auto simp: list_all_iff)
qed



end
