(* ===== verification/Sequence_Paxos.thy ===== *)
theory Sequence_Paxos
  imports Buffers Internal_Storage Leader_Election
begin

text \<open>
  \<^verbatim>\<open>omnipaxos/src/sequence_paxos/mod.rs\<close>, \<^verbatim>\<open>leader.rs\<close> and \<^verbatim>\<open>follower.rs\<close>: the replica of the log.
  An operation runs synchronously up to the tasks it spawns; a spawned task runs in sections,
  each under the locks it takes, and other tasks run between the sections.

  \<open>SequencePaxos\<close> has the fields of the source, each shared object (storage, buffers, clock,
  outgoing vectors) once, since all its handles refer to the same object. The last fields are
  the runtime's: the spawned tasks with the point each has reached, the waiter of the buffers,
  the \<open>oneshot\<close> channels and the next free channel number. The closures that execute a command
  capture the database; they are functions that take and return it.

  \<open>run_task\<close> runs one section of a task. It returns \<open>None\<close> when the task has to wait, and
  otherwise the state, the rest of the task (if any) and whether the task panicked, which ends
  that task only.
\<close>

datatype 't ProposeErr =
    PendingReconfigEntry 't
  | PendingReconfigConfig ClusterConfig "8 word list option"
  | ProposeConfigError ConfigError ClusterConfig "8 word list option"

record SequencePaxosConfig =
  spc_pid :: NodeId
  spc_peers :: "NodeId list"
  spc_buffer_size :: usize
  spc_batch_size :: usize
  spc_flexible_quorum :: "FlexibleQuorum option"

definition SequencePaxosConfig_from :: "OmniPaxosConfig \<Rightarrow> SequencePaxosConfig" where
  "SequencePaxosConfig_from config =
     (let pid = sc_pid (server_config config)
      in \<lparr>spc_pid = pid,
          spc_peers = peers_of pid (cc_nodes (cluster_config config)),
          spc_buffer_size = sc_buffer_size (server_config config),
          spc_batch_size = sc_batch_size (server_config config),
          spc_flexible_quorum = cc_flexible_quorum (cluster_config config)\<rparr>)"

section \<open>State\<close>

datatype 'a Oneshot = Pending | Sent 'a | Dropped

datatype 't Waiter =
    WaiterIdle
  | WaiterPopped "Chan option" 't
  | WaiterWaiting Chan "Chan option" 't

datatype 't Task =
    ProposeInsert 't bool Speculation
  | ProposeAnnounce usize SystemTime Chan Speculation
  | ProposeAwait Chan Speculation
  | ProposeAck 't u64 Speculation usize
  | SetDecided usize
  | FreeFromLate usize SystemTime
  | StoreMasterTime SystemTime
  | ResyncReply NodeId
  | WakeDeadline Chan
  | SyncStart
  | SyncReadOwn SystemTime
  | SyncAsk OutgoingRef SystemTime
  | SyncWait SystemTime
  | SyncFinish SystemTime SystemTime
  | SyncResync SystemTime

record ('s, 't) SequencePaxos =
  internal_storage :: "('s, 't) InternalStorage"
  buffers :: "'t Buffers"
  clock :: ClockState
  sp_pid :: NodeId
  sp_peers :: "NodeId list"
  sp_state :: "Role \<times> Phase"
  outgoing :: "'t Message list"
  outgoing_clients :: "'t Message list"
  leader_state :: LeaderState
  latest_accepted_meta :: "(Ballot \<times> usize) option"
  tasks :: "'t Task list"
  waiter :: "'t Waiter"
  chans :: "Chan \<Rightarrow> 't Oneshot"
  dchans :: "Chan \<Rightarrow> unit Oneshot"
  next_chan :: Chan

definition spawn :: "'t Task \<Rightarrow> ('s, 't) SequencePaxos \<Rightarrow> ('s, 't) SequencePaxos" where
  "spawn t sp = sp\<lparr>tasks := tasks sp @ [t]\<rparr>"

definition SequencePaxos_with ::
  "('s, 't, 'n) Storage \<Rightarrow> SequencePaxosConfig \<Rightarrow> 's \<Rightarrow> ClockState \<Rightarrow>
   ('s, 't) SequencePaxos StorageResult" where
  "SequencePaxos_with S config st clk =
     (let pid = spc_pid config;
          peers = spc_peers config;
          num_nodes = length peers + 1;
          quorum = Quorum_with (spc_flexible_quorum config) num_nodes
      in try_result (unwrap UNWRAP_ERR (iter_max (\<le>) peers)) (\<lambda>max_peer_pid.
         let max_pid = unat (max max_peer_pid pid)
         in try_result (expect ''storage error while trying to read promise'' (get_promise S st)) (\<lambda>prom.
         let (state, leader) =
               (case prom of
                  Some b \<Rightarrow> ((Follower, Recover), b)
                | None \<Rightarrow> ((Follower, NoPhase), Ballot_default))
         in try_result (InternalStorage_with S st \<lparr>isc_batch_size = spc_batch_size config\<rparr>) (\<lambda>i.
         let (i, r) = InternalStorage_set_promise S i leader
         in try_result (expect WRITE_ERROR_MSG r) (\<lambda>_.
            Inr \<lparr>internal_storage = i, buffers = Buffers_new, clock = clk, sp_pid = pid, sp_peers = peers,
                 sp_state = state, outgoing = [], outgoing_clients = [],
                 leader_state = LeaderState_with leader max_pid quorum, latest_accepted_meta = None,
                 tasks = [], waiter = WaiterIdle, chans = (\<lambda>_. Pending), dchans = (\<lambda>_. Pending),
                 next_chan = 0\<rparr>)))))"

section \<open>Accessors and the outgoing buffers\<close>

definition SequencePaxos_get_state :: "('s, 't) SequencePaxos \<Rightarrow> Role \<times> Phase" where
  "SequencePaxos_get_state sp = sp_state sp"

definition SequencePaxos_get_promise :: "('s, 't) SequencePaxos \<Rightarrow> Ballot" where
  "SequencePaxos_get_promise sp = InternalStorage_get_promise (internal_storage sp)"

definition take_outgoing_msgs ::
  "('s, 't) SequencePaxos \<Rightarrow> 't Message list \<Rightarrow> ('s, 't) SequencePaxos \<times> 't Message list" where
  "take_outgoing_msgs sp buffer =
     (let (sp, buffer) =
            (if buffer = [] then (sp\<lparr>outgoing := buffer\<rparr>, outgoing sp)
             else (sp\<lparr>outgoing := []\<rparr>, buffer @ outgoing sp))
      in (sp\<lparr>latest_accepted_meta := None\<rparr>, buffer))"

definition take_outgoing_client_msgs ::
  "('s, 't) SequencePaxos \<Rightarrow> 't Message list \<Rightarrow> ('s, 't) SequencePaxos \<times> 't Message list" where
  "take_outgoing_client_msgs sp buffer =
     (let (sp, buffer) =
            (if buffer = [] then (sp\<lparr>outgoing_clients := buffer\<rparr>, outgoing_clients sp)
             else (sp\<lparr>outgoing_clients := []\<rparr>, buffer @ outgoing_clients sp))
      in (sp\<lparr>latest_accepted_meta := None\<rparr>, buffer))"

definition SequencePaxos_is_reconfigured :: "('s, 't) SequencePaxos \<Rightarrow> StopSign option" where
  "SequencePaxos_is_reconfigured sp =
     (case InternalStorage_get_stopsign (internal_storage sp) of
        Some ss \<Rightarrow> (if stopsign_is_decided (internal_storage sp) then Some ss else None)
      | None \<Rightarrow> None)"

definition accepted_reconfiguration :: "('s, 't) SequencePaxos \<Rightarrow> bool" where
  "accepted_reconfiguration sp \<longleftrightarrow> InternalStorage_get_stopsign (internal_storage sp) \<noteq> None"

definition SequencePaxos_get_current_leader :: "('s, 't) SequencePaxos \<Rightarrow> NodeId" where
  "SequencePaxos_get_current_leader sp = b_pid (SequencePaxos_get_promise sp)"

definition SequencePaxos_reconnected :: "('s, 't) SequencePaxos \<Rightarrow> NodeId \<Rightarrow> ('s, 't) SequencePaxos" where
  "SequencePaxos_reconnected sp pid =
     (if pid = sp_pid sp then sp
      else if pid = SequencePaxos_get_current_leader sp then sp\<lparr>sp_state := (Follower, Recover)\<rparr>
      else sp)"

section \<open>Follower\<close>

text \<open>\<open>follower.rs\<close>. \<open>e\<close> executes a command on the database \<open>db\<close>.\<close>

definition handle_execution ::
  "('d \<Rightarrow> 't \<Rightarrow> 'd \<times> string option option) \<Rightarrow> 'd \<Rightarrow> ('s, 't) SequencePaxos \<Rightarrow> 't \<Rightarrow> usize \<Rightarrow>
   'd \<times> ('s, 't) SequencePaxos" where
  "handle_execution e db sp entry accepted =
     (let db = (if fst (sp_state sp) = Follower then fst (e db entry) else db)
      in (db, spawn (SetDecided accepted) sp))"

definition handle_new_deadline ::
  "('s, 't) SequencePaxos \<Rightarrow> usize \<Rightarrow> SystemTime \<Rightarrow> ('s, 't) SequencePaxos" where
  "handle_new_deadline sp entry_id new_dl = spawn (FreeFromLate entry_id new_dl) sp"

definition handle_resync_answer :: "('s, 't) SequencePaxos \<Rightarrow> SystemTime \<Rightarrow> ('s, 't) SequencePaxos" where
  "handle_resync_answer sp t = spawn (StoreMasterTime t) sp"

definition handle_resync_request :: "('s, 't) SequencePaxos \<Rightarrow> NodeId \<Rightarrow> ('s, 't) SequencePaxos" where
  "handle_resync_request sp from_id = spawn (ResyncReply from_id) sp"

definition handle_new_proposal ::
  "('d \<Rightarrow> 't \<Rightarrow> 'd \<times> string option option) \<Rightarrow> 'd \<Rightarrow> ('s, 't) SequencePaxos \<Rightarrow> 't \<Rightarrow> bool \<Rightarrow>
   'd \<times> ('s, 't) SequencePaxos" where
  "handle_new_proposal speculate db sp entry im_leader =
     (let (db, speculation) =
            (if im_leader then (let (db, res) = speculate db entry in (db, Some res)) else (db, None))
      in (db, spawn (ProposeInsert entry im_leader speculation) sp))"

definition propose_entry ::
  "('d \<Rightarrow> 't \<Rightarrow> 'd \<times> string option option) \<Rightarrow> 'd \<Rightarrow> ('s, 't) SequencePaxos \<Rightarrow> 't \<Rightarrow>
   'd \<times> ('s, 't) SequencePaxos" where
  "propose_entry s db sp entry =
     (case sp_state sp of
        (Follower, _) \<Rightarrow> handle_new_proposal s db sp entry False
      | (Leader, _) \<Rightarrow> handle_new_proposal s db sp entry True)"

section \<open>The replica\<close>

definition SequencePaxos_append ::
  "('d \<Rightarrow> 't \<Rightarrow> 'd \<times> string option option) \<Rightarrow> 'd \<Rightarrow> ('s, 't) SequencePaxos \<Rightarrow> 't \<Rightarrow>
   'd \<times> ('s, 't) SequencePaxos \<times> ('t ProposeErr + unit)" where
  "SequencePaxos_append s db sp entry =
     (if accepted_reconfiguration sp then (db, sp, Inl (PendingReconfigEntry entry))
      else (let (db, sp) = propose_entry s db sp entry in (db, sp, Inr ())))"

definition SequencePaxos_reconfigure ::
  "('s, 't) SequencePaxos \<Rightarrow> ClusterConfig \<Rightarrow> 8 word list option \<Rightarrow> 't ProposeErr + unit" where
  "SequencePaxos_reconfigure sp new_config meta =
     (if accepted_reconfiguration sp then Inl (PendingReconfigConfig new_config meta)
      else Inr ())"

definition SequencePaxos_handle ::
  "('d \<Rightarrow> 't \<Rightarrow> 'd \<times> string option option) \<Rightarrow> 'd \<Rightarrow> ('s, 't) SequencePaxos \<Rightarrow> 't PaxosMessage \<Rightarrow>
   'd \<times> ('s, 't) SequencePaxos" where
  "SequencePaxos_handle e db sp m =
     (case pm_msg m of
        Ack _ _ _ _ \<Rightarrow> (db, sp)
      | Confirm c accepted \<Rightarrow> handle_execution e db sp c accepted
      | NewDeadline entry_id new_dl \<Rightarrow> (db, handle_new_deadline sp entry_id new_dl)
      | SyncAnswer t \<Rightarrow> (db, handle_resync_answer sp t)
      | SyncReq \<Rightarrow> (db, handle_resync_request sp (pm_from m)))"

definition create_log_sync ::
  "('s, 't, 'n) Storage \<Rightarrow> ('t, 'n) Snapshot \<Rightarrow> ('s, 't) SequencePaxos \<Rightarrow> usize \<Rightarrow> usize \<Rightarrow>
   ('t, 'n) LogSync StorageResult" where
  "create_log_sync S SN sp common_prefix_idx other_logs_decided_idx =
     (let i = internal_storage sp;
          decided = InternalStorage_get_decided_idx i
      in try_result
           (if use_snapshots SN \<and> common_prefix_idx < decided then
              try_result (expect READ_ERROR_MSG (create_diff_snapshot S SN i other_logs_decided_idx))
                (\<lambda>(delta_snapshot, compacted).
              try_result (expect READ_ERROR_MSG (InternalStorage_get_suffix S i decided)) (\<lambda>suffix.
                Inr (delta_snapshot, suffix, compacted)))
            else
              try_result (expect READ_ERROR_MSG (InternalStorage_get_suffix S i common_prefix_idx))
                (\<lambda>suffix. Inr (None, suffix, common_prefix_idx)))
           (\<lambda>(snapshot, suffix, idx).
              Inr \<lparr>decided_snapshot = snapshot, sync_suffix = suffix, sync_idx = idx,
                   sync_stopsign = InternalStorage_get_stopsign i\<rparr>))"

section \<open>Leader\<close>

definition become_follower :: "('s, 't) SequencePaxos \<Rightarrow> ('s, 't) SequencePaxos" where
  "become_follower sp = sp\<lparr>sp_state := (Follower, snd (sp_state sp))\<rparr>"

definition handle_leader ::
  "('s, 't, 'n) Storage \<Rightarrow> ('s, 't) SequencePaxos \<Rightarrow> Ballot \<Rightarrow>
   ('s, 't) SequencePaxos \<times> unit StorageResult" where
  "handle_leader S sp n =
     (if n \<le> n_leader (leader_state sp) \<or> n \<le> SequencePaxos_get_promise sp then (sp, Inr ())
      else if sp_pid sp = b_pid n then
        (let sp = sp\<lparr>leader_state := LeaderState_with n (ls_max_pid (leader_state sp))
                                        (ls_quorum (leader_state sp))\<rparr>;
             (i, r) = flush_batch S (internal_storage sp);
             sp = sp\<lparr>internal_storage := i\<rparr>
         in try_state (sp, expect WRITE_ERROR_MSG r) (\<lambda>sp _.
              let (i, r) = InternalStorage_set_promise S (internal_storage sp) n;
                  sp = sp\<lparr>internal_storage := i\<rparr>
              in try_state (sp, expect WRITE_ERROR_MSG r) (\<lambda>sp _.
                   (sp\<lparr>sp_state := (Leader, Prepare)\<rparr>, Inr ()))))
      else (become_follower sp, Inr ()))"

section \<open>Tasks\<close>

text \<open>Dropping a sender closes its channel unless something was sent.\<close>

definition drop_sender :: "Chan option \<Rightarrow> (Chan \<Rightarrow> 'a Oneshot) \<Rightarrow> (Chan \<Rightarrow> 'a Oneshot)" where
  "drop_sender ch cs =
     (case ch of None \<Rightarrow> cs | Some c \<Rightarrow> (case cs c of Pending \<Rightarrow> cs(c := Dropped) | _ \<Rightarrow> cs))"

definition paxos_msg :: "NodeId \<Rightarrow> NodeId \<Rightarrow> 't PaxosMsg \<Rightarrow> 't Message" where
  "paxos_msg from_id to_id m = SequencePaxos \<lparr>pm_from = from_id, pm_to = to_id, pm_msg = m\<rparr>"

type_synonym ('s, 't) TaskResult = "(('s, 't) SequencePaxos \<times> 't Task list \<times> unit StorageResult) option"

fun run_task ::
  "('s, 't, 'n) Storage \<Rightarrow> 't Request \<Rightarrow> SystemTime \<Rightarrow> ('s, 't) SequencePaxos \<Rightarrow> 't Task \<Rightarrow>
   ('s, 't) TaskResult" where
  "run_task S R now sp (ProposeInsert entry im_leader speculation) =
     (let tx = next_chan sp;
          old = notifiers (buffers sp) (get_id R entry);
          (b, new_dl) = Buffers_insert R (clock sp) (buffers sp) entry im_leader tx;
          sp = sp\<lparr>buffers := b, next_chan := tx + 1, chans := drop_sender old (chans sp)\<rparr>
      in case new_dl of
           Some d \<Rightarrow> Some (sp, [ProposeAnnounce (get_id R entry) d tx speculation], Inr ())
         | None \<Rightarrow> Some (sp, [ProposeAwait tx speculation], Inr ()))"
| "run_task S R now sp (ProposeAnnounce entry_id d rx speculation) =
     Some (sp\<lparr>outgoing := outgoing sp @
                map (\<lambda>peer. paxos_msg (sp_pid sp) peer (NewDeadline entry_id d)) (sp_peers sp)\<rparr>,
           [ProposeAwait rx speculation], Inr ())"
| "run_task S R now sp (ProposeAwait rx speculation) =
     (case chans sp rx of
        Pending \<Rightarrow> None
      | Dropped \<Rightarrow> Some (sp, [], Inr ())
      | Sent req \<Rightarrow>
          (let (i, r) = append_entries_and_get_accepted_idx S (internal_storage sp) [req];
               sp = sp\<lparr>internal_storage := i\<rparr>
           in case try_result (expect WRITE_ERROR_MSG r) (unwrap ''called Option::unwrap() on a None value'') of
                Inl e \<Rightarrow> Some (sp, [], Inl e)
              | Inr accepted \<Rightarrow>
                  Some (sp, [ProposeAck req (history_hash S (storage i)) speculation accepted], Inr ())))"
| "run_task S R now sp (ProposeAck req hash speculation accepted) =
     Some (sp\<lparr>outgoing_clients := outgoing_clients sp @
                [paxos_msg (sp_pid sp) (request_client_id R req) (Ack req hash speculation accepted)]\<rparr>,
           [], Inr ())"
| "run_task S R now sp (SetDecided accepted) =
     (let (i, r) = InternalStorage_set_decided_idx S (internal_storage sp) accepted
      in Some (sp\<lparr>internal_storage := i\<rparr>, [], expect WRITE_ERROR_MSG r))"
| "run_task S R now sp (FreeFromLate entry_id d) =
     Some (sp\<lparr>buffers := free_from_late R (buffers sp) entry_id d\<rparr>, [], Inr ())"
| "run_task S R now sp (StoreMasterTime t) =
     (if length (master_times (clock sp)) < 100
      then Some (sp\<lparr>clock := (clock sp)\<lparr>master_times := master_times (clock sp) @ [t]\<rparr>\<rparr>, [], Inr ())
      else None)"
| "run_task S R now sp (ResyncReply from_id) =
     Some (sp\<lparr>outgoing := outgoing sp @ [paxos_msg 1 from_id (SyncAnswer (get_time (clock sp)))]\<rparr>, [], Inr ())"
| "run_task S R now sp (WakeDeadline tx) =
     Some (sp\<lparr>dchans := (dchans sp)(tx := Sent ())\<rparr>, [], Inr ())"
| "run_task S R now sp SyncStart =
     (if master (clock sp) = 1 then Some (sp, [SyncReadOwn now], Inr ())
      else Some (sp, [SyncAsk (clock_outgoing (clock sp)) now], Inr ()))"
| "run_task S R now sp (SyncReadOwn t0) =
     Some (sp, [SyncFinish (get_time (clock sp)) t0], Inr ())"
| "run_task S R now sp (SyncAsk out t0) =
     Some (case out of
             PrivateOutgoing \<Rightarrow> sp
           | ReplicaOutgoing \<Rightarrow>
               sp\<lparr>outgoing := outgoing sp @ [paxos_msg (master (clock sp)) 1 SyncReq]\<rparr>,
           [SyncWait t0], Inr ())"
| "run_task S R now sp (SyncWait t0) =
     (case master_times (clock sp) of
        [] \<Rightarrow> None
      | t # ts \<Rightarrow> Some (sp\<lparr>clock := (clock sp)\<lparr>master_times := ts\<rparr>\<rparr>, [SyncFinish t t0], Inr ()))"
| "run_task S R now sp (SyncFinish leader_time t0) =
     (case corrected_time leader_time t0 now of
        Inl _ \<Rightarrow> Some (sp, [], Inl (Panic ''duration_since''))
      | Inr t \<Rightarrow> Some (sp, [SyncResync t], Inr ()))"
| "run_task S R now sp (SyncResync t) =
     Some (sp\<lparr>clock := resync (clock sp) t\<rparr>, [], Inr ())"

section \<open>The waiter and the clock\<close>

definition waiter_take :: "'t Request \<Rightarrow> ('s, 't) SequencePaxos \<Rightarrow> 't \<Rightarrow> ('s, 't) SequencePaxos option" where
  "waiter_take R sp req =
     (case waiter sp of
        WaiterIdle \<Rightarrow>
          map_option (\<lambda>(b, sender). sp\<lparr>buffers := b, waiter := WaiterPopped sender req\<rparr>)
            (waiter_pop R (buffers sp) req)
      | _ \<Rightarrow> None)"

definition waiter_register :: "'t Request \<Rightarrow> ('s, 't) SequencePaxos \<Rightarrow> ('s, 't) SequencePaxos option" where
  "waiter_register R sp =
     (case waiter sp of
        WaiterPopped sender req \<Rightarrow>
          (let tx = next_chan sp; d = get_deadline R req
           in Some (sp\<lparr>clock := add_deadline (clock sp) d tx, next_chan := tx + 1,
                       dchans := drop_sender (database (clock sp) d) (dchans sp),
                       waiter := WaiterWaiting tx sender req\<rparr>))
      | _ \<Rightarrow> None)"

definition waiter_notify :: "('s, 't) SequencePaxos \<Rightarrow> ('s, 't) SequencePaxos option" where
  "waiter_notify sp =
     (case waiter sp of
        WaiterWaiting rx sender req \<Rightarrow>
          (case dchans sp rx of
             Pending \<Rightarrow> None
           | Dropped \<Rightarrow> Some (sp\<lparr>waiter := WaiterIdle, chans := drop_sender sender (chans sp)\<rparr>)
           | Sent _ \<Rightarrow>
               (case sender of
                  Some tx \<Rightarrow> Some (sp\<lparr>waiter := WaiterIdle, chans := (chans sp)(tx := Sent req)\<rparr>)
                | None \<Rightarrow> Some (sp\<lparr>waiter := WaiterIdle\<rparr>)))
      | _ \<Rightarrow> None)"

definition clock_tick :: "bool \<Rightarrow> ('s, 't) SequencePaxos \<Rightarrow> ('s, 't) SequencePaxos" where
  "clock_tick fast sp =
     (let (c, woken, do_sync) = tick_fn fast (clock sp)
      in sp\<lparr>clock := c, tasks := tasks sp @ map WakeDeadline woken @ (if do_sync then [SyncStart] else [])\<rparr>)"

section \<open>Runs of a replica\<close>

text \<open>
  One step of a replica: a call from the outside, or one section of one of its tasks, of the
  waiter or of the clock. The events carry the choices the code leaves open: which task runs,
  what the wall clock shows, the sign of the drift, which of the earliest requests is popped.
\<close>

datatype 't Event =
    RunTask nat SystemTime
  | Tick bool
  | WaiterTake 't
  | WaiterRegister
  | WaiterNotify
  | Propose 't
  | Deliver "'t PaxosMessage"
  | NewLeader Ballot
  | Reconnected NodeId
  | TakeOutgoing
  | TakeClientOutgoing

text \<open>
  A replica with the database its commands run on and what the outside has seen of it: the
  proposals accepted, the client messages fetched and the panics.
\<close>

record ('s, 't, 'd) World =
  replica :: "('s, 't) SequencePaxos"
  world_db :: 'd
  proposed :: "'t list"
  fetched :: "'t Message list"
  panics :: "unit StorageResult list"

fun world_step ::
  "('s, 't, 'n) Storage \<Rightarrow> 't Request \<Rightarrow> ('d \<Rightarrow> 't \<Rightarrow> 'd \<times> string option option) \<Rightarrow>
   ('s, 't, 'd) World \<Rightarrow> 't Event \<Rightarrow> ('s, 't, 'd) World option" where
  "world_step S R e w (RunTask k now) =
     (if k < length (tasks (replica w)) then
        (case run_task S R now ((replica w)\<lparr>tasks := take k (tasks (replica w)) @ drop (Suc k) (tasks (replica w))\<rparr>)
                (tasks (replica w) ! k) of
           None \<Rightarrow> None
         | Some (sp, rest, r) \<Rightarrow>
             Some (w\<lparr>replica := sp\<lparr>tasks := tasks sp @ rest\<rparr>,
                     panics := panics w @ (case r of Inl _ \<Rightarrow> [r] | Inr _ \<Rightarrow> [])\<rparr>))
      else None)"
| "world_step S R e w (Tick fast) = Some (w\<lparr>replica := clock_tick fast (replica w)\<rparr>)"
| "world_step S R e w (WaiterTake req) =
     map_option (\<lambda>sp. w\<lparr>replica := sp\<rparr>) (waiter_take R (replica w) req)"
| "world_step S R e w WaiterRegister =
     map_option (\<lambda>sp. w\<lparr>replica := sp\<rparr>) (waiter_register R (replica w))"
| "world_step S R e w WaiterNotify =
     map_option (\<lambda>sp. w\<lparr>replica := sp\<rparr>) (waiter_notify (replica w))"
| "world_step S R e w (Propose entry) =
     (let (db, sp, r) = SequencePaxos_append e (world_db w) (replica w) entry
      in Some (w\<lparr>replica := sp, world_db := db,
                 proposed := (case r of Inl _ \<Rightarrow> proposed w | Inr _ \<Rightarrow> proposed w @ [entry])\<rparr>))"
| "world_step S R e w (Deliver m) =
     (let (db, sp) = SequencePaxos_handle e (world_db w) (replica w) m
      in Some (w\<lparr>replica := sp, world_db := db\<rparr>))"
| "world_step S R e w (NewLeader n) =
     (let (sp, r) = handle_leader S (replica w) n
      in Some (w\<lparr>replica := sp, panics := panics w @ (case r of Inl _ \<Rightarrow> [r] | Inr _ \<Rightarrow> [])\<rparr>))"
| "world_step S R e w (Reconnected pid) =
     Some (w\<lparr>replica := SequencePaxos_reconnected (replica w) pid\<rparr>)"
| "world_step S R e w TakeOutgoing =
     Some (w\<lparr>replica := fst (take_outgoing_msgs (replica w) [])\<rparr>)"
| "world_step S R e w TakeClientOutgoing =
     (let (sp, msgs) = take_outgoing_client_msgs (replica w) []
      in Some (w\<lparr>replica := sp, fetched := fetched w @ msgs\<rparr>))"

fun world_run ::
  "('s, 't, 'n) Storage \<Rightarrow> 't Request \<Rightarrow> ('d \<Rightarrow> 't \<Rightarrow> 'd \<times> string option option) \<Rightarrow>
   ('s, 't, 'd) World \<Rightarrow> 't Event list \<Rightarrow> ('s, 't, 'd) World option" where
  "world_run S R e w [] = Some w"
| "world_run S R e w (ev # evs) = Option.bind (world_step S R e w ev) (\<lambda>w. world_run S R e w evs)"

definition world_init :: "('s, 't) SequencePaxos \<Rightarrow> 'd \<Rightarrow> ('s, 't, 'd) World" where
  "world_init sp db = \<lparr>replica = sp, world_db = db, proposed = [], fetched = [], panics = []\<rparr>"

text \<open>The worlds a replica can reach.\<close>

inductive reachable ::
  "('s, 't, 'n) Storage \<Rightarrow> 't Request \<Rightarrow> ('d \<Rightarrow> 't \<Rightarrow> 'd \<times> string option option) \<Rightarrow>
   ('s, 't, 'd) World \<Rightarrow> ('s, 't, 'd) World \<Rightarrow> bool" for S R e w0 where
  init: "reachable S R e w0 w0"
| step: "reachable S R e w0 w \<Longrightarrow> world_step S R e w ev = Some w' \<Longrightarrow> reachable S R e w0 w'"

lemma run_reachable: "world_run S R e w evs = Some w' \<Longrightarrow> reachable S R e w0 w \<Longrightarrow> reachable S R e w0 w'"
proof (induction evs arbitrary: w)
  case (Cons ev evs)
  then show ?case by (auto simp: bind_eq_Some_conv intro: reachable.step)
qed simp

end
