(* ===== verification/Common.thy ===== *)
theory Common
  imports Buffers Memory_Storage
begin

text \<open>
  \<^verbatim>\<open>src/common.rs\<close>: the commands of the key-value store and the messages between clients, the
  proxy and the servers; \<^verbatim>\<open>src/server/database.rs\<close>: the store itself.

  Shown: the store behaves like a map, \<open>Command\<close> satisfies the laws of \<open>Request\<close>, and what
  \<open>history_hash\<close> feeds the hasher determines the sequence of command ids and operations of a
  log, and nothing else of it.
\<close>

section \<open>Commands\<close>

datatype KVCommand = Put string string | Delete string | Get string

record Command =
  client_id :: ClientId
  coordinator_id :: NodeId
  cmd_id :: CommandId
  private_id :: CommandId
  deadline :: SystemTime
  kv_cmd :: KVCommand

text \<open>
  \<open>Hash\<close>: derived for \<open>KVCommand\<close> (the discriminant as \<open>isize\<close>, then the fields) and written by
  hand for \<open>Command\<close>.
\<close>

fun KVCommand_hash :: "KVCommand \<Rightarrow> HashToken list" where
  "KVCommand_hash (Put key v) = [WriteIsize 0, WriteStr key, WriteStr v]"
| "KVCommand_hash (Delete key) = [WriteIsize 1, WriteStr key]"
| "KVCommand_hash (Get key) = [WriteIsize 2, WriteStr key]"

definition Command_hash :: "Command \<Rightarrow> HashToken list" where
  "Command_hash c = WriteUsize (cmd_id c) # KVCommand_hash (kv_cmd c)"

text \<open>\<open>impl Request for Command\<close>.\<close>

definition Command_request :: "Command Request" where
  "Command_request =
     \<lparr>get_deadline = deadline, set_deadline = (\<lambda>c d. c\<lparr>deadline := d\<rparr>), get_id = private_id,
      request_client_id = client_id\<rparr>"

interpretation cmd: request Command_request
  by unfold_locales (simp_all add: Command_request_def)

section \<open>Messages\<close>

type_synonym Timestamp = int

datatype RegistrationMessage = NodeRegister NodeId | ClientRegister

datatype PRCommand =
    PRPut u64 "usize \<times> Speculation"
  | PRDelete u64
  | PRGet u64

datatype ClusterMessage = OmniPaxosMessage "Command Message" | LeaderStartSignal Timestamp

datatype ClientMessage = Append CommandId KVCommand | ClientAck Command usize

datatype ServerMessage =
    Write CommandId
  | Read CommandId "string option"
  | ServerAck Command u64 Speculation usize
  | StartSignal Timestamp

fun command_id :: "ServerMessage \<Rightarrow> (unit, CommandId) result" where
  "command_id (Write i) = Inr i"
| "command_id (Read i _) = Inr i"
| "command_id (ServerAck c _ _ _) = Inr (cmd_id c)"
| "command_id (StartSignal _) = Inl (Panic ''not implemented'')"

section \<open>The database of a server\<close>

type_synonym Database = "string \<rightharpoonup> string"

definition Database_new :: Database where
  "Database_new = Map.empty"

fun Database_handle_command :: "Database \<Rightarrow> KVCommand \<Rightarrow> Database \<times> string option option" where
  "Database_handle_command db (Put key v) = (db(key \<mapsto> v), None)"
| "Database_handle_command db (Delete key) = (db(key := None), None)"
| "Database_handle_command db (Get key) = (db, Some (db key))"

definition db_apply :: "Database \<Rightarrow> KVCommand list \<Rightarrow> Database" where
  "db_apply db cmds = foldl (\<lambda>d c. fst (Database_handle_command d c)) db cmds"

text \<open>The last write to a key among some commands: the value put, or \<open>None\<close> for a deletion.\<close>

fun last_write :: "string \<Rightarrow> KVCommand list \<Rightarrow> string option option" where
  "last_write k [] = None"
| "last_write k (c # cs) =
     (case last_write k cs of
        Some w \<Rightarrow> Some w
      | None \<Rightarrow> (case c of Put key v \<Rightarrow> if key = k then Some (Some v) else None
                 | Delete key \<Rightarrow> if key = k then Some None else None
                 | Get _ \<Rightarrow> None))"

lemma db_apply_last_write:
  "db_apply db cmds k = (case last_write k cmds of None \<Rightarrow> db k | Some w \<Rightarrow> w)"
proof (induction cmds arbitrary: db)
  case Nil
  then show ?case by (simp add: db_apply_def)
next
  case (Cons c cs)
  have "db_apply db (c # cs) k = db_apply (fst (Database_handle_command db c)) cs k"
    by (simp add: db_apply_def)
  with Cons show ?case by (cases c) (auto split: option.splits)
qed

text \<open>
  A read answers with the most recent write: after any sequence of commands on a new
  database, \<open>Get key\<close> leaves the database alone and returns the value of the last \<open>Put\<close> of the
  key, or nothing when the key was never put or was deleted since.
\<close>

theorem get_returns_last_write:
  "Database_handle_command (db_apply Database_new cmds) (Get key) =
     (db_apply Database_new cmds,
      Some (case last_write key cmds of None \<Rightarrow> None | Some w \<Rightarrow> w))"
  by (simp add: db_apply_last_write Database_new_def)

section \<open>What the history hash covers\<close>

lemma KVCommand_hash_inject:
  "KVCommand_hash c @ rest = KVCommand_hash c' @ rest' \<longleftrightarrow> c = c' \<and> rest = rest'"
  by (cases c; cases c') auto

lemma history_tokens_inject:
  "concat (map Command_hash xs) = concat (map Command_hash ys) \<longleftrightarrow>
   map (\<lambda>c. (cmd_id c, kv_cmd c)) xs = map (\<lambda>c. (cmd_id c, kv_cmd c)) ys"
proof (induction xs arbitrary: ys)
  case Nil
  show ?case by (cases ys) (auto simp: Command_hash_def)
next
  case (Cons x xs)
  then show ?case
    by (cases ys) (auto simp: Command_hash_def KVCommand_hash_inject)
qed

lemma all_hashers_agree: "(\<forall>f. (f x :: u64) = f y) \<longleftrightarrow> x = y"
proof
  assume "\<forall>f. (f x :: u64) = f y"
  from this [rule_format, of "\<lambda>z. if z = x then 0 else 1"] show "x = y"
    by (auto split: if_splits)
qed simp

text \<open>
  C25. The history hash identifies a log up to what it hashes: two logs have the same
  history hash under every hasher exactly when they hold the same command ids and operations
  in the same order. Clients, coordinators, private ids and deadlines do not matter.
\<close>

theorem history_hash_identifies_log:
  "(\<forall>finish. MemoryStorage_history_hash Command_hash finish s =
             MemoryStorage_history_hash Command_hash finish s') \<longleftrightarrow>
   map (\<lambda>c. (cmd_id c, kv_cmd c)) (ms_log s) = map (\<lambda>c. (cmd_id c, kv_cmd c)) (ms_log s')"
  by (simp add: history_hash_concat history_tokens_inject all_hashers_agree)

end
