(* ===== verification/Sequence_Paxos_Laws.thy ===== *)
theory Sequence_Paxos_Laws
  imports Sequence_Paxos Internal_Storage_Laws Common
begin

text \<open>
  What a replica guarantees under every interleaving of its tasks, for any lawful storage and
  request type (locale \<open>paxos_replica\<close>), and for the server's instance.

  The invariant follows a proposal through the replica: from the spawned task into the buffers,
  to the waiter, through its channel and into the log, and then to the client as an
  acknowledgement. Every proposal is at exactly one of these places at any time, and every
  log position is acknowledged exactly once, with the hash of the log up to that position.
\<close>

section \<open>Where proposals are\<close>

fun task_inserts :: "'t Task \<Rightarrow> 't list" where
  "task_inserts (ProposeInsert entry _ _) = [entry]"
| "task_inserts _ = []"

fun task_chans :: "'t Task \<Rightarrow> Chan list" where
  "task_chans (ProposeAnnounce _ _ rx _) = [rx]"
| "task_chans (ProposeAwait rx _) = [rx]"
| "task_chans _ = []"

fun task_acks :: "'t Task \<Rightarrow> ('t \<times> u64 \<times> usize) list" where
  "task_acks (ProposeAck req hash _ accepted) = [(req, hash, accepted)]"
| "task_acks _ = []"

fun task_wakes :: "'t Task \<Rightarrow> Chan list" where
  "task_wakes (WakeDeadline tx) = [tx]"
| "task_wakes _ = []"

fun waiter_req :: "'t Waiter \<Rightarrow> 't list" where
  "waiter_req WaiterIdle = []"
| "waiter_req (WaiterPopped _ req) = [req]"
| "waiter_req (WaiterWaiting _ _ req) = [req]"

fun waiter_sender :: "'t Waiter \<Rightarrow> Chan option list" where
  "waiter_sender WaiterIdle = []"
| "waiter_sender (WaiterPopped sender _) = [sender]"
| "waiter_sender (WaiterWaiting _ sender _) = [sender]"

fun sent_value :: "'a Oneshot \<Rightarrow> 'a list" where
  "sent_value (Sent x) = [x]"
| "sent_value _ = []"

definition inserting :: "('s, 't) SequencePaxos \<Rightarrow> 't list" where
  "inserting sp = concat (map task_inserts (tasks sp))"

definition awaiting :: "('s, 't) SequencePaxos \<Rightarrow> Chan list" where
  "awaiting sp = concat (map task_chans (tasks sp))"

definition waking :: "('s, 't) SequencePaxos \<Rightarrow> Chan list" where
  "waking sp = concat (map task_wakes (tasks sp))"

definition queued :: "'t Buffers \<Rightarrow> 't list" where
  "queued b = early b @ map snd (late b)"

definition delivered :: "('s, 't) SequencePaxos \<Rightarrow> 't list" where
  "delivered sp = concat (map (\<lambda>ch. sent_value (chans sp ch)) (awaiting sp))"

definition in_flight :: "('s, 't) SequencePaxos \<Rightarrow> 't list" where
  "in_flight sp = inserting sp @ queued (buffers sp) @ waiter_req (waiter sp) @ delivered sp"

text \<open>Acknowledgements: produced and not yet queued, queued for the clients, or fetched.\<close>

fun message_acks :: "'t Message \<Rightarrow> ('t \<times> u64 \<times> usize) list" where
  "message_acks (SequencePaxos p) =
     (case pm_msg p of Ack req hash _ accepted \<Rightarrow> [(req, hash, accepted)] | _ \<Rightarrow> [])"
| "message_acks (BLE _) = []"

definition all_acks :: "('s, 't, 'd) World \<Rightarrow> ('t \<times> u64 \<times> usize) list" where
  "all_acks w = concat (map message_acks (fetched w)) @
     concat (map message_acks (outgoing_clients (replica w))) @
     concat (map task_acks (tasks (replica w)))"

definition replica_log :: "('s \<Rightarrow> ('t, 'n) StoreView) \<Rightarrow> ('s, 't) SequencePaxos \<Rightarrow> 't list" where
  "replica_log view sp = v_log (view (storage (internal_storage sp)))"

section \<open>The invariant\<close>

text \<open>
  Channels: a proposal's task waits on its own channel, and the channels still waited for are
  exactly those whose sender is registered for a buffered request or held by the waiter.
\<close>

definition senders :: "'t Request \<Rightarrow> ('s, 't) SequencePaxos \<Rightarrow> Chan option list" where
  "senders R sp = map (\<lambda>r. notifiers (buffers sp) (get_id R r)) (queued (buffers sp)) @
     waiter_sender (waiter sp)"

definition pending_chans :: "('s, 't) SequencePaxos \<Rightarrow> Chan multiset" where
  "pending_chans sp = filter_mset (\<lambda>ch. chans sp ch = Pending) (mset (awaiting sp))"

definition late_ok :: "'t Request \<Rightarrow> 't Buffers \<Rightarrow> bool" where
  "late_ok R b \<longleftrightarrow> distinct (map fst (late b)) \<and> (\<forall>(k, r)\<in>set (late b). k = get_id R r)"

definition wired :: "'t Request \<Rightarrow> ('s, 't) SequencePaxos \<Rightarrow> bool" where
  "wired R sp \<longleftrightarrow>
     distinct (awaiting sp) \<and>
     (\<forall>ch\<in>set (awaiting sp). ch < next_chan sp \<and> chans sp ch \<noteq> Dropped) \<and>
     (\<forall>ch\<ge>next_chan sp. chans sp ch = Pending) \<and>
     mset (senders R sp) = image_mset Some (pending_chans sp) \<and>
     dom (notifiers (buffers sp)) \<subseteq> get_id R ` set (queued (buffers sp)) \<and>
     late_ok R (buffers sp)"

text \<open>
  The clock knows at most the one deadline the waiter waits for, and once it has dropped that
  deadline the waiter has been woken or a task is about to wake it.
\<close>

definition timed :: "'t Request \<Rightarrow> ('s, 't) SequencePaxos \<Rightarrow> bool" where
  "timed R sp \<longleftrightarrow>
     (\<forall>ch\<ge>next_chan sp. dchans sp ch = Pending) \<and>
     (\<forall>ch\<in>set (waking sp). ch < next_chan sp) \<and>
     (case waiter sp of
        WaiterWaiting rx _ req \<Rightarrow>
          rx < next_chan sp \<and> dchans sp rx \<noteq> Dropped \<and>
          (deadlines (clock sp) = [get_deadline R req] \<and>
           database (clock sp) = [get_deadline R req \<mapsto> rx] \<and>
           dchans sp rx = Pending \<and> rx \<notin> set (waking sp)
         \<or> deadlines (clock sp) = [] \<and> database (clock sp) = Map.empty \<and>
           (rx \<in> set (waking sp) \<or> dchans sp rx = Sent ()))
      | _ \<Rightarrow> deadlines (clock sp) = [] \<and> database (clock sp) = Map.empty)"

definition stored ::
  "('s \<Rightarrow> ('t, 'n) StoreView) \<Rightarrow> ('s \<Rightarrow> bool) \<Rightarrow> ('s, 't) InternalStorage \<Rightarrow> bool" where
  "stored view invar i \<longleftrightarrow>
     coherent view invar i \<and> batch_size (state_cache i) = 1 \<and> batched_entries (state_cache i) = [] \<and>
     v_stopsign (view (storage i)) = None \<and> v_offset (view (storage i)) = 0"

text \<open>Position \<open>i\<close> of the log is the acknowledged request, and the hash is that of the log so far.\<close>

definition ack_ok :: "('t list \<Rightarrow> u64) \<Rightarrow> 't list \<Rightarrow> 't \<times> u64 \<times> usize \<Rightarrow> bool" where
  "ack_ok hash_of l a \<longleftrightarrow> (case a of (req, hash, i) \<Rightarrow>
     0 < i \<and> i \<le> length l \<and> l ! (i - 1) = req \<and> hash = hash_of (take i l))"

text \<open>A request up to its deadline, which buffering may change.\<close>

definition request_core :: "'t Request \<Rightarrow> 't \<Rightarrow> 't" where
  "request_core R r = set_deadline R r 0"

definition conserved ::
  "('s \<Rightarrow> ('t, 'n) StoreView) \<Rightarrow> 't Request \<Rightarrow> ('s, 't, 'd) World \<Rightarrow> bool" where
  "conserved view R w \<longleftrightarrow>
     mset (map (request_core R) (in_flight (replica w) @ replica_log view (replica w))) =
     mset (map (request_core R) (proposed w))"

definition acked ::
  "('t list \<Rightarrow> u64) \<Rightarrow> ('s \<Rightarrow> ('t, 'n) StoreView) \<Rightarrow> ('s, 't, 'd) World \<Rightarrow> bool" where
  "acked hash_of view w \<longleftrightarrow>
     (\<forall>a\<in>set (all_acks w). ack_ok hash_of (replica_log view (replica w)) a) \<and>
     mset (map (snd \<circ> snd) (all_acks w)) = mset [1..<length (replica_log view (replica w)) + 1]"

lemmas place_defs = inserting_def awaiting_def waking_def delivered_def in_flight_def senders_def
  pending_chans_def

lemma ack_ok_append: "ack_ok h l a \<Longrightarrow> ack_ok h (l @ l') a"
  by (auto simp: ack_ok_def nth_append)

section \<open>The buffers\<close>

lemma delete_key_mset:
  assumes "distinct (map fst xs)" and "map_of xs k = Some v"
  shows "mset (map snd xs) = add_mset v (mset (map snd (AList.delete k xs)))"
  using assms
proof (induction xs)
  case (Cons p xs)
  show ?case
  proof (cases "fst p = k")
    case True
    with Cons.prems have "AList.delete k xs = xs" "snd p = v"
      by (auto simp: AList.delete_idem split: if_splits prod.splits)
    with True show ?thesis by (cases p) simp
  next
    case False
    with Cons show ?thesis by (cases p) auto
  qed
qed simp

lemma update_new_key: "k \<notin> fst ` set xs \<Longrightarrow> AList.update k v xs = xs @ [(k, v)]"
  by (induction xs) auto

context request
begin

lemma insert_queued:
  assumes "late_ok R b" and "get_id R r \<notin> get_id R ` set (queued b)"
    and "Buffers_insert R clk b r im_leader tx = (b', nd)"
  shows "late_ok R b'" and "notifiers b' = (notifiers b)(get_id R r \<mapsto> tx)"
    and "\<exists>r'. request_core R r' = request_core R r \<and> get_id R r' = get_id R r \<and>
           mset (queued b') = add_mset r' (mset (queued b))"
proof -
  have "get_id R r \<notin> fst ` set (late b)"
    using assms(1,2) by (force simp: late_ok_def queued_def image_iff)
  note upd = update_new_key [OF this, of r]
  show "late_ok R b'"
    using assms upd \<open>get_id R r \<notin> fst ` set (late b)\<close>
    by (auto simp: Buffers_insert_def late_ok_def Let_def split: if_splits)
  show "notifiers b' = (notifiers b)(get_id R r \<mapsto> tx)"
    using assms(3) by (auto simp: Buffers_insert_def Let_def split: if_splits)
  show "\<exists>r'. request_core R r' = request_core R r \<and> get_id R r' = get_id R r \<and>
      mset (queued b') = add_mset r' (mset (queued b))"
    using assms(3) upd
    by (auto simp: Buffers_insert_def queued_def heap_push_def request_core_def Let_def split: if_splits
        intro: exI [of _ r] exI [of _ "set_deadline R r (new_deadline clk)"])
qed

lemma free_queued:
  assumes "late_ok R b"
  shows "late_ok R (free_from_late R b k d)"
    and "notifiers (free_from_late R b k d) = notifiers b"
    and "image_mset (request_core R) (mset (queued (free_from_late R b k d))) =
         image_mset (request_core R) (mset (queued b))"
    and "image_mset (get_id R) (mset (queued (free_from_late R b k d))) =
         image_mset (get_id R) (mset (queued b))"
proof -
  show "late_ok R (free_from_late R b k d)"
    using assms by (auto simp: free_from_late_def late_ok_def AList.delete_eq distinct_map_filter split: option.split)
  show "notifiers (free_from_late R b k d) = notifiers b"
    by (simp add: free_from_late_def split: option.split)
  have split: "mset (map snd (late b)) = add_mset r (mset (map snd (AList.delete k (late b))))"
    if "map_of (late b) k = Some r" for r
    using assms that by (intro delete_key_mset) (auto simp: late_ok_def)
  show "image_mset (request_core R) (mset (queued (free_from_late R b k d))) =
      image_mset (request_core R) (mset (queued b))"
    using arg_cong [OF split, of _ "image_mset (request_core R)"]
    by (auto simp: free_from_late_def queued_def heap_push_def request_core_def split: option.split)
  show "image_mset (get_id R) (mset (queued (free_from_late R b k d))) =
      image_mset (get_id R) (mset (queued b))"
    using arg_cong [OF split, of _ "image_mset (get_id R)"]
    by (auto simp: free_from_late_def queued_def heap_push_def split: option.split)
qed

lemma pop_queued:
  assumes "waiter_pop R b r = Some (b', sender)"
  shows "mset (queued b) = add_mset r (mset (queued b'))" and "late b' = late b"
    and "sender = notifiers b (get_id R r)" and "notifiers b' = (notifiers b)(get_id R r := None)"
  using assms by (auto simp: waiter_pop_def queued_def heap_pop_def split: if_splits)

end

section \<open>Preservation\<close>

lemma mset_add_mset_list:
  assumes "mset xs = add_mset x (mset ys)"
  shows "set xs = insert x (set ys)" and "distinct xs \<longleftrightarrow> x \<notin> set ys \<and> distinct ys"
proof -
  have "mset xs = mset (x # ys)" using assms by simp
  from mset_eq_setD [OF this] mset_eq_imp_distinct_iff [OF this]
  show "set xs = insert x (set ys)" "distinct xs \<longleftrightarrow> x \<notin> set ys \<and> distinct ys" by simp_all
qed

text \<open>Each part of the invariant depends on a few parts of the state only.\<close>

lemma wired_cong:
  assumes "wired R sp" and "mset (awaiting sp') = mset (awaiting sp)" and "next_chan sp' = next_chan sp"
    and "chans sp' = chans sp" and "buffers sp' = buffers sp" and "waiter_sender (waiter sp') = waiter_sender (waiter sp)"
  shows "wired R sp'"
  using assms mset_eq_setD [OF assms(2)] mset_eq_imp_distinct_iff [OF assms(2)]
  by (simp add: wired_def senders_def pending_chans_def)

lemma timed_cong:
  assumes "timed R sp" and "set (waking sp') = set (waking sp)" and "next_chan sp \<le> next_chan sp'"
    and "dchans sp' = dchans sp" and "waiter sp' = waiter sp"
    and "deadlines (clock sp') = deadlines (clock sp)" and "database (clock sp') = database (clock sp)"
  shows "timed R sp'"
  using assms by (auto simp: timed_def split: Waiter.splits)

lemma concat_map_mset: "mset (concat (map f xs)) = (\<Sum>x\<in>#mset xs. mset (f x))"
  by (induction xs) auto

lemma delivered_cong:
  "mset (awaiting sp') = mset (awaiting sp) \<Longrightarrow> chans sp' = chans sp \<Longrightarrow> mset (delivered sp') = mset (delivered sp)"
  by (simp add: delivered_def concat_map_mset)

lemma conserved_cong:
  assumes "conserved view R w" and "mset (inserting (replica w')) = mset (inserting (replica w))"
    and "image_mset (request_core R) (mset (queued (buffers (replica w')))) =
         image_mset (request_core R) (mset (queued (buffers (replica w))))"
    and "waiter (replica w') = waiter (replica w)"
    and "mset (awaiting (replica w')) = mset (awaiting (replica w))" and "chans (replica w') = chans (replica w)"
    and "replica_log view (replica w') = replica_log view (replica w)" and "proposed w' = proposed w"
  shows "conserved view R w'"
  using assms delivered_cong [OF assms(5,6)] by (simp add: conserved_def in_flight_def)

lemma acked_cong:
  assumes "acked h view w" and "mset (all_acks w') = mset (all_acks w)"
    and "replica_log view (replica w') = replica_log view (replica w)"
  shows "acked h view w'"
proof -
  have "set (all_acks w') = set (all_acks w)"
    using assms(2) by (rule mset_eq_setD)
  moreover have "mset (map (snd \<circ> snd) (all_acks w')) = mset (map (snd \<circ> snd) (all_acks w))"
    using assms(2) by (simp add: mset_map)
  ultimately show ?thesis using assms by (simp add: acked_def)
qed

text \<open>
  The replica stores whatever decided index a proxy sends, so here the backend takes any index.
\<close>

locale paxos_replica = log_storage S view invar + request R
  for S :: "('s, 't, 'n) Storage" and view :: "'s \<Rightarrow> ('t, 'n) StoreView" and invar :: "'s \<Rightarrow> bool"
    and R :: "'t Request" +
  fixes hash_of :: "'t list \<Rightarrow> u64"
  assumes history_hash_law: "invar st \<Longrightarrow> history_hash S st = hash_of (v_log (view st))"
    and any_decided_idx_law:
      "invar st \<Longrightarrow> \<exists>st'. set_decided_idx S st k = (st', Inr ()) \<and> invar st' \<and>
             view st' = view_op (SetDecidedIndex k) (view st)"
begin

definition replica_inv :: "('s, 't, 'd) World \<Rightarrow> bool" where
  "replica_inv w \<longleftrightarrow> wired R (replica w) \<and> timed R (replica w) \<and>
     stored view invar (internal_storage (replica w)) \<and> conserved view R w \<and> acked hash_of view w"

text \<open>The assumptions on the proposals: their ids are distinct and there are fewer than \<open>2 ^ 64\<close>.\<close>

definition proposals_ok :: "('s, 't, 'd) World \<Rightarrow> bool" where
  "proposals_ok w \<longleftrightarrow> distinct (map (get_id R) (proposed w)) \<and> length (proposed w) < usize_limit - 1"

lemma core_simps [simp]:
  "request_core R (set_deadline R r d) = request_core R r"
  "get_id R (request_core R r) = get_id R r"
  by (simp_all add: request_core_def)

lemma distinct_in_flight:
  assumes "conserved view R w" and "proposals_ok w"
  shows "distinct (map (get_id R) (in_flight (replica w) @ replica_log view (replica w)))"
proof -
  let ?xs = "in_flight (replica w) @ replica_log view (replica w)"
  have "mset (map (get_id R) (map (request_core R) ?xs)) =
      mset (map (get_id R) (map (request_core R) (proposed w)))"
    using assms(1) unfolding conserved_def by (metis mset_map)
  then have "mset (map (get_id R) ?xs) = mset (map (get_id R) (proposed w))"
    by (simp add: comp_def)
  then show ?thesis
    using assms(2) unfolding proposals_ok_def by (metis mset_eq_imp_distinct_iff)
qed

lemma log_bound:
  assumes "conserved view R w" and "proposals_ok w"
  shows "length (replica_log view (replica w)) < usize_limit - 1"
proof -
  have "length (in_flight (replica w) @ replica_log view (replica w)) = length (proposed w)"
    using assms(1) unfolding conserved_def by (metis length_map mset_eq_length)
  then show ?thesis using assms(2) by (simp add: proposals_ok_def)
qed

lemma replica_inv_cong:
  assumes "replica_inv w"
    and "mset (inserting (replica w')) = mset (inserting (replica w))"
    and "mset (awaiting (replica w')) = mset (awaiting (replica w))"
    and "set (waking (replica w')) = set (waking (replica w))"
    and "mset (all_acks w') = mset (all_acks w)"
    and "buffers (replica w') = buffers (replica w)" and "waiter (replica w') = waiter (replica w)"
    and "chans (replica w') = chans (replica w)" and "dchans (replica w') = dchans (replica w)"
    and "next_chan (replica w') = next_chan (replica w)"
    and "deadlines (clock (replica w')) = deadlines (clock (replica w))"
    and "database (clock (replica w')) = database (clock (replica w))"
    and "stored view invar (internal_storage (replica w'))"
    and "replica_log view (replica w') = replica_log view (replica w)" and "proposed w' = proposed w"
  shows "replica_inv w'"
proof -
  have inv: "wired R (replica w)" "timed R (replica w)" "conserved view R w" "acked hash_of view w"
    using assms(1) by (auto simp only: replica_inv_def)
  have "wired R (replica w')"
    by (rule wired_cong [OF inv(1) assms(3,10,8,6)]) (simp only: assms(7))
  moreover have "timed R (replica w')"
    by (rule timed_cong [OF inv(2) assms(4) _ assms(9,7,11,12)]) (simp only: assms(10) order_refl)
  moreover have "conserved view R w'"
    by (rule conserved_cong [OF inv(3) assms(2) _ assms(7,3,8,14,15)]) (simp only: assms(6))
  moreover have "acked hash_of view w'"
    by (rule acked_cong [OF inv(4) assms(5,14)])
  ultimately show ?thesis using assms(13) by (simp only: replica_inv_def)
qed

text \<open>What the log and the storage do.\<close>

lemma set_decided_stored:
  assumes "stored view invar i" and "InternalStorage_set_decided_idx S i k = (i', r)"
  shows "stored view invar i'" and "v_log (iview i') = v_log (iview i)" and "r = Inr ()"
    and "promise (state_cache i') = promise (state_cache i)"
  using assms any_decided_idx_law [of "storage i" k]
  by (auto simp: InternalStorage_set_decided_idx_def stored_def coherent_def)

lemma set_promise_stored:
  assumes "stored view invar i" and "InternalStorage_set_promise S i b = (i', r)"
  shows "stored view invar i'" and "v_log (iview i') = v_log (iview i)" and "r = Inr ()"
  using assms set_promise_coherent [of i b] by (auto simp: stored_def)

lemma stored_accepted:
  "stored view invar i \<Longrightarrow> accepted_idx (state_cache i) = length (v_log (iview i))"
  by (auto simp: stored_def coherent_def)

lemma flush_stored:
  assumes "stored view invar i" and "flush_batch S i = (i', r)"
  shows "stored view invar i'" and "v_log (iview i') = v_log (iview i)" and "\<exists>n. r = Inr n"
proof -
  have co: "coh i" and e: "batched_entries (state_cache i) = []"
    using assms(1) by (auto simp: stored_def)
  then have "accepted_idx (state_cache i) + length (batched_entries (state_cache i)) < usize_limit"
    by (simp add: coherent_def)
  from flush_batch_law [OF co this] e assms(2)
  have "coh i'" "batched_entries (state_cache i') = []" "\<exists>n. r = Inr n"
    "iview i' = (iview i)\<lparr>v_log := v_log (iview i)\<rparr>" by auto
  moreover have "batch_size (state_cache i') = batch_size (state_cache i)"
    using assms(2) append_without_batching [of "i\<lparr>state_cache := (state_cache i)\<lparr>batched_entries := []\<rparr>\<rparr>" "[]"] co e
    by (auto simp: flush_batch_def take_batched_entries_def coherent_def)
  ultimately show "stored view invar i'" "v_log (iview i') = v_log (iview i)" "\<exists>n. r = Inr n"
    using assms(1) by (auto simp: stored_def)
qed

lemma append_stored:
  assumes "stored view invar i" and "length (v_log (iview i)) < usize_limit - 1"
    and "append_entries_and_get_accepted_idx S i [x] = (i', r)"
  shows "stored view invar i'" and "v_log (iview i') = v_log (iview i) @ [x]"
    and "r = Inr (Some (length (v_log (iview i)) + 1))"
    and "history_hash S (storage i') = hash_of (v_log (iview i) @ [x])"
proof -
  have co: "coh i" "batched_entries (state_cache i) = []" "batch_size (state_cache i) = 1"
    and acc: "accepted_idx (state_cache i) = length (v_log (iview i))"
    using assms(1) stored_accepted by (auto simp: stored_def)
  from append_and_get_accepted [of i "[x]"] co acc assms(2,3)
  have c: "coh i'" "batch_size (state_cache i') = 1" "batched_entries (state_cache i') = []"
    "r = Inr (Some (length (v_log (iview i)) + 1))"
    "iview i' = (iview i)\<lparr>v_log := v_log (iview i')\<rparr>"
    "v_log (iview i') = v_log (iview i) @ [x]"
    by auto
  then show "v_log (iview i') = v_log (iview i) @ [x]" "r = Inr (Some (length (v_log (iview i)) + 1))"
    by auto
  have "v_stopsign (iview i') = None \<and> v_offset (iview i') = 0"
    using assms(1) arg_cong [OF c(5), of v_stopsign] arg_cong [OF c(5), of v_offset]
    by (auto simp: stored_def)
  then show "stored view invar i'" using c by (simp add: stored_def)
  then show "history_hash S (storage i') = hash_of (v_log (iview i) @ [x])"
    using c by (simp add: history_hash_law stored_def coherent_def)
qed

text \<open>Tasks that touch neither the buffers nor a proposal's channel.\<close>

fun quiet :: "'a Task \<Rightarrow> bool" where
  "quiet (ProposeInsert _ _ _) = False"
| "quiet (ProposeAwait _ _) = False"
| "quiet (FreeFromLate _ _) = False"
| "quiet (WakeDeadline _) = False"
| "quiet _ = True"

lemma quiet_task_frame:
  assumes "quiet t" and "run_task S R now sp0 t = Some (sp, rest, r)"
  shows "tasks sp = tasks sp0 \<and> buffers sp = buffers sp0 \<and> waiter sp = waiter sp0 \<and>
    chans sp = chans sp0 \<and> dchans sp = dchans sp0 \<and> next_chan sp = next_chan sp0 \<and>
    deadlines (clock sp) = deadlines (clock sp0) \<and> database (clock sp) = database (clock sp0)"
  using assms
  by (cases t) (auto simp: resync_def split: if_splits list.splits sum.splits OutgoingRef.splits prod.splits)

lemma quiet_task_places:
  assumes "quiet t" and "run_task S R now sp0 t = Some (sp, rest, r)"
  shows "concat (map task_inserts rest) = task_inserts t" and "concat (map task_chans rest) = task_chans t"
    and "concat (map task_wakes rest) = task_wakes t"
    and "concat (map message_acks (outgoing_clients sp)) @ concat (map task_acks rest) =
         concat (map message_acks (outgoing_clients sp0)) @ task_acks t"
  using assms
  by (cases t; auto simp: paxos_msg_def split: if_splits list.splits sum.splits OutgoingRef.splits prod.splits)+

lemma quiet_task_storage:
  assumes "quiet t" and "run_task S R now sp0 t = Some (sp, rest, r)"
    and "stored view invar (internal_storage sp0)"
  shows "stored view invar (internal_storage sp) \<and> replica_log view sp = replica_log view sp0"
proof (cases "\<exists>k. t = SetDecided k")
  case True
  then obtain k where k: "t = SetDecided k" by blast
  obtain i r' where i: "InternalStorage_set_decided_idx S (internal_storage sp0) k = (i, r')"
    by (cases "InternalStorage_set_decided_idx S (internal_storage sp0) k")
  with k assms(2) have "internal_storage sp = i" by auto
  with set_decided_stored [OF assms(3) i] show ?thesis by (simp add: replica_log_def)
next
  case False
  with assms have "internal_storage sp = internal_storage sp0"
    by (cases t) (auto split: if_splits list.splits sum.splits OutgoingRef.splits)
  with assms(3) show ?thesis by (simp add: replica_log_def)
qed

text \<open>A world in which one of the tasks has run a section.\<close>

abbreviation after_task ::
  "('s, 't, 'd) World \<Rightarrow> ('s, 't) SequencePaxos \<Rightarrow> 't Task list \<Rightarrow> unit StorageResult list \<Rightarrow> ('s, 't, 'd) World"
  where
  "after_task w sp rest p \<equiv> w\<lparr>replica := sp\<lparr>tasks := tasks sp @ rest\<rparr>, panics := p\<rparr>"

lemma quiet_task_inv:
  assumes inv: "replica_inv w" and ts: "tasks (replica w) = ts1 @ t # ts2" and q: "quiet t"
    and run: "run_task S R now ((replica w)\<lparr>tasks := ts1 @ ts2\<rparr>) t = Some (sp, rest, r)"
  shows "replica_inv (after_task w sp rest p)"
proof -
  have st: "stored view invar (internal_storage ((replica w)\<lparr>tasks := ts1 @ ts2\<rparr>))"
    using inv by (simp add: replica_inv_def)
  note storage = quiet_task_storage [OF q run st]
  note f = quiet_task_frame [OF q run] quiet_task_places [OF q run]
  have acks: "mset (all_acks (after_task w sp rest p)) = mset (all_acks w)"
    using arg_cong [OF f(5), of mset] f(1) ts by (simp add: all_acks_def)
  show ?thesis
    by (rule replica_inv_cong [OF inv]; (rule acks)?)
      (use f storage ts in \<open>simp_all add: inserting_def awaiting_def waking_def replica_log_def Un_ac\<close>)
qed

lemma task_insert_inv:
  assumes inv: "replica_inv w" and ok: "proposals_ok w"
    and ts: "tasks (replica w) = ts1 @ ProposeInsert entry l spec # ts2"
    and run: "run_task S R now ((replica w)\<lparr>tasks := ts1 @ ts2\<rparr>) (ProposeInsert entry l spec) = Some (sp, rest, r)"
  shows "replica_inv (after_task w sp rest p)"
proof -
  let ?rep = "replica w" and ?tx = "next_chan (replica w)" and ?id = "get_id R entry"
  let ?b = "buffers (replica w)"
  have W: "wired R ?rep" and T: "timed R ?rep" and C: "conserved view R w" and A: "acked hash_of view w"
    and St: "stored view invar (internal_storage ?rep)"
    using inv by (simp_all add: replica_inv_def)
  have "distinct (map (get_id R) (in_flight ?rep))"
    using distinct_in_flight [OF C ok] by simp
  then have fresh: "?id \<notin> get_id R ` set (queued ?b)"
    by (auto simp: in_flight_def inserting_def ts)
  then have old: "notifiers ?b ?id = None"
    using W by (auto simp: wired_def domIff)
  obtain b' nd where ins: "Buffers_insert R (clock ?rep) ?b entry l ?tx = (b', nd)"
    by (cases "Buffers_insert R (clock ?rep) ?b entry l ?tx")
  have lo: "late_ok R ?b" using W by (simp add: wired_def)
  obtain r' where r': "request_core R r' = request_core R entry" "get_id R r' = ?id"
    "mset (queued b') = add_mset r' (mset (queued ?b))"
    using insert_queued(3) [OF lo fresh ins] by blast
  note b' = insert_queued(1,2) [OF lo fresh ins]
  obtain t where t: "rest = [t]" "task_chans t = [?tx]" "task_inserts t = []" "task_wakes t = []" "task_acks t = []"
    and sp: "sp = ?rep\<lparr>tasks := ts1 @ ts2, buffers := b', next_chan := ?tx + 1\<rparr>"
    using run old ins by (cases nd) (auto simp: drop_sender_def Let_def)
  let ?w = "after_task w sp rest p"
  have aw: "mset (awaiting (replica ?w)) = add_mset ?tx (mset (awaiting ?rep))"
    by (simp add: awaiting_def sp t ts)
  have tx: "?tx \<notin> set (awaiting ?rep)" "chans ?rep ?tx = Pending"
    using W by (auto simp: wired_def)
  have "image_mset (\<lambda>r. notifiers b' (get_id R r)) (mset (queued ?b)) =
      image_mset (\<lambda>r. notifiers ?b (get_id R r)) (mset (queued ?b))"
    using fresh by (intro image_mset_cong) (auto simp: b'(2), metis image_eqI)
  then have "mset (senders R (replica ?w)) = add_mset (Some ?tx) (mset (senders R ?rep))"
    using r' by (simp add: senders_def sp b'(2))
  moreover have "pending_chans (replica ?w) = add_mset ?tx (pending_chans ?rep)"
    using aw tx(2) by (simp add: pending_chans_def sp)
  moreover note mset_add_mset_list(1) [OF r'(3)] mset_add_mset_list [OF aw]
  ultimately have "wired R (replica ?w)"
    using W b' r'(2) tx unfolding wired_def by (auto simp: sp less_Suc_eq)
  moreover have "timed R (replica ?w)"
    by (rule timed_cong [OF T]) (simp_all add: waking_def sp t ts)
  moreover have "mset (delivered (replica ?w)) = mset (delivered ?rep)"
    using aw tx(2) by (simp add: delivered_def concat_map_mset sp)
  then have "conserved view R ?w"
    using C r' by (simp add: conserved_def in_flight_def inserting_def sp t ts replica_log_def)
  moreover have "acked hash_of view ?w"
    by (rule acked_cong [OF A]) (simp_all add: all_acks_def sp t ts replica_log_def)
  ultimately show ?thesis using St by (simp add: replica_inv_def sp)
qed

lemma task_free_inv:
  assumes inv: "replica_inv w" and ts: "tasks (replica w) = ts1 @ FreeFromLate k d # ts2"
    and run: "run_task S R now ((replica w)\<lparr>tasks := ts1 @ ts2\<rparr>) (FreeFromLate k d) = Some (sp, rest, r)"
  shows "replica_inv (after_task w sp rest p)"
proof -
  let ?rep = "replica w" and ?b = "buffers (replica w)" and ?w = "after_task w sp rest p"
  have W: "wired R ?rep" and T: "timed R ?rep" and C: "conserved view R w" and A: "acked hash_of view w"
    and St: "stored view invar (internal_storage ?rep)"
    using inv by (simp_all add: replica_inv_def)
  have sp: "sp = ?rep\<lparr>tasks := ts1 @ ts2, buffers := free_from_late R ?b k d\<rparr>" and rest: "rest = []"
    using run by auto
  have "late_ok R ?b" using W by (simp add: wired_def)
  note free = free_queued [OF this, of k d]
  have aw: "mset (awaiting (replica ?w)) = mset (awaiting ?rep)"
    by (simp add: awaiting_def sp rest ts)
  have "image_mset (notifiers ?b \<circ> get_id R) (mset (queued (free_from_late R ?b k d))) =
      image_mset (notifiers ?b \<circ> get_id R) (mset (queued ?b))"
    using arg_cong [OF free(4), of "image_mset (notifiers ?b)"] by (simp add: image_mset.compositionality)
  then have "mset (senders R (replica ?w)) = mset (senders R ?rep)"
    by (simp add: senders_def sp free(2) comp_def)
  moreover have "get_id R ` set (queued (free_from_late R ?b k d)) = get_id R ` set (queued ?b)"
    using free(4) by (metis set_image_mset set_mset_mset)
  ultimately have "wired R (replica ?w)"
    using W free(1,2) aw mset_eq_setD [OF aw] mset_eq_imp_distinct_iff [OF aw]
    by (simp add: wired_def pending_chans_def sp)
  moreover have "timed R (replica ?w)"
    by (rule timed_cong [OF T]) (simp_all add: waking_def sp rest ts)
  moreover have "conserved view R ?w"
    by (rule conserved_cong [OF C _ _ _ aw]) (use free(3) in \<open>simp_all add: inserting_def sp rest ts replica_log_def\<close>)
  moreover have "acked hash_of view ?w"
    by (rule acked_cong [OF A]) (simp_all add: all_acks_def sp rest ts replica_log_def)
  ultimately show ?thesis using St by (simp add: replica_inv_def sp)
qed

lemma task_await_inv:
  assumes inv: "replica_inv w" and ok: "proposals_ok w"
    and ts: "tasks (replica w) = ts1 @ ProposeAwait rx spec # ts2"
    and run: "run_task S R now ((replica w)\<lparr>tasks := ts1 @ ts2\<rparr>) (ProposeAwait rx spec) = Some (sp, rest, r)"
  shows "replica_inv (after_task w sp rest p) \<and> r = Inr ()"
proof -
  let ?rep = "replica w" and ?w = "after_task w sp rest p"
  let ?log = "replica_log view (replica w)" and ?i = "internal_storage (replica w)"
  have W: "wired R ?rep" and T: "timed R ?rep" and C: "conserved view R w" and A: "acked hash_of view w"
    and St: "stored view invar ?i"
    using inv by (simp_all add: replica_inv_def)
  have rx: "rx \<in> set (awaiting ?rep)" by (simp add: awaiting_def ts)
  then have "chans ?rep rx \<noteq> Dropped" using W by (simp add: wired_def)
  then obtain req where req: "chans ?rep rx = Sent req"
    using run by (cases "chans ?rep rx") auto
  obtain i' r' where app: "append_entries_and_get_accepted_idx S ?i [req] = (i', r')"
    by (cases "append_entries_and_get_accepted_idx S ?i [req]")
  have "length (v_log (iview ?i)) < usize_limit - 1"
    using log_bound [OF C ok] by (simp add: replica_log_def)
  note i' = append_stored [OF St this app]
  have sp: "sp = ?rep\<lparr>tasks := ts1 @ ts2, internal_storage := i'\<rparr>" and r: "r = Inr ()"
    and rest: "rest = [ProposeAck req (hash_of (?log @ [req])) spec (length ?log + 1)]"
    using run req app i' by (auto simp: replica_log_def)
  have log': "replica_log view (replica ?w) = ?log @ [req]"
    using i'(2) by (simp add: replica_log_def sp)
  have aw: "mset (awaiting ?rep) = add_mset rx (mset (awaiting (replica ?w)))"
    by (simp add: awaiting_def sp rest ts)
  note aw_list = mset_add_mset_list [OF aw]
  have "pending_chans ?rep = pending_chans (replica ?w)"
    using req by (simp add: pending_chans_def aw) (simp add: sp)
  moreover have "senders R (replica ?w) = senders R ?rep"
    by (simp add: senders_def sp)
  ultimately have "wired R (replica ?w)"
    using W aw_list unfolding wired_def by (auto simp: sp)
  moreover have "timed R (replica ?w)"
    by (rule timed_cong [OF T]) (simp_all add: waking_def sp rest ts)
  moreover have "mset (delivered ?rep) = add_mset req (mset (delivered (replica ?w)))"
    using req by (simp add: delivered_def concat_map_mset aw) (simp add: sp)
  then have "mset (in_flight ?rep) = add_mset req (mset (in_flight (replica ?w)))"
    by (simp add: in_flight_def inserting_def ts) (simp add: sp rest)
  then have "conserved view R ?w"
    using C log' by (simp add: conserved_def)
  moreover have "mset (all_acks ?w) = add_mset (req, hash_of (?log @ [req]), length ?log + 1) (mset (all_acks w))"
    by (simp add: all_acks_def sp rest ts)
  then have "acked hash_of view ?w"
    using A log' ack_ok_append [of hash_of ?log _ "[req]"]
    by (auto simp: acked_def ack_ok_def mset_map simp flip: set_mset_mset)
  ultimately show ?thesis using i'(1) r by (simp add: replica_inv_def sp)
qed

lemma task_wake_inv:
  assumes inv: "replica_inv w" and ts: "tasks (replica w) = ts1 @ WakeDeadline tx # ts2"
    and run: "run_task S R now ((replica w)\<lparr>tasks := ts1 @ ts2\<rparr>) (WakeDeadline tx) = Some (sp, rest, r)"
  shows "replica_inv (after_task w sp rest p)"
proof -
  let ?rep = "replica w" and ?w = "after_task w sp rest p"
  have W: "wired R ?rep" and T: "timed R ?rep" and C: "conserved view R w" and A: "acked hash_of view w"
    and St: "stored view invar (internal_storage ?rep)"
    using inv by (simp_all add: replica_inv_def)
  have sp: "sp = ?rep\<lparr>tasks := ts1 @ ts2, dchans := (dchans ?rep)(tx := Sent ())\<rparr>" and rest: "rest = []"
    using run by auto
  have aw: "mset (awaiting (replica ?w)) = mset (awaiting ?rep)"
    by (simp add: awaiting_def sp rest ts)
  have "wired R (replica ?w)"
    by (rule wired_cong [OF W aw]) (simp_all add: sp)
  moreover have "timed R (replica ?w)"
    using T by (auto simp: timed_def waking_def sp rest ts split: Waiter.splits)
  moreover have "conserved view R ?w"
    by (rule conserved_cong [OF C _ _ _ aw]) (simp_all add: inserting_def sp rest ts replica_log_def)
  moreover have "acked hash_of view ?w"
    by (rule acked_cong [OF A]) (simp_all add: all_acks_def sp rest ts replica_log_def)
  ultimately show ?thesis using St by (simp add: replica_inv_def sp)
qed

lemma run_task_inv:
  assumes "replica_inv w" and "proposals_ok w" and "world_step S R e w (RunTask k now) = Some w'"
  shows "replica_inv w'"
proof -
  let ?ts = "tasks (replica w)"
  obtain sp rest r where k: "k < length ?ts"
    and run: "run_task S R now ((replica w)\<lparr>tasks := take k ?ts @ drop (Suc k) ?ts\<rparr>) (?ts ! k) = Some (sp, rest, r)"
    and "\<exists>p. w' = after_task w sp rest p"
    using assms(3) by (auto split: if_splits option.splits)
  then obtain p where w': "w' = after_task w sp rest p" by blast
  have ts: "?ts = take k ?ts @ ?ts ! k # drop (Suc k) ?ts"
    using k by (simp add: id_take_nth_drop)
  show ?thesis
    unfolding w'
  proof (cases "?ts ! k")
    case (ProposeInsert entry l spec)
    show "replica_inv (after_task w sp rest p)"
      by (rule task_insert_inv [OF assms(1,2) ts [unfolded ProposeInsert] run [unfolded ProposeInsert]])
  next
    case (ProposeAwait rx spec)
    show "replica_inv (after_task w sp rest p)"
      using task_await_inv [OF assms(1,2) ts [unfolded ProposeAwait] run [unfolded ProposeAwait]] by blast
  next
    case (FreeFromLate i d)
    show "replica_inv (after_task w sp rest p)"
      by (rule task_free_inv [OF assms(1) ts [unfolded FreeFromLate] run [unfolded FreeFromLate]])
  next
    case (WakeDeadline tx)
    show "replica_inv (after_task w sp rest p)"
      by (rule task_wake_inv [OF assms(1) ts [unfolded WakeDeadline] run [unfolded WakeDeadline]])
  qed (rule quiet_task_inv [OF assms(1) ts _ run]; simp)+
qed

subsection \<open>The waiter and the clock\<close>

lemma waiter_take_inv:
  assumes inv: "replica_inv w" and ok: "proposals_ok w" and run: "waiter_take R (replica w) req = Some sp"
  shows "replica_inv (w\<lparr>replica := sp\<rparr>)"
proof -
  let ?rep = "replica w" and ?b = "buffers (replica w)" and ?w = "w\<lparr>replica := sp\<rparr>"
  have W: "wired R ?rep" and T: "timed R ?rep" and C: "conserved view R w" and A: "acked hash_of view w"
    and St: "stored view invar (internal_storage ?rep)"
    using inv by (simp_all add: replica_inv_def)
  obtain b' sender where idle: "waiter ?rep = WaiterIdle" and pop: "waiter_pop R ?b req = Some (b', sender)"
    and sp: "sp = ?rep\<lparr>buffers := b', waiter := WaiterPopped sender req\<rparr>"
    using run by (auto simp: waiter_take_def split: Waiter.splits)
  note b' = pop_queued [OF pop]
  have "distinct (map (get_id R) (queued ?b))"
    using distinct_in_flight [OF C ok] by (simp add: in_flight_def)
  then have "distinct (map (get_id R) (req # queued b'))"
    using b'(1) by (metis mset.simps(2) mset_eq_imp_distinct_iff mset_map)
  then have other: "get_id R req \<notin> get_id R ` set (queued b')" by simp
  have q: "set (queued ?b) = insert req (set (queued b'))"
    using mset_add_mset_list(1) [OF b'(1)] .
  have "image_mset (\<lambda>r. notifiers b' (get_id R r)) (mset (queued b')) =
      image_mset (\<lambda>r. notifiers ?b (get_id R r)) (mset (queued b'))"
    using other by (intro image_mset_cong) (auto simp: b'(4), metis image_eqI)
  then have "mset (senders R sp) = mset (senders R ?rep)"
    using b'(1,3) idle by (simp add: senders_def sp)
  moreover have "dom (notifiers b') \<subseteq> get_id R ` set (queued b')"
    using W q by (auto simp: wired_def b'(4))
  moreover have "late_ok R b'"
    using W b'(2) by (simp add: wired_def late_ok_def)
  ultimately have "wired R sp"
    using W by (simp add: wired_def pending_chans_def awaiting_def sp)
  moreover have "timed R sp"
    using T idle by (simp add: timed_def waking_def sp)
  moreover have "mset (in_flight sp) = mset (in_flight ?rep)"
    using b'(1) idle by (simp add: in_flight_def inserting_def delivered_def awaiting_def sp)
  then have "conserved view R ?w"
    using C by (simp add: conserved_def replica_log_def) (simp add: sp)
  moreover have "acked hash_of view ?w"
    by (rule acked_cong [OF A]) (simp_all add: all_acks_def sp replica_log_def)
  ultimately show ?thesis using St by (simp add: replica_inv_def sp)
qed

lemma waiter_register_inv:
  assumes inv: "replica_inv w" and run: "waiter_register R (replica w) = Some sp"
  shows "replica_inv (w\<lparr>replica := sp\<rparr>)"
proof -
  let ?rep = "replica w" and ?w = "w\<lparr>replica := sp\<rparr>"
  have W: "wired R ?rep" and T: "timed R ?rep" and C: "conserved view R w" and A: "acked hash_of view w"
    and St: "stored view invar (internal_storage ?rep)"
    using inv by (simp_all add: replica_inv_def)
  obtain sender req where popped: "waiter ?rep = WaiterPopped sender req"
    using run by (auto simp: waiter_register_def split: Waiter.splits)
  then have empty: "deadlines (clock ?rep) = []" "database (clock ?rep) = Map.empty"
    using T by (auto simp: timed_def)
  then have sp: "sp = ?rep\<lparr>clock := add_deadline (clock ?rep) (get_deadline R req) (next_chan ?rep),
      next_chan := next_chan ?rep + 1, waiter := WaiterWaiting (next_chan ?rep) sender req\<rparr>"
    using run popped by (auto simp: waiter_register_def Let_def drop_sender_def)
  have "wired R sp"
    using W popped by (auto simp: wired_def senders_def pending_chans_def awaiting_def sp less_Suc_eq)
  moreover have "timed R sp"
    using T empty popped
    by (auto simp: timed_def waking_def sp add_deadline_def heap_push_def less_Suc_eq)
  moreover have "conserved view R ?w"
    using C popped
    by (simp add: conserved_def in_flight_def inserting_def delivered_def awaiting_def sp replica_log_def)
  moreover have "acked hash_of view ?w"
    by (rule acked_cong [OF A]) (simp_all add: all_acks_def sp replica_log_def)
  ultimately show ?thesis using St by (simp add: replica_inv_def sp)
qed

lemma waiting_sender:
  assumes "wired R sp" and "waiter sp = WaiterWaiting rx sender req"
  obtains tx where "sender = Some tx" and "tx \<in> set (awaiting sp)" and "chans sp tx = Pending"
proof -
  have "sender \<in># image_mset Some (pending_chans sp)"
    using assms unfolding wired_def by (metis senders_def union_iff mset_append waiter_sender.simps(3)
        in_multiset_in_set list.set_intros(1))
  then show thesis using that by (auto simp: pending_chans_def)
qed

lemma waiter_notify_inv:
  assumes inv: "replica_inv w" and run: "waiter_notify (replica w) = Some sp"
  shows "replica_inv (w\<lparr>replica := sp\<rparr>)"
proof -
  let ?rep = "replica w" and ?w = "w\<lparr>replica := sp\<rparr>"
  have W: "wired R ?rep" and T: "timed R ?rep" and C: "conserved view R w" and A: "acked hash_of view w"
    and St: "stored view invar (internal_storage ?rep)"
    using inv by (simp_all add: replica_inv_def)
  obtain rx sender req where waiting: "waiter ?rep = WaiterWaiting rx sender req"
    using run by (auto simp: waiter_notify_def split: Waiter.splits)
  obtain tx where tx: "sender = Some tx" "tx \<in> set (awaiting ?rep)" "chans ?rep tx = Pending"
    using W waiting by (rule waiting_sender)
  have sent: "dchans ?rep rx = Sent ()" and empty: "deadlines (clock ?rep) = []" "database (clock ?rep) = Map.empty"
    using T waiting run by (auto simp: timed_def waiter_notify_def split: Oneshot.splits)
  have sp: "sp = ?rep\<lparr>waiter := WaiterIdle, chans := (chans ?rep)(tx := Sent req)\<rparr>"
    using run waiting sent tx(1) by (simp add: waiter_notify_def)
  obtain xs ys where "awaiting ?rep = xs @ tx # ys" "tx \<notin> set (xs @ ys)"
    using W split_list [OF tx(2)] by (auto simp: wired_def)
  then obtain M where M: "mset (awaiting ?rep) = add_mset tx M" "tx \<notin># M"
    using that [of "mset (xs @ ys)"] by simp
  have "filter_mset (\<lambda>ch. chans sp ch = Pending) M = filter_mset (\<lambda>ch. chans ?rep ch = Pending) M"
    using M(2) by (intro filter_mset_cong) (auto simp: sp)
  then have "pending_chans ?rep = add_mset tx (pending_chans sp)"
    using M(1) tx(3) by (simp add: pending_chans_def awaiting_def) (simp add: sp)
  moreover have "mset (senders R ?rep) = add_mset (Some tx) (mset (senders R sp))"
    using waiting tx(1) by (simp add: senders_def sp)
  moreover have "tx < next_chan ?rep"
    using W tx(2) by (simp add: wired_def)
  ultimately have "wired R sp"
    using W by (auto simp: wired_def awaiting_def sp)
  moreover have "timed R sp"
    using T empty by (simp add: timed_def waking_def sp split: Waiter.splits)
  moreover have "(\<Sum>ch\<in>#M. mset (sent_value (chans sp ch))) = (\<Sum>ch\<in>#M. mset (sent_value (chans ?rep ch)))"
    using M(2) by (intro arg_cong [of _ _ sum_mset] image_mset_cong) (auto simp: sp)
  then have "mset (delivered sp) = add_mset req (mset (delivered ?rep))"
    using M(1) tx(3) by (simp add: delivered_def concat_map_mset awaiting_def) (simp add: sp)
  then have "mset (in_flight sp) = mset (in_flight ?rep)"
    using waiting by (simp add: in_flight_def) (simp add: inserting_def sp)
  then have "conserved view R ?w"
    using C by (simp add: conserved_def replica_log_def) (simp add: sp)
  moreover have "acked hash_of view ?w"
    by (rule acked_cong [OF A]) (simp_all add: all_acks_def sp replica_log_def)
  ultimately show ?thesis using St by (simp add: replica_inv_def sp)
qed

lemma tick_inv:
  assumes inv: "replica_inv w"
  shows "replica_inv (w\<lparr>replica := clock_tick fast (replica w)\<rparr>)"
proof -
  let ?rep = "replica w" and ?w = "w\<lparr>replica := clock_tick fast (replica w)\<rparr>"
  have W: "wired R ?rep" and T: "timed R ?rep" and C: "conserved view R w" and A: "acked hash_of view w"
    and St: "stored view invar (internal_storage ?rep)"
    using inv by (simp_all add: replica_inv_def)
  obtain c woken ds where tick: "tick_fn fast (clock ?rep) = (c, woken, ds)"
    by (cases "tick_fn fast (clock ?rep)")
  obtain new where sp: "clock_tick fast ?rep = ?rep\<lparr>clock := c, tasks := tasks ?rep @ new\<rparr>"
    and new: "concat (map task_chans new) = []" "concat (map task_inserts new) = []"
      "concat (map task_acks new) = []" "concat (map task_wakes new) = woken"
  proof
    let ?new = "map WakeDeadline woken @ (if ds then [SyncStart] else [])"
    show "clock_tick fast ?rep = ?rep\<lparr>clock := c, tasks := tasks ?rep @ ?new\<rparr>"
      by (simp add: clock_tick_def tick)
    show "concat (map task_wakes ?new) = woken" by (induction woken) auto
  qed auto
  have "wired R (replica ?w)"
    by (rule wired_cong [OF W]) (simp_all add: awaiting_def sp new)
  moreover have "timed R (replica ?w)"
  proof -
    let ?c = "(clock ?rep)\<lparr>clock_counter := clock_counter (clock ?rep) + 1,
      logical_time := logical_time (clock ?rep) + int (tick_step fast (drift (clock ?rep)))\<rparr>"
    have pd: "woken = snd (process_deadlines ?c)" "deadlines c = deadlines (fst (process_deadlines ?c))"
      "database c = database (fst (process_deadlines ?c))"
      using tick by (auto simp: tick_fn_def Let_def split_beta split: if_splits)
    consider "deadlines (clock ?rep) = []" | d rx where "deadlines (clock ?rep) = [d]" "database (clock ?rep) = [d \<mapsto> rx]"
      using T by (auto simp: timed_def split: Waiter.splits)
    then show ?thesis
    proof cases
      case 1
      then have "woken = []" "deadlines c = deadlines (clock ?rep)" "database c = database (clock ?rep)"
        using pd process_deadlines_empty [of ?c] by auto
      then show ?thesis
        using T new by (intro timed_cong [OF T]) (simp_all add: waking_def sp)
    next
      case (2 d rx)
      with pd process_deadlines_single [of ?c d rx]
      show ?thesis
        using T new(4)
        by (auto simp: timed_def waking_def sp split: Waiter.splits if_splits dest!: map_upd_eqD1)
    qed
  qed
  moreover have "conserved view R ?w"
    using C by (simp add: conserved_def place_defs sp replica_log_def new)
  moreover have "acked hash_of view ?w"
    by (rule acked_cong [OF A]) (simp_all add: all_acks_def sp new replica_log_def)
  ultimately show ?thesis using St by (simp add: replica_inv_def sp)
qed

subsection \<open>Calls from the outside\<close>

lemma propose_inv:
  assumes inv: "replica_inv w" and run: "world_step S R e w (Propose entry) = Some w'"
  shows "replica_inv w'"
proof -
  let ?rep = "replica w"
  have "\<not> accepted_reconfiguration ?rep"
    using inv by (auto simp: replica_inv_def stored_def coherent_def accepted_reconfiguration_def
        InternalStorage_get_stopsign_def)
  then obtain l spec where w': "replica w' = spawn (ProposeInsert entry l spec) ?rep"
    "proposed w' = proposed w @ [entry]" "fetched w' = fetched w"
    using run
    by (auto simp: SequencePaxos_append_def propose_entry_def handle_new_proposal_def Let_def split_beta
        split: prod.splits Role.splits if_splits)
  have W: "wired R ?rep" and T: "timed R ?rep" and C: "conserved view R w" and A: "acked hash_of view w"
    and St: "stored view invar (internal_storage ?rep)"
    using inv by (simp_all add: replica_inv_def)
  have "wired R (replica w')"
    by (rule wired_cong [OF W]) (simp_all add: w' spawn_def awaiting_def)
  moreover have "timed R (replica w')"
    by (rule timed_cong [OF T]) (simp_all add: w' spawn_def waking_def)
  moreover have "conserved view R w'"
    using C by (simp add: conserved_def place_defs w' spawn_def replica_log_def)
  moreover have "acked hash_of view w'"
    by (rule acked_cong [OF A]) (simp_all add: all_acks_def w' spawn_def replica_log_def)
  ultimately show ?thesis using St by (simp add: replica_inv_def w' spawn_def)
qed

lemma deliver_inv:
  assumes inv: "replica_inv w" and run: "world_step S R e w (Deliver m) = Some w'"
  shows "replica_inv w'"
proof -
  consider (same) "replica w' = replica w"
    | (spawned) t where "replica w' = spawn t (replica w)" "task_inserts t = []" "task_chans t = []"
        "task_wakes t = []" "task_acks t = []"
    using run
    by (cases "pm_msg m") (auto simp: SequencePaxos_handle_def handle_execution_def handle_new_deadline_def
        handle_resync_answer_def handle_resync_request_def Let_def)
  moreover have "proposed w' = proposed w" "fetched w' = fetched w"
    using run by (auto split: prod.splits)
  moreover have "stored view invar (internal_storage (replica w))"
    using inv by (simp add: replica_inv_def)
  ultimately show ?thesis
    by cases (rule replica_inv_cong [OF inv]; simp add: place_defs all_acks_def spawn_def replica_log_def)+
qed

lemma handle_leader_storage:
  assumes st: "stored view invar (internal_storage sp)" and run: "handle_leader S sp n = (sp', r)"
  shows "stored view invar (internal_storage sp') \<and> replica_log view sp' = replica_log view sp \<and> r = Inr () \<and>
    (\<exists>i ls rp. sp' = sp\<lparr>leader_state := ls, internal_storage := i, sp_state := rp\<rparr>)"
proof (cases "n \<le> n_leader (leader_state sp) \<or> n \<le> SequencePaxos_get_promise sp \<or> sp_pid sp \<noteq> b_pid n")
  case True
  then have "handle_leader S sp n = (sp\<lparr>sp_state := sp_state sp\<rparr>, Inr ()) \<or>
      handle_leader S sp n = (sp\<lparr>sp_state := (Follower, snd (sp_state sp))\<rparr>, Inr ())"
    by (auto simp: handle_leader_def become_follower_def simp del: ballot_not_le ballot_not_less)
  then obtain rp where sp': "sp' = sp\<lparr>sp_state := rp\<rparr>" "r = Inr ()"
    using run by (metis prod.inject)
  have "sp' = sp\<lparr>leader_state := leader_state sp, internal_storage := internal_storage sp, sp_state := rp\<rparr>"
    using sp' by simp
  then have "\<exists>i ls rp. sp' = sp\<lparr>leader_state := ls, internal_storage := i, sp_state := rp\<rparr>" by blast
  moreover have "stored view invar (internal_storage sp')" "replica_log view sp' = replica_log view sp"
    using sp' st by (simp_all add: replica_log_def)
  ultimately show ?thesis using sp'(2) by blast
next
  case False
  obtain i1 r1 where f: "flush_batch S (internal_storage sp) = (i1, r1)"
    by (cases "flush_batch S (internal_storage sp)")
  obtain i2 r2 where g: "InternalStorage_set_promise S i1 n = (i2, r2)"
    by (cases "InternalStorage_set_promise S i1 n")
  note f' = flush_stored [OF st f]
  note g' = set_promise_stored [OF f'(1) g]
  from f'(3) obtain k where "r1 = Inr k" by blast
  with False f g g'(3) have "handle_leader S sp n = (sp\<lparr>leader_state := LeaderState_with n
      (ls_max_pid (leader_state sp)) (ls_quorum (leader_state sp)), internal_storage := i2,
      sp_state := (Leader, Prepare)\<rparr>, Inr ())"
    by (simp add: handle_leader_def Let_def del: ballot_not_le ballot_not_less)
  with run have sp': "sp' = sp\<lparr>leader_state := LeaderState_with n
      (ls_max_pid (leader_state sp)) (ls_quorum (leader_state sp)), internal_storage := i2,
      sp_state := (Leader, Prepare)\<rparr>" and r: "r = Inr ()" by auto
  then have "\<exists>i ls rp. sp' = sp\<lparr>leader_state := ls, internal_storage := i, sp_state := rp\<rparr>" by blast
  moreover have "stored view invar (internal_storage sp')" "replica_log view sp' = replica_log view sp"
    using sp' g'(1,2) f'(2) by (simp_all add: replica_log_def)
  ultimately show ?thesis using r by blast
qed

lemma new_leader_inv:
  assumes inv: "replica_inv w" and run: "world_step S R e w (NewLeader n) = Some w'"
  shows "replica_inv w'"
proof -
  obtain sp r where hl: "handle_leader S (replica w) n = (sp, r)"
    by (cases "handle_leader S (replica w) n")
  have "stored view invar (internal_storage (replica w))"
    using inv by (simp add: replica_inv_def)
  from handle_leader_storage [OF this hl] obtain i ls rp where sp:
    "sp = (replica w)\<lparr>leader_state := ls, internal_storage := i, sp_state := rp\<rparr>"
    "stored view invar (internal_storage sp)" "replica_log view sp = replica_log view (replica w)" "r = Inr ()"
    by blast
  with run hl have "replica w' = sp" "proposed w' = proposed w" "fetched w' = fetched w" by auto
  with sp show ?thesis
    by (intro replica_inv_cong [OF inv]) (simp_all add: place_defs all_acks_def)
qed

lemma step_inv:
  assumes "replica_inv w" and "proposals_ok w" and "world_step S R e w ev = Some w'"
  shows "replica_inv w'"
proof (cases ev)
  case (RunTask k now)
  then show ?thesis using run_task_inv assms by blast
next
  case (Tick fast)
  then show ?thesis using tick_inv assms by auto
next
  case (WaiterTake req)
  then show ?thesis using waiter_take_inv assms by auto
next
  case WaiterRegister
  then show ?thesis using waiter_register_inv assms by auto
next
  case WaiterNotify
  then show ?thesis using waiter_notify_inv assms by auto
next
  case (Propose entry)
  then show ?thesis using propose_inv assms by blast
next
  case (Deliver m)
  then show ?thesis using deliver_inv assms by blast
next
  case (NewLeader n)
  then show ?thesis using new_leader_inv assms by blast
next
  case (Reconnected pid)
  have "stored view invar (internal_storage (replica w))" using assms(1) by (simp add: replica_inv_def)
  moreover obtain rp where "SequencePaxos_reconnected (replica w) pid = (replica w)\<lparr>sp_state := rp\<rparr>"
    using that [of "if pid \<noteq> sp_pid (replica w) \<and> pid = SequencePaxos_get_current_leader (replica w)
      then (Follower, Recover) else sp_state (replica w)"]
    by (simp add: SequencePaxos_reconnected_def split: if_splits)
  ultimately show ?thesis
    using Reconnected assms(3)
    by (intro replica_inv_cong [OF assms(1)]) (auto simp: place_defs all_acks_def replica_log_def)
next
  case TakeOutgoing
  have "stored view invar (internal_storage (replica w))" using assms(1) by (simp add: replica_inv_def)
  with TakeOutgoing assms(3) show ?thesis
    by (intro replica_inv_cong [OF assms(1)])
      (auto simp: place_defs all_acks_def replica_log_def take_outgoing_msgs_def)
next
  case TakeClientOutgoing
  have "stored view invar (internal_storage (replica w))" using assms(1) by (simp add: replica_inv_def)
  with TakeClientOutgoing assms(3) show ?thesis
    by (intro replica_inv_cong [OF assms(1)])
      (auto simp: place_defs all_acks_def replica_log_def take_outgoing_client_msgs_def)
qed

lemma step_proposed:
  "world_step S R e w ev = Some w' \<Longrightarrow> \<exists>ps. proposed w' = proposed w @ ps"
  by (cases ev) (auto simp: Let_def split: if_splits option.splits prod.splits sum.splits)

lemma step_proposals_ok: "world_step S R e w ev = Some w' \<Longrightarrow> proposals_ok w' \<Longrightarrow> proposals_ok w"
  by (drule step_proposed) (auto simp: proposals_ok_def)

lemma reachable_inv:
  assumes "reachable S R e w0 w" and "replica_inv w0" and "proposals_ok w"
  shows "replica_inv w"
  using assms
  by (induction rule: reachable.induct) (auto intro: step_inv step_proposals_ok)

text \<open>A replica over an empty storage satisfies the invariant.\<close>

lemma init_inv:
  assumes "SequencePaxos_with S config st clk = Inr sp" and "deadlines clk = []" and "database clk = Map.empty"
    and "invar st" and "v_log (view st) = []" and "v_offset (view st) = 0" and "v_compacted (view st) = 0"
    and "v_stopsign (view st) = None" and "spc_batch_size config = 1"
  shows "replica_inv (world_init sp db)"
proof -
  obtain i where i: "InternalStorage_with S st \<lparr>isc_batch_size = 1\<rparr> = Inr i" "coh i" "storage i = st"
    "batched_entries (state_cache i) = []" "batch_size (state_cache i) = 1"
    using with_coherent [of st "\<lparr>isc_batch_size = 1\<rparr>"] assms by auto
  then have st: "stored view invar i" using assms by (simp add: stored_def)
  obtain b where b: "internal_storage sp = fst (InternalStorage_set_promise S i b)"
    and sp: "tasks sp = []" "buffers sp = Buffers_new" "waiter sp = WaiterIdle"
      "chans sp = (\<lambda>_. Pending)" "dchans sp = (\<lambda>_. Pending)" "outgoing_clients sp = []"
      "clock sp = clk"
    using assms(1,9) i(1)
    by (auto simp: SequencePaxos_with_def Let_def try_result_Inr_iff split_beta split: option.splits)
  have log: "stored view invar (internal_storage sp)" "replica_log view sp = []"
    using set_promise_stored [OF st surjective_pairing] i(3) assms(5) b by (auto simp: replica_log_def)
  then show ?thesis
    by (simp add: replica_inv_def world_init_def wired_def timed_def conserved_def acked_def place_defs
        all_acks_def queued_def late_ok_def Buffers_new_def sp assms(2,3))
qed

end

end
