(* ===== verification/Replica_Properties.thy ===== *)
theory Replica_Properties
  imports Sequence_Paxos_Laws
begin

text \<open>
  The guarantees of \<open>Sequence_Paxos_Laws\<close> for the replica the server runs: \<open>Command\<close> entries on a
  \<open>MemoryStorage\<close>, with the hasher \<open>finish\<close> of the standard library left open.
\<close>

type_synonym CommandStorage = "(Command, NoSnapshot) MemoryStorage"

abbreviation kv_storage :: "(HashToken list \<Rightarrow> u64) \<Rightarrow> (CommandStorage, Command, NoSnapshot) Storage" where
  "kv_storage finish \<equiv> MemoryStorage_impl Command_hash finish"

definition execute_command :: "Database \<Rightarrow> Command \<Rightarrow> Database \<times> string option option" where
  "execute_command db c = Database_handle_command db (kv_cmd c)"

definition log_hash :: "(HashToken list \<Rightarrow> u64) \<Rightarrow> Command list \<Rightarrow> u64" where
  "log_hash finish l = finish (concat (map Command_hash l))"

interpretation kvr: paxos_replica "kv_storage finish" ms_view ms_invar Command_request "log_hash finish"
  for finish
  by unfold_locales (auto simp: MemoryStorage_impl_def history_hash_concat log_hash_def
      MemoryStorage_defs ms_invar_def ms_view_def)

abbreviation command_log :: "(CommandStorage, Command, 'd) World \<Rightarrow> Command list" where
  "command_log w \<equiv> ms_log (storage (internal_storage (replica w)))"

text \<open>
  A world reached by a replica that started with an empty log and no batching, and was
  proposed commands with distinct private ids (fewer than \<open>2 ^ 64\<close> of them).
\<close>

definition kv_reachable ::
  "(HashToken list \<Rightarrow> u64) \<Rightarrow> SequencePaxosConfig \<Rightarrow> ClockState \<Rightarrow> (CommandStorage, Command, Database) World \<Rightarrow> bool"
  where
  "kv_reachable finish config clk w \<longleftrightarrow>
     (\<exists>sp. SequencePaxos_with (kv_storage finish) config MemoryStorage_default clk = Inr sp \<and>
        reachable (kv_storage finish) Command_request execute_command (world_init sp Database_new) w) \<and>
     spc_batch_size config = 1 \<and> deadlines clk = [] \<and> database clk = Map.empty \<and>
     distinct (map private_id (proposed w)) \<and> length (proposed w) < usize_limit - 1"

lemma kv_reachable_inv:
  assumes "kv_reachable finish config clk w"
  shows "kvr.replica_inv finish w"
proof -
  obtain sp where with_sp: "SequencePaxos_with (kv_storage finish) config MemoryStorage_default clk = Inr sp"
    and r: "reachable (kv_storage finish) Command_request execute_command (world_init sp Database_new) w"
    and clk: "spc_batch_size config = 1" "deadlines clk = []" "database clk = Map.empty"
    using assms by (auto simp: kv_reachable_def)
  have "kvr.replica_inv finish (world_init sp Database_new)"
    using clk by (intro kvr.init_inv [OF with_sp]) (auto simp: MemoryStorage_default_def ms_invar_def)
  moreover have "kvr.proposals_ok w"
    using assms unfolding kv_reachable_def kvr.proposals_ok_def by (simp add: Command_request_def)
  ultimately show ?thesis using kvr.reachable_inv [OF r] by blast
qed

lemma replica_log_ms [simp]: "replica_log ms_view (replica w) = command_log w"
  by (simp add: replica_log_def)

section \<open>Acknowledgements\<close>

text \<open>
  C2. Whatever the interleaving of the tasks, clock ticks, messages and leader changes, an
  acknowledgement the replica has sent for a command carries the position of that command in
  the replica's log and the history hash of the log up to and including that position.
\<close>

theorem ack_identifies_prefix:
  assumes "kv_reachable finish config clk w"
    and "SequencePaxos \<lparr>pm_from = from_id, pm_to = to_id, pm_msg = Ack cmd hash speculation idx\<rparr> \<in> set (fetched w)"
  shows "0 < idx \<and> idx \<le> length (command_log w) \<and> command_log w ! (idx - 1) = cmd \<and>
         hash = MemoryStorage_history_hash Command_hash finish
                  (MemoryStorage_default\<lparr>ms_log := take idx (command_log w)\<rparr> :: CommandStorage)"
proof -
  have "(cmd, hash, idx) \<in> set (all_acks w)"
    using assms(2) by (force simp: all_acks_def)
  then have "ack_ok (log_hash finish) (command_log w) (cmd, hash, idx)"
    using kv_reachable_inv [OF assms(1)] by (auto simp: kvr.replica_inv_def acked_def)
  then show ?thesis by (simp add: ack_ok_def log_hash_def history_hash_concat)
qed

text \<open>
  C1. No command is lost, duplicated or invented: at any time every proposed command is in
  exactly one place, a task about to insert it, a buffer, the waiter, its channel or the log
  (up to its deadline, which buffering may change); and every position of the log has exactly
  one acknowledgement, fetched, queued or about to be queued.
\<close>

theorem proposals_conserved:
  assumes "kv_reachable finish config clk w"
  shows "mset (map (request_core Command_request) (in_flight (replica w) @ command_log w)) =
           mset (map (request_core Command_request) (proposed w)) \<and>
         mset (map (snd \<circ> snd) (all_acks w)) = mset [1..<length (command_log w) + 1]"
  using kv_reachable_inv [OF assms] by (simp add: kvr.replica_inv_def conserved_def acked_def)

section \<open>Example runs\<close>

definition example_paxos_config :: SequencePaxosConfig where
  "example_paxos_config = \<lparr>spc_pid = 1, spc_peers = [2, 3], spc_buffer_size = 10, spc_batch_size = 1,
     spc_flexible_quorum = None\<rparr>"

definition example_finish :: "HashToken list \<Rightarrow> u64" where
  "example_finish ts = of_nat (length ts)"

definition example_world :: "(CommandStorage, Command, Database) World" where
  "example_world = world_init
     (projr (SequencePaxos_with (kv_storage example_finish) example_paxos_config MemoryStorage_default
        (Clock_new 1 0 1 0 0 1000))) Database_new"

definition example_command :: "CommandId \<Rightarrow> SystemTime \<Rightarrow> KVCommand \<Rightarrow> Command" where
  "example_command k d kv = \<lparr>client_id = 1, coordinator_id = 1, cmd_id = k, private_id = k, deadline = d, kv_cmd = kv\<rparr>"

abbreviation cmd_a :: Command where "cmd_a \<equiv> example_command 0 20 (Put ''x'' ''1'')"
abbreviation cmd_b :: Command where "cmd_b \<equiv> example_command 1 10 (Get ''x'')"

abbreviation example_run :: "Command Event list \<Rightarrow> (CommandStorage, Command, Database) World option" where
  "example_run \<equiv> world_run (kv_storage example_finish) Command_request execute_command example_world"

text \<open>Two proposals; the waiter releases the second before the first, and both tasks are woken.\<close>

definition example_events :: "Command Event list" where
  "example_events =
     [Propose cmd_a, Propose cmd_b, RunTask 0 0, RunTask 0 0,
      WaiterTake cmd_b, WaiterRegister, Tick True, RunTask 2 0, WaiterNotify,
      WaiterTake cmd_a, WaiterRegister, Tick True, RunTask 2 0, WaiterNotify]"

lemmas run_simps =
  example_world_def example_paxos_config_def example_events_def example_command_def example_finish_def
  world_init_def SequencePaxos_with_def InternalStorage_with_def load_cache_def MemoryStorage_impl_def
  MemoryStorage_defs MemoryStorage_default_def StateCache_new_def InternalStorage_set_promise_def
  Quorum_with_def LeaderState_with_def Clock_new_def Buffers_new_def Database_new_def Ballot_default_def
  Let_def usize_add_def SequencePaxos_append_def accepted_reconfiguration_def InternalStorage_get_stopsign_def
  propose_entry_def handle_new_proposal_def spawn_def Buffers_insert_def eligible_def Command_request_def
  heap_push_def drop_sender_def waiter_take_def waiter_pop_def heap_pop_def waiter_register_def add_deadline_def
  clock_tick_def tick_fn_def tick_step_def process_deadlines_single process_deadlines_empty
  waiter_notify_def append_entries_and_get_accepted_idx_def StateCache_append_entries_def
  take_entries_if_batch_is_full_def take_batched_entries_def append_entries_without_batching_def
  history_hash_concat Command_hash_def paxos_msg_def take_outgoing_client_msgs_def word_le_nat_alt

lemma example_start:
  "\<exists>sp. SequencePaxos_with (kv_storage example_finish) example_paxos_config MemoryStorage_default
          (Clock_new 1 0 1 0 0 1000) = Inr sp \<and> example_world = world_init sp Database_new"
  by (simp add: run_simps)

lemma example_run_reachable:
  assumes "example_run evs = Some w" and "distinct (map private_id (proposed w))"
    and "length (proposed w) < usize_limit - 1"
  shows "kv_reachable example_finish example_paxos_config (Clock_new 1 0 1 0 0 1000) w"
proof -
  obtain sp where "SequencePaxos_with (kv_storage example_finish) example_paxos_config MemoryStorage_default
      (Clock_new 1 0 1 0 0 1000) = Inr sp" "example_world = world_init sp Database_new"
    using example_start by blast
  with run_reachable [OF assms(1) reachable.init] assms(2,3) show ?thesis
    unfolding kv_reachable_def by (auto simp: example_paxos_config_def Clock_new_def)
qed

text \<open>Both woken tasks append, the first proposal first, and the acknowledgements are fetched.\<close>

definition example_finishing :: "Command Event list" where
  "example_finishing = [RunTask 0 0, RunTask 0 0, RunTask 0 0, RunTask 0 0, TakeClientOutgoing]"

lemma example_result:
  "\<exists>w. example_run (example_events @ example_finishing) = Some w \<and> command_log w = [cmd_a, cmd_b] \<and>
     proposed w = [cmd_a, cmd_b] \<and> tasks (replica w) = [] \<and> waiter (replica w) = WaiterIdle \<and>
     queued (buffers (replica w)) = [] \<and> outgoing_clients (replica w) = [] \<and>
     fetched w = [SequencePaxos \<lparr>pm_from = 1, pm_to = 1, pm_msg = Ack cmd_a 4 None 1\<rparr>,
                  SequencePaxos \<lparr>pm_from = 1, pm_to = 1, pm_msg = Ack cmd_b 7 None 2\<rparr>]"
  by (simp add: run_simps example_finishing_def queued_def)

lemma example_result_reachable:
  obtains w where "kv_reachable example_finish example_paxos_config (Clock_new 1 0 1 0 0 1000) w"
    "command_log w = [cmd_a, cmd_b]" "proposed w = [cmd_a, cmd_b]" "in_flight (replica w) = []"
    "concat (map task_acks (tasks (replica w))) = []" "outgoing_clients (replica w) = []"
    "SequencePaxos \<lparr>pm_from = 1, pm_to = 1, pm_msg = Ack cmd_b 7 None 2\<rparr> \<in> set (fetched w)"
proof -
  obtain w where w: "example_run (example_events @ example_finishing) = Some w"
    "command_log w = [cmd_a, cmd_b]" "proposed w = [cmd_a, cmd_b]" "tasks (replica w) = []"
    "waiter (replica w) = WaiterIdle" "queued (buffers (replica w)) = []" "outgoing_clients (replica w) = []"
    "fetched w = [SequencePaxos \<lparr>pm_from = 1, pm_to = 1, pm_msg = Ack cmd_a 4 None 1\<rparr>,
                  SequencePaxos \<lparr>pm_from = 1, pm_to = 1, pm_msg = Ack cmd_b 7 None 2\<rparr>]"
    using example_result by blast
  then have "kv_reachable example_finish example_paxos_config (Clock_new 1 0 1 0 0 1000) w"
    by (intro example_run_reachable) (simp_all add: example_command_def)
  with w that show thesis by (simp add: place_defs)
qed

theorem ack_identifies_prefix_witness:
  "\<exists>w :: (CommandStorage, Command, Database) World. SequencePaxos \<lparr>pm_from = 1, pm_to = 1, pm_msg = Ack cmd_b 7 None 2\<rparr> \<in> set (fetched w) \<and>
     command_log w ! 1 = cmd_b \<and>
     7 = MemoryStorage_history_hash Command_hash example_finish
           (MemoryStorage_default\<lparr>ms_log := take 2 (command_log w)\<rparr> :: CommandStorage)"
proof -
  obtain w where w: "kv_reachable example_finish example_paxos_config (Clock_new 1 0 1 0 0 1000) w"
    "SequencePaxos \<lparr>pm_from = 1, pm_to = 1, pm_msg = Ack cmd_b 7 None 2\<rparr> \<in> set (fetched w)"
    using example_result_reachable by blast
  from ack_identifies_prefix [OF w] w(2) show ?thesis by (intro exI [of _ w]) simp
qed

theorem proposals_conserved_witness:
  "\<exists>w :: (CommandStorage, Command, Database) World. length (proposed w) = 2 \<and>
     mset (map (request_core Command_request) (in_flight (replica w) @ command_log w)) =
       mset (map (request_core Command_request) (proposed w)) \<and>
     mset (map (snd \<circ> snd) (all_acks w)) = mset [1..<length (command_log w) + 1]"
proof -
  obtain w where w: "kv_reachable example_finish example_paxos_config (Clock_new 1 0 1 0 0 1000) w"
    and l: "proposed w = [cmd_a, cmd_b]"
    using example_result_reachable by blast
  from proposals_conserved [OF w] l show ?thesis by (intro exI [of _ w]) simp
qed

section \<open>The order of the log\<close>


text \<open>
  C19. The waiter itself releases in deadline order: as long as the leader's new deadlines,
  those it assigns itself and those it announces, are not before the last release, the
  deadlines of the released commands never decrease.
\<close>

theorem releases_in_deadline_order:
  assumes "buffer_run Command_request Buffers_new evs = Some b" and "fresh_run Command_request Buffers_new evs"
  shows "sorted (map deadline (released evs))"
proof -
  have "release_ordered Command_request (Buffers_new :: Command Buffers)"
    by (simp add: release_ordered_def Buffers_new_def)
  from cmd.run_released [OF this assms(2,1)] show ?thesis by (simp add: Command_request_def)
qed

theorem releases_in_deadline_order_witness:
  "sorted (map deadline (released [BInsert (example_clock 1) cmd_a False 0, BInsert (example_clock 1) cmd_b False 1,
     BPop cmd_b, BPop cmd_a]))"
  by (rule releases_in_deadline_order [where b = "\<lparr>early = [], notifiers = Map.empty, late = [],
        last_released_deadline = Some 20\<rparr>"])
    (auto simp: run_simps)

text \<open>
  A new deadline from the leader is not checked against what was already released: after
  the release of a command with deadline 30, announcing deadline 15 for a late one puts it
  back into the heap, and it is released next, out of order.
\<close>

theorem late_release_out_of_order:
  "\<exists>b. buffer_run Command_request Buffers_new
         [BInsert (example_clock 1) (example_command 0 30 (Get ''x'')) False 0,
          BPop (example_command 0 30 (Get ''x'')),
          BInsert (example_clock 1) cmd_b False 1,
          BFree 1 15, BPop (example_command 1 15 (Get ''x''))] = Some b \<and>
       last_released_deadline b = Some 15 \<and>
       \<not> sorted (map deadline (released
         [BInsert (example_clock 1) (example_command 0 30 (Get ''x'')) False 0,
          BPop (example_command 0 30 (Get ''x'')),
          BInsert (example_clock 1) cmd_b False 1,
          BFree 1 15, BPop (example_command 1 15 (Get ''x''))]))"
  by (simp add: run_simps free_from_late_def)

section \<open>Batching\<close>

text \<open>
  C34. With a batch size above one the task of a proposal whose entry does not fill the batch
  panics on the missing accepted index: the entry stays in the batch, and no acknowledgement
  is ever produced for it.
\<close>

theorem partial_batch_panics:
  assumes "chans sp rx = Sent req"
    and "length (batched_entries (state_cache (internal_storage sp))) + 1 < batch_size (state_cache (internal_storage sp))"
  shows "\<exists>sp' m. run_task (kv_storage finish) Command_request now sp (ProposeAwait rx speculation) =
           Some (sp', [], Inl (Panic m)) \<and>
         batched_entries (state_cache (internal_storage sp')) =
           batched_entries (state_cache (internal_storage sp)) @ [req] \<and>
         storage (internal_storage sp') = storage (internal_storage sp) \<and>
         outgoing_clients sp' = outgoing_clients sp"
  using assms
  by (simp add: append_entries_and_get_accepted_idx_def StateCache_append_entries_def
      take_entries_if_batch_is_full_def)

theorem partial_batch_panics_witness:
  "\<exists>sp' m. run_task (kv_storage example_finish) Command_request 0
       ((replica example_world)\<lparr>chans := (\<lambda>_. Sent cmd_a),
          internal_storage := \<lparr>storage = MemoryStorage_default, state_cache = StateCache_new \<lparr>isc_batch_size = 2\<rparr>\<rparr>\<rparr>)
       (ProposeAwait 0 None) = Some (sp', [], Inl (Panic m))"
  using partial_batch_panics [of "(replica example_world)\<lparr>chans := (\<lambda>_. Sent cmd_a),
      internal_storage := \<lparr>storage = MemoryStorage_default, state_cache = StateCache_new \<lparr>isc_batch_size = 2\<rparr>\<rparr>\<rparr>"
      0 cmd_a example_finish 0 None]
  by (auto simp: StateCache_new_def)

end
