(* ===== verification/Omni_Paxos.thy ===== *)
theory Omni_Paxos
  imports Replica_Properties
begin

text \<open>
  \<^verbatim>\<open>omnipaxos/src/omni_paxos.rs\<close>: the server-facing node, which joins leader election, the replica of
  the log and the tick counter that drives elections.

  Shown: a node's promise only grows, whatever it is called with, and stays equal to its leader
  ballot; \<open>try_become_leader\<close> makes it leader whenever the round number does not overflow, and
  never when it does; no node ever enters the accept phase.
\<close>

record ('s, 't) OmniPaxos =
  seq_paxos :: "('s, 't) SequencePaxos"
  ble :: BallotLeaderElection
  election_clock :: LogicalClock

text \<open>A result that can only be a panic keeps it under another error type.\<close>

fun panic_only :: "('e, 'a) result \<Rightarrow> ('f, 'a) result" where
  "panic_only (Inl (Panic m)) = Inl (Panic m)"
| "panic_only (Inl (Err _)) = Inl (Panic ''unreachable'')"
| "panic_only (Inr x) = Inr x"

definition OmniPaxosConfig_build ::
  "('s, 't, 'n) Storage \<Rightarrow> OmniPaxosConfig \<Rightarrow> 's \<Rightarrow> ClockState \<Rightarrow> (ConfigError, ('s, 't) OmniPaxos) result"
  where
  "OmniPaxosConfig_build S config st clk =
     (case OmniPaxosConfig_validate config of
        Inl e \<Rightarrow> Inl (Err e)
      | Inr _ \<Rightarrow>
          try_result (panic_only (expect ''storage error while trying to read promise'' (get_promise S st)))
            (\<lambda>recovered_leader.
          let b = BallotLeaderElection_with (BLEConfig_from config) recovered_leader;
              ec = LogicalClock_with (election_tick_timeout (server_config config))
          in try_result (panic_only (SequencePaxos_with S (SequencePaxosConfig_from config) st clk)) (\<lambda>sp.
               Inr \<lparr>seq_paxos = sp, ble = b, election_clock = ec\<rparr>)))"

definition build_for_server ::
  "('s, 't, 'n) Storage \<Rightarrow> ClusterConfig \<Rightarrow> ServerConfig \<Rightarrow> 's \<Rightarrow> ClockState \<Rightarrow>
   (ConfigError, ('s, 't) OmniPaxos) result" where
  "build_for_server S cluster server with_storage clk =
     OmniPaxosConfig_build S \<lparr>cluster_config = cluster, server_config = server\<rparr> with_storage clk"

section \<open>Queries\<close>

definition OmniPaxos_get_current_leader :: "('s, 't) OmniPaxos \<Rightarrow> (NodeId \<times> bool) option" where
  "OmniPaxos_get_current_leader op =
     (let promised_pid = b_pid (SequencePaxos_get_promise (seq_paxos op))
      in if promised_pid = 0 then None
         else Some (promised_pid, snd (SequencePaxos_get_state (seq_paxos op)) = Accept))"

definition OmniPaxos_get_promise :: "('s, 't) OmniPaxos \<Rightarrow> Ballot" where
  "OmniPaxos_get_promise op = SequencePaxos_get_promise (seq_paxos op)"

definition OmniPaxos_read ::
  "('s, 't, 'n) Storage \<Rightarrow> ('s, 't) OmniPaxos \<Rightarrow> usize \<Rightarrow> 't LogEntry option StorageResult" where
  "OmniPaxos_read S op idx =
     try_result (expect ''storage error while trying to read log entries''
       (InternalStorage_read S (internal_storage (seq_paxos op)) (Included idx) (Excluded (usize_add idx 1))))
       (\<lambda>r. Inr (case r of Some v \<Rightarrow> (if v = [] then None else Some (last v)) | None \<Rightarrow> None))"

definition OmniPaxos_read_entries ::
  "('s, 't, 'n) Storage \<Rightarrow> ('s, 't) OmniPaxos \<Rightarrow> Bound \<Rightarrow> Bound \<Rightarrow> 't LogEntry list option StorageResult" where
  "OmniPaxos_read_entries S op lo hi =
     expect ''storage error while trying to read log entries''
       (InternalStorage_read S (internal_storage (seq_paxos op)) lo hi)"

definition OmniPaxos_read_decided_suffix ::
  "('s, 't, 'n) Storage \<Rightarrow> ('s, 't) OmniPaxos \<Rightarrow> usize \<Rightarrow> 't LogEntry list option StorageResult" where
  "OmniPaxos_read_decided_suffix S op from_idx =
     expect ''storage error while trying to read decided log suffix''
       (InternalStorage_read_decided_suffix S (internal_storage (seq_paxos op)) from_idx)"

definition OmniPaxos_is_reconfigured :: "('s, 't) OmniPaxos \<Rightarrow> StopSign option" where
  "OmniPaxos_is_reconfigured op = SequencePaxos_is_reconfigured (seq_paxos op)"

section \<open>Operations\<close>

definition take_outgoing_messages ::
  "('s, 't) OmniPaxos \<Rightarrow> 't Message list \<Rightarrow> ('s, 't) OmniPaxos \<times> 't Message list" where
  "take_outgoing_messages op buffer =
     (let (sp, buffer) = take_outgoing_msgs (seq_paxos op) buffer
      in (op\<lparr>seq_paxos := sp, ble := (ble op)\<lparr>ble_outgoing := []\<rparr>\<rparr>,
          buffer @ map BLE (ble_outgoing (ble op))))"

definition take_client_outgoing_messages ::
  "('s, 't) OmniPaxos \<Rightarrow> 't Message list \<Rightarrow> ('s, 't) OmniPaxos \<times> 't Message list" where
  "take_client_outgoing_messages op buffer =
     (let (sp, buffer) = take_outgoing_client_msgs (seq_paxos op) buffer
      in (op\<lparr>seq_paxos := sp\<rparr>, buffer))"

definition handle_incoming ::
  "('d \<Rightarrow> 't \<Rightarrow> 'd \<times> string option option) \<Rightarrow> 'd \<Rightarrow> ('s, 't) OmniPaxos \<Rightarrow> 't Message \<Rightarrow>
   'd \<times> ('s, 't) OmniPaxos" where
  "handle_incoming e db op m =
     (case m of
        SequencePaxos p \<Rightarrow>
          (let (db, sp) = SequencePaxos_handle e db (seq_paxos op) p in (db, op\<lparr>seq_paxos := sp\<rparr>))
      | BLE b \<Rightarrow> (db, op\<lparr>ble := BallotLeaderElection_handle (ble op) b\<rparr>))"

definition OmniPaxos_append ::
  "('d \<Rightarrow> 't \<Rightarrow> 'd \<times> string option option) \<Rightarrow> 'd \<Rightarrow> ('s, 't) OmniPaxos \<Rightarrow> 't \<Rightarrow>
   'd \<times> ('s, 't) OmniPaxos \<times> ('t ProposeErr + unit)" where
  "OmniPaxos_append s db op entry =
     (let (db, sp, r) = SequencePaxos_append s db (seq_paxos op) entry in (db, op\<lparr>seq_paxos := sp\<rparr>, r))"

definition OmniPaxos_reconfigure ::
  "('s, 't) OmniPaxos \<Rightarrow> ClusterConfig \<Rightarrow> 8 word list option \<Rightarrow> 't ProposeErr + unit" where
  "OmniPaxos_reconfigure op new_configuration meta =
     (case ClusterConfig_validate new_configuration of
        Inl config_error \<Rightarrow> Inl (ProposeConfigError config_error new_configuration meta)
      | Inr _ \<Rightarrow> SequencePaxos_reconfigure (seq_paxos op) new_configuration meta)"

definition OmniPaxos_reconnected :: "('s, 't) OmniPaxos \<Rightarrow> NodeId \<Rightarrow> ('s, 't) OmniPaxos" where
  "OmniPaxos_reconnected op pid = op\<lparr>seq_paxos := SequencePaxos_reconnected (seq_paxos op) pid\<rparr>"

definition election_timeout ::
  "('s, 't, 'n) Storage \<Rightarrow> ('s, 't) OmniPaxos \<Rightarrow> ('s, 't) OmniPaxos \<times> unit StorageResult" where
  "election_timeout S op =
     (let (b, elected) = hb_timeout (ble op) (SequencePaxos_get_state (seq_paxos op))
                           (SequencePaxos_get_promise (seq_paxos op));
          op = op\<lparr>ble := b\<rparr>
      in case elected of
           Some new_leader \<Rightarrow>
             (let (sp, r) = handle_leader S (seq_paxos op) new_leader in (op\<lparr>seq_paxos := sp\<rparr>, r))
         | None \<Rightarrow> (op, Inr ()))"

definition OmniPaxos_tick ::
  "('s, 't, 'n) Storage \<Rightarrow> ('s, 't) OmniPaxos \<Rightarrow> ('s, 't) OmniPaxos \<times> unit StorageResult" where
  "OmniPaxos_tick S op =
     (let (c, timeout) = tick_and_check_timeout (election_clock op);
          op = op\<lparr>election_clock := c\<rparr>
      in if timeout then election_timeout S op else (op, Inr ()))"

definition try_become_leader ::
  "('s, 't, 'n) Storage \<Rightarrow> ('s, 't) OmniPaxos \<Rightarrow> ('s, 't) OmniPaxos \<times> unit StorageResult" where
  "try_become_leader S op =
     (let my_ballot = get_current_ballot (ble op);
          prom = SequencePaxos_get_promise (seq_paxos op);
          my_ballot = my_ballot\<lparr>b_n := b_n prom + 1\<rparr>;
          (sp, r) = handle_leader S (seq_paxos op) my_ballot
      in (op\<lparr>seq_paxos := sp\<rparr>, r))"

definition OmniPaxos_set_priority :: "('s, 't) OmniPaxos \<Rightarrow> u32 \<Rightarrow> ('s, 't) OmniPaxos" where
  "OmniPaxos_set_priority op p = op\<lparr>ble := BallotLeaderElection_set_priority (ble op) p\<rparr>"

section \<open>Promises and leadership\<close>

text \<open>The leader ballot is the promise, and the replica is not in the accept phase.\<close>

definition promise_invar :: "('s, 't) SequencePaxos \<Rightarrow> bool" where
  "promise_invar sp \<longleftrightarrow> n_leader (leader_state sp) = SequencePaxos_get_promise sp \<and>
     snd (sp_state sp) \<noteq> Accept"

context log_storage
begin

text \<open>How a leader change acts on a replica with a coherent storage and room in the log.\<close>

lemma handle_leader_effect:
  assumes "coh (internal_storage sp)"
    and "accepted_idx (state_cache (internal_storage sp)) +
           length (batched_entries (state_cache (internal_storage sp))) < usize_limit"
    and "n_leader (leader_state sp) < n" and "SequencePaxos_get_promise sp < n" and "sp_pid sp = b_pid n"
  shows "\<exists>sp'. handle_leader S sp n = (sp', Inr ()) \<and> SequencePaxos_get_promise sp' = n \<and>
           n_leader (leader_state sp') = n \<and> sp_state sp' = (Leader, Prepare) \<and> coh (internal_storage sp')"
proof -
  obtain i1 k where f: "flush_batch S (internal_storage sp) = (i1, Inr k)" "coh i1"
    using flush_batch_law [OF assms(1,2)] by blast
  obtain i2 where g: "InternalStorage_set_promise S i1 n = (i2, Inr ())" "coh i2"
    "state_cache i2 = (state_cache i1)\<lparr>promise := n\<rparr>"
    using set_promise_coherent [OF f(2)] by blast
  have "\<not> n \<le> n_leader (leader_state sp)" "\<not> n \<le> SequencePaxos_get_promise sp"
    using assms(3,4) by (auto simp only: less_le_not_le)
  with f g assms(5) show ?thesis
    by (simp add: handle_leader_def Let_def SequencePaxos_get_promise_def InternalStorage_get_promise_def
        LeaderState_with_def del: ballot_not_le ballot_not_less)
qed

lemma handle_leader_stays:
  assumes "n \<le> n_leader (leader_state sp) \<or> n \<le> SequencePaxos_get_promise sp"
  shows "handle_leader S sp n = (sp, Inr ())"
  using assms by (simp only: handle_leader_def if_True)

lemma handle_leader_promise:
  assumes "coh (internal_storage sp)"
    and "accepted_idx (state_cache (internal_storage sp)) +
           length (batched_entries (state_cache (internal_storage sp))) < usize_limit"
    and "promise_invar sp"
  shows "\<exists>sp'. handle_leader S sp n = (sp', Inr ()) \<and> promise_invar sp' \<and>
           SequencePaxos_get_promise sp \<le> SequencePaxos_get_promise sp' \<and> coh (internal_storage sp')"
proof -
  have same: "n_leader (leader_state sp) = SequencePaxos_get_promise sp"
    using assms(3) by (simp add: promise_invar_def)
  show ?thesis
  proof (cases "n \<le> SequencePaxos_get_promise sp")
    case True
    then have "handle_leader S sp n = (sp, Inr ())" by (intro handle_leader_stays) simp
    with assms(1,3) show ?thesis by simp
  next
    case False
    then have less: "SequencePaxos_get_promise sp < n" by simp
    show ?thesis
    proof (cases "sp_pid sp = b_pid n")
      case True
      obtain sp' where "handle_leader S sp n = (sp', Inr ())" "SequencePaxos_get_promise sp' = n"
        "n_leader (leader_state sp') = n" "sp_state sp' = (Leader, Prepare)" "coh (internal_storage sp')"
        using handle_leader_effect [OF assms(1,2)] same less True by metis
      with less show ?thesis by (simp add: promise_invar_def less_imp_le)
    next
      case pid: False
      have "handle_leader S sp n = (become_follower sp, Inr ())"
        using False pid same by (simp add: handle_leader_def del: ballot_not_le ballot_not_less)
      with assms(1,3) show ?thesis
        by (simp add: become_follower_def promise_invar_def SequencePaxos_get_promise_def)
    qed
  qed
qed

end

text \<open>The server's node, as \<open>build\<close> makes it over an empty storage.\<close>

text \<open>
  C24. Leadership on demand: \<open>try_become_leader\<close> on a node whose own ballot carries its process
  id makes it the leader with the next round number after its promise, unless that number
  overflows \<open>u32\<close>: then the ballot wraps around to round 0 and nothing changes.
\<close>

theorem try_become_leader_outcome:
  assumes "coherent ms_view ms_invar (internal_storage (seq_paxos op))" and "promise_invar (seq_paxos op)"
    and "batched_entries (state_cache (internal_storage (seq_paxos op))) = []"
    and "b_pid (current_ballot (ble op)) = sp_pid (seq_paxos op)"
  shows "\<exists>op'. try_become_leader (kv_storage finish) op = (op', Inr ()) \<and>
           (if b_n (OmniPaxos_get_promise op) = - 1 then op' = op
            else OmniPaxos_get_promise op' =
                   (current_ballot (ble op))\<lparr>b_n := b_n (OmniPaxos_get_promise op) + 1\<rparr> \<and>
                 sp_state (seq_paxos op') = (Leader, Prepare))"
proof -
  let ?sp = "seq_paxos op" and ?p = "SequencePaxos_get_promise (seq_paxos op)"
  let ?b = "(current_ballot (ble op))\<lparr>b_n := b_n ?p + 1\<rparr>"
  have same: "n_leader (leader_state ?sp) = ?p" using assms(2) by (simp add: promise_invar_def)
  have room: "accepted_idx (state_cache (internal_storage ?sp)) +
      length (batched_entries (state_cache (internal_storage ?sp))) < usize_limit"
    using assms(1,3) by (simp add: coherent_def)
  have tries: "try_become_leader (kv_storage finish) op =
      (let (sp, r) = handle_leader (kv_storage finish) ?sp ?b in (op\<lparr>seq_paxos := sp\<rparr>, r))"
    by (simp add: try_become_leader_def get_current_ballot_def Let_def)
  show ?thesis
  proof (cases "b_n ?p = - 1")
    case True
    then have "?b < ?p"
      by (intro ballot_less_n) (simp add: word_greater_zero_iff)
    then have "handle_leader (kv_storage finish) ?sp ?b = (?sp, Inr ())"
      by (intro mem.handle_leader_stays disjI2 less_imp_le)
    with True tries show ?thesis by (simp add: OmniPaxos_get_promise_def)
  next
    case False
    then have "?p < ?b" using u32_succ_less [of "b_n ?p"] by (intro ballot_less_n) simp
    with mem.handle_leader_effect [OF assms(1) room, where n = ?b and hash = Command_hash and finish = finish]
      same assms(4) False tries show ?thesis
      by (auto simp: OmniPaxos_get_promise_def)
  qed
qed

definition leader_example :: "(CommandStorage, Command) OmniPaxos" where
  "leader_example = \<lparr>seq_paxos = replica example_world,
     ble = BallotLeaderElection_with \<lparr>blec_configuration_id = 1, blec_pid = 1, blec_peers = [2, 3],
       blec_priority = 0, blec_flexible_quorum = None, blec_buffer_size = 100\<rparr> None,
     election_clock = LogicalClock_with 1\<rparr>"

lemma example_world_inv: "kvr.replica_inv example_finish example_world"
proof -
  have "example_run [] = Some example_world" by simp
  then show ?thesis
    by (rule kv_reachable_inv [OF example_run_reachable]) (simp_all add: example_world_def world_init_def)
qed

lemma leader_example_promise: "promise_invar (seq_paxos leader_example)"
  by (simp add: leader_example_def promise_invar_def SequencePaxos_get_promise_def
      InternalStorage_get_promise_def run_simps Ballot_with_def)

theorem try_become_leader_outcome_witness:
  "\<exists>op'. try_become_leader (kv_storage example_finish) leader_example = (op', Inr ()) \<and>
     OmniPaxos_get_promise op' = Ballot_with 1 1 0 1 \<and> sp_state (seq_paxos op') = (Leader, Prepare)"
proof -
  have coh: "coherent ms_view ms_invar (internal_storage (seq_paxos leader_example))"
    "batched_entries (state_cache (internal_storage (seq_paxos leader_example))) = []"
    using example_world_inv by (simp_all add: leader_example_def kvr.replica_inv_def stored_def)
  have ble: "current_ballot (ble leader_example) = Ballot_with 1 1 0 1"
    by (simp add: leader_example_def BallotLeaderElection_with_def INITIAL_ROUND_def Let_def new_hb_round_def)
  have pid: "b_pid (current_ballot (ble leader_example)) = sp_pid (seq_paxos leader_example)"
    unfolding ble by (simp add: leader_example_def run_simps Ballot_with_def)
  have prom: "b_n (OmniPaxos_get_promise leader_example) = 0"
    by (simp add: leader_example_def OmniPaxos_get_promise_def SequencePaxos_get_promise_def
        InternalStorage_get_promise_def run_simps Ballot_with_def)
  from try_become_leader_outcome [OF coh(1) leader_example_promise coh(2) pid, of example_finish]
  show ?thesis by (auto simp: ble prom Ballot_with_def)
qed

section \<open>Promises along a run\<close>

context paxos_replica
begin

lemma stored_promise:
  assumes "stored view invar i" and "stored view invar i'" and "v_promise (iview i') = v_promise (iview i)"
  shows "promise (state_cache i') = promise (state_cache i)"
  using assms by (simp add: stored_def coherent_def)

lemma run_task_promise:
  assumes "replica_inv w" and "proposals_ok w" and "tasks (replica w) = ts1 @ t # ts2"
    and "run_task S R now ((replica w)\<lparr>tasks := ts1 @ ts2\<rparr>) t = Some (sp, rest, r)"
  shows "SequencePaxos_get_promise sp = SequencePaxos_get_promise (replica w) \<and>
    leader_state sp = leader_state (replica w) \<and> sp_state sp = sp_state (replica w)"
proof -
  have st: "stored view invar (internal_storage (replica w))" and C: "conserved view R w"
    using assms(1) by (simp_all add: replica_inv_def)
  have frame: "leader_state sp = leader_state (replica w) \<and> sp_state sp = sp_state (replica w)"
    using assms(4)
    by (cases t) (auto simp: Let_def split_beta split: option.splits Oneshot.splits if_splits list.splits sum.splits
        OutgoingRef.splits)
  have "promise (state_cache (internal_storage sp)) = promise (state_cache (internal_storage (replica w)))"
  proof (cases "(\<exists>k. t = SetDecided k) \<or> (\<exists>rx s. t = ProposeAwait rx s)")
    case False
    then have "internal_storage sp = internal_storage (replica w)"
      using assms(4)
      by (cases t) (auto simp: Let_def split_beta split: option.splits if_splits list.splits sum.splits
          OutgoingRef.splits)
    then show ?thesis by simp
  next
    case True
    have "length (v_log (iview (internal_storage (replica w)))) < usize_limit - 1"
      using log_bound [OF C assms(2)] by (simp add: replica_log_def)
    note append = append_stored [OF st this]
    from True consider k where "t = SetDecided k" | rx s where "t = ProposeAwait rx s" by blast
    then show ?thesis
    proof cases
      case 1
      with assms(4) set_decided_stored(4) [OF st] show ?thesis
        by (auto simp: split_beta prod_eq_iff)
    next
      case 2
      show ?thesis
      proof (cases "chans (replica w) rx")
        case (Sent req)
        obtain i' r' where i': "append_entries_and_get_accepted_idx S (internal_storage (replica w)) [req] = (i', r')"
          by (cases "append_entries_and_get_accepted_idx S (internal_storage (replica w)) [req]")
        have "internal_storage sp = i'"
          using assms(4) 2 Sent i' append(3) [OF i'] by auto
        moreover have "v_promise (iview i') = v_promise (iview (internal_storage (replica w)))"
          using append_and_get_accepted [of "internal_storage (replica w)" "[req]"] i' st
            stored_accepted [OF st] \<open>length _ < _\<close>
          by (auto simp: stored_def)
        ultimately show ?thesis using stored_promise [OF st append(1) [OF i']] by simp
      qed (use assms(4) 2 in auto)
    qed
  qed
  with frame show ?thesis by (simp add: SequencePaxos_get_promise_def InternalStorage_get_promise_def)
qed

lemma step_promise:
  assumes "replica_inv w" and "proposals_ok w" and "promise_invar (replica w)"
    and "world_step S R e w ev = Some w'"
  shows "promise_invar (replica w') \<and>
    SequencePaxos_get_promise (replica w) \<le> SequencePaxos_get_promise (replica w')"
proof -
  let ?keeps = "SequencePaxos_get_promise (replica w') = SequencePaxos_get_promise (replica w) \<and>
    leader_state (replica w') = leader_state (replica w) \<and> snd (sp_state (replica w')) \<noteq> Accept"
  have ok: "snd (sp_state (replica w)) \<noteq> Accept" using assms(3) by (simp add: promise_invar_def)
  have "?keeps \<or> (\<exists>n. ev = NewLeader n)"
  proof (cases ev)
    case (RunTask k now)
    let ?ts = "tasks (replica w)"
    obtain sp rest r where k: "k < length ?ts"
      and run: "run_task S R now ((replica w)\<lparr>tasks := take k ?ts @ drop (Suc k) ?ts\<rparr>) (?ts ! k) = Some (sp, rest, r)"
      and w': "replica w' = sp\<lparr>tasks := tasks sp @ rest\<rparr>"
      using assms(4) RunTask by (auto split: if_splits option.splits)
    have "?ts = take k ?ts @ ?ts ! k # drop (Suc k) ?ts" using k by (simp add: id_take_nth_drop)
    from run_task_promise [OF assms(1,2) this run] w' ok show ?thesis
      by (simp add: SequencePaxos_get_promise_def)
  next
    case (Propose entry)
    with assms(4) ok show ?thesis
      by (auto simp: SequencePaxos_append_def propose_entry_def handle_new_proposal_def spawn_def Let_def
          SequencePaxos_get_promise_def split_beta split: prod.splits Role.splits if_splits)
  next
    case (Deliver m)
    with assms(4) ok show ?thesis
      by (cases "pm_msg m") (auto simp: SequencePaxos_handle_def handle_execution_def handle_new_deadline_def
          handle_resync_answer_def handle_resync_request_def spawn_def Let_def SequencePaxos_get_promise_def)
  next
    case WaiterNotify
    with assms(4) ok show ?thesis
      by (auto simp: waiter_notify_def SequencePaxos_get_promise_def split: Waiter.splits Oneshot.splits option.splits)
  next
    case (WaiterTake req)
    with assms(4) ok show ?thesis
      by (auto simp: waiter_take_def SequencePaxos_get_promise_def split: Waiter.splits)
  next
    case WaiterRegister
    with assms(4) ok show ?thesis
      by (auto simp: waiter_register_def Let_def SequencePaxos_get_promise_def split: Waiter.splits)
  qed (use assms(4) ok in \<open>auto simp: clock_tick_def split_beta take_outgoing_msgs_def take_outgoing_client_msgs_def
      SequencePaxos_reconnected_def SequencePaxos_get_promise_def split: if_splits\<close>)
  then show ?thesis
  proof
    assume ?keeps
    then show ?thesis using assms(3) by (simp add: promise_invar_def)
  next
    assume "\<exists>n. ev = NewLeader n"
    then obtain n where n: "ev = NewLeader n" by blast
    have st: "coh (internal_storage (replica w))" "batched_entries (state_cache (internal_storage (replica w))) = []"
      using assms(1) by (auto simp: replica_inv_def stored_def)
    then have "accepted_idx (state_cache (internal_storage (replica w))) +
        length (batched_entries (state_cache (internal_storage (replica w)))) < usize_limit"
      by (simp add: coherent_def)
    from handle_leader_promise [OF st(1) this assms(3), of n] n assms(4) show ?thesis by auto
  qed
qed

lemma reachable_promise:
  assumes "reachable S R e w0 w" and "replica_inv w0" and "promise_invar (replica w0)" and "proposals_ok w"
  shows "promise_invar (replica w) \<and>
    SequencePaxos_get_promise (replica w0) \<le> SequencePaxos_get_promise (replica w)"
  using assms
proof (induction rule: reachable.induct)
  case init
  then show ?case by simp
next
  case (step w ev w')
  then have ok: "proposals_ok w" using step_proposals_ok by blast
  then have "replica_inv w" using reachable_inv step by blast
  with step step_promise [OF this ok _ step(2)] ok show ?case by (meson order_trans)
qed

end



end
