(* ===== verification/Network.thy ===== *)
theory Network
  imports Common
begin

text \<open>
  \<^verbatim>\<open>src/server/network.rs\<close>: the connections of a server to its peers and clients. Sockets and framing
  are outside the model, the reader and writer tasks are in \<open>Connections\<close>; a connection is its id, the queue of
  messages its writer has to send, and whether that writer still runs (a send to a finished
  writer fails). Incoming connections arrive as registration messages.

  Shown: client ids are handed out consecutively; a message reaches only the queue of the
  addressee's open connection; and a failed send drops exactly that connection.
\<close>

record 'm Connection =
  conn_id :: u64
  conn_open :: bool
  conn_out :: "'m list"

definition Connection_new :: "u64 \<Rightarrow> 'm Connection" where
  "Connection_new i = \<lparr>conn_id = i, conn_open = True, conn_out = []\<rparr>"

text \<open>\<open>UnboundedSender::send\<close>: fails when the writer task is gone.\<close>

definition Connection_send :: "'m Connection \<Rightarrow> 'm \<Rightarrow> 'm Connection \<times> ('m + unit)" where
  "Connection_send c msg =
     (if conn_open c then (c\<lparr>conn_out := conn_out c @ [msg]\<rparr>, Inr ()) else (c, Inl msg))"

record Network =
  net_peers :: "NodeId list"
  peer_connections :: "ClusterMessage Connection option list"
  client_connections :: "ClientId \<rightharpoonup> ServerMessage Connection"
  max_client_id :: ClientId
  net_batch_size :: usize

datatype NewConnection = ToPeer "ClusterMessage Connection" | ToClient "ServerMessage Connection"

text \<open>
  \<open>new\<close> before any connection is made: the peers are the nodes with an address other than the
  node itself (\<open>zip\<close> stops at the shorter list).
\<close>

definition peer_addresses :: "NodeId \<Rightarrow> NodeId list \<Rightarrow> string list \<Rightarrow> (NodeId \<times> string) list" where
  "peer_addresses my_id nodes addrs = filter (\<lambda>(node_id, _). node_id \<noteq> my_id) (zip nodes addrs)"

definition Network_new :: "NodeId \<Rightarrow> NodeId list \<Rightarrow> string list \<Rightarrow> usize \<Rightarrow> Network" where
  "Network_new my_id nodes addrs batch =
     (let peers = peer_addresses my_id nodes addrs
      in \<lparr>net_peers = map fst peers, peer_connections = replicate (length peers) None,
          client_connections = Map.empty, max_client_id = 0, net_batch_size = batch\<rparr>)"

definition cluster_id_to_idx :: "Network \<Rightarrow> NodeId \<Rightarrow> usize option" where
  "cluster_id_to_idx n i = position (\<lambda>p. p = i) (net_peers n)"

text \<open>The peers a node connects to itself; the others connect to it.\<close>

definition peers_to_connect_to :: "NodeId \<Rightarrow> (NodeId \<times> string) list \<Rightarrow> (NodeId \<times> string) list" where
  "peers_to_connect_to my_id peers = filter (\<lambda>(peer_id, _). peer_id < my_id) peers"

text \<open>
  \<open>handle_incoming_connection\<close> after the handshake: \<open>None\<close> when the handshake failed.
\<close>

definition handle_incoming_connection ::
  "Network \<Rightarrow> RegistrationMessage option \<Rightarrow> Network \<times> NewConnection option" where
  "handle_incoming_connection n reg =
     (case reg of
        Some (NodeRegister node_id) \<Rightarrow> (n, Some (ToPeer (Connection_new node_id)))
      | Some ClientRegister \<Rightarrow>
          (let next_client_id = max_client_id n + 1
           in (n\<lparr>max_client_id := next_client_id\<rparr>, Some (ToClient (Connection_new next_client_id))))
      | None \<Rightarrow> (n, None))"

text \<open>
  The body of the loop of \<open>initialize_connections\<close>: the result says whether the server stops
  waiting for connections. \<open>card (dom ..)\<close> is the \<open>len\<close> of the hash map.
\<close>

definition initialize_connection :: "usize \<Rightarrow> Network \<Rightarrow> NewConnection \<Rightarrow> (unit, Network \<times> bool) result" where
  "initialize_connection num_clients n new_connection =
     try_result
       (case new_connection of
          ToPeer connection \<Rightarrow>
            try_result (unwrap ''unwrap on None'' (cluster_id_to_idx n (conn_id connection))) (\<lambda>peer_idx.
              Inr (n\<lparr>peer_connections := (peer_connections n)[peer_idx := Some connection]\<rparr>))
        | ToClient connection \<Rightarrow>
            Inr (n\<lparr>client_connections := (client_connections n)(conn_id connection \<mapsto> connection)\<rparr>))
       (\<lambda>n. let all_clients_connected = (num_clients \<le> card (dom (client_connections n)));
                all_cluster_connected = list_all (\<lambda>c. c \<noteq> None) (peer_connections n)
            in Inr (n, all_clients_connected \<and> all_cluster_connected))"

section \<open>Sending\<close>

definition send_to_cluster :: "Network \<Rightarrow> NodeId \<Rightarrow> ClusterMessage \<Rightarrow> Network" where
  "send_to_cluster n to_id msg =
     (case cluster_id_to_idx n to_id of
        Some idx \<Rightarrow>
          (case peer_connections n ! idx of
             Some connection \<Rightarrow>
               (case Connection_send connection msg of
                  (c, Inr _) \<Rightarrow> n\<lparr>peer_connections := (peer_connections n)[idx := Some c]\<rparr>
                | (c, Inl _) \<Rightarrow> n\<lparr>peer_connections := (peer_connections n)[idx := None]\<rparr>)
           | None \<Rightarrow> n)
      | None \<Rightarrow> n)"

definition send_to_client :: "Network \<Rightarrow> ClientId \<Rightarrow> ServerMessage \<Rightarrow> Network" where
  "send_to_client n to_id msg =
     (case client_connections n to_id of
        Some connection \<Rightarrow>
          (case Connection_send connection msg of
             (c, Inr _) \<Rightarrow> n\<lparr>client_connections := (client_connections n)(to_id \<mapsto> c)\<rparr>
           | (c, Inl _) \<Rightarrow> n\<lparr>client_connections := (client_connections n)(to_id := None)\<rparr>)
      | None \<Rightarrow> n)"

definition Network_shutdown :: "Network \<Rightarrow> Network" where
  "Network_shutdown n =
     n\<lparr>client_connections := Map.empty, peer_connections := replicate (length (net_peers n)) None\<rparr>"

section \<open>Properties\<close>

text \<open>There is a slot for every peer, and every connection is filed under its own id.\<close>

definition net_invar :: "Network \<Rightarrow> bool" where
  "net_invar n \<longleftrightarrow>
     length (peer_connections n) = length (net_peers n) \<and> distinct (net_peers n) \<and>
     (\<forall>i c. i < length (net_peers n) \<longrightarrow> peer_connections n ! i = Some c \<longrightarrow> conn_id c = net_peers n ! i) \<and>
     (\<forall>k c. client_connections n k = Some c \<longrightarrow> conn_id c = k)"

lemma cluster_idx:
  assumes "cluster_id_to_idx n to_id = Some idx"
  shows "idx < length (net_peers n)" and "net_peers n ! idx = to_id"
  using assms position_Some [of "\<lambda>p. p = to_id" "net_peers n" idx] by (auto simp: cluster_id_to_idx_def)

lemma Connection_send_id [simp]: "conn_id (fst (Connection_send c m)) = conn_id c"
  by (simp add: Connection_send_def)

lemma Network_new_invar: "distinct nodes \<Longrightarrow> net_invar (Network_new my_id nodes addrs batch)"
proof -
  assume "distinct nodes"
  then have "distinct (map fst (zip nodes addrs))" by (simp add: map_fst_zip_take)
  then have "distinct (map fst (peer_addresses my_id nodes addrs))"
    by (simp add: peer_addresses_def distinct_map_filter)
  then show ?thesis by (simp add: net_invar_def Network_new_def Let_def)
qed

lemma set_slot_invar:
  assumes "net_invar n" and "idx < length (net_peers n)"
    and "\<And>c. slot = Some c \<Longrightarrow> conn_id c = net_peers n ! idx"
  shows "net_invar (n\<lparr>peer_connections := (peer_connections n)[idx := slot]\<rparr>)"
proof -
  have len: "idx < length (peer_connections n)" using assms(1,2) by (simp add: net_invar_def)
  have "conn_id c = net_peers n ! i"
    if "i < length (net_peers n)" "(peer_connections n)[idx := slot] ! i = Some c" for i c
    using that assms len by (cases "i = idx") (auto simp: net_invar_def)
  then show ?thesis using assms(1) by (auto simp: net_invar_def)
qed

lemma send_to_cluster_invar:
  assumes "net_invar n"
  shows "net_invar (send_to_cluster n to_id msg)"
proof (cases "cluster_id_to_idx n to_id")
  case (Some idx)
  note idx = cluster_idx [OF Some]
  show ?thesis
  proof (cases "peer_connections n ! idx")
    case slot: (Some c)
    then have "conn_id c = net_peers n ! idx" using assms idx by (auto simp: net_invar_def)
    with Some slot idx assms show ?thesis
      by (auto simp: send_to_cluster_def Connection_send_def intro!: set_slot_invar)
  qed (use Some assms in \<open>simp add: send_to_cluster_def\<close>)
qed (use assms in \<open>simp add: send_to_cluster_def\<close>)

lemma send_to_client_invar: "net_invar n \<Longrightarrow> net_invar (send_to_client n to_id msg)"
  by (auto simp: send_to_client_def net_invar_def Connection_send_def split: option.split if_splits)

lemma shutdown_invar: "net_invar n \<Longrightarrow> net_invar (Network_shutdown n)"
  by (auto simp: Network_shutdown_def net_invar_def)

lemma initialize_invar:
  assumes "net_invar n" and "initialize_connection num n c = Inr (n', stop)"
  shows "net_invar n'"
proof (cases c)
  case (ToPeer conn)
  then obtain idx where "cluster_id_to_idx n (conn_id conn) = Some idx"
    and "n' = n\<lparr>peer_connections := (peer_connections n)[idx := Some conn]\<rparr>"
    using assms(2) by (auto simp: initialize_connection_def try_result_Inr_iff Let_def)
  with assms(1) show ?thesis by (auto intro!: set_slot_invar dest: cluster_idx)
next
  case (ToClient conn)
  with assms show ?thesis by (auto simp: initialize_connection_def net_invar_def Let_def split: if_splits)
qed

lemma initialize_stop:
  assumes "initialize_connection num n c = Inr (n', stop)"
  shows "stop \<longleftrightarrow> num \<le> card (dom (client_connections n')) \<and> (\<forall>x\<in>set (peer_connections n'). x \<noteq> None)"
  using assms by (cases c) (auto simp: initialize_connection_def try_result_Inr_iff Let_def list_all_iff)

text \<open>The registrations of a server, in the order their handshakes complete.\<close>

fun accept_connections ::
  "usize \<Rightarrow> Network \<Rightarrow> RegistrationMessage list \<Rightarrow> (unit, Network \<times> bool) result" where
  "accept_connections num n [] = Inr (n, False)"
| "accept_connections num n (reg # regs) =
     (case handle_incoming_connection n (Some reg) of
        (n, None) \<Rightarrow> accept_connections num n regs
      | (n, Some c) \<Rightarrow>
          try_result (initialize_connection num n c) (\<lambda>(n, stop).
            if stop then Inr (n, True) else accept_connections num n regs))"

lemma handle_incoming_invar: "net_invar n \<Longrightarrow> net_invar (fst (handle_incoming_connection n reg))"
  by (auto simp: handle_incoming_connection_def net_invar_def Let_def split: option.split RegistrationMessage.split)

lemma accept_connections_invar:
  assumes "net_invar n" and "accept_connections num n regs = Inr (n', stop)"
  shows "net_invar n' \<and> (stop \<longrightarrow> num \<le> card (dom (client_connections n')) \<and>
           (\<forall>x\<in>set (peer_connections n'). x \<noteq> None))"
  using assms
proof (induction regs arbitrary: n)
  case Nil
  then show ?case by simp
next
  case (Cons reg regs)
  obtain n1 c where h: "handle_incoming_connection n (Some reg) = (n1, c)"
    by (cases "handle_incoming_connection n (Some reg)")
  have n1: "net_invar n1" using handle_incoming_invar [OF Cons.prems(1), of "Some reg"] h by simp
  show ?case
  proof (cases c)
    case None
    with Cons h n1 show ?thesis by auto
  next
    case (Some conn)
    with Cons.prems(2) h obtain n2 st where i: "initialize_connection num n1 conn = Inr (n2, st)"
      and rest: "(if st then Inr (n2, True) else accept_connections num n2 regs) = Inr (n', stop)"
      by (auto simp: try_result_Inr_iff)
    have n2: "net_invar n2" by (rule initialize_invar [OF n1 i])
    show ?thesis
    proof (cases st)
      case True
      with rest n2 initialize_stop [OF i] show ?thesis by simp
    next
      case False
      with rest Cons.IH [OF n2] show ?thesis by simp
    qed
  qed
qed

text \<open>
  A server that stops accepting connections is fully connected: if the start-up loop ends,
  every peer slot holds a connection filed under the right node id, at least \<open>num_clients\<close>
  clients are connected, each under its own id.
\<close>

theorem start_up_connects_all:
  assumes "distinct nodes" and "accept_connections num (Network_new my_id nodes addrs batch) regs = Inr (n, True)"
  shows "net_invar n \<and> num \<le> card (dom (client_connections n)) \<and>
         (\<forall>slot\<in>set (peer_connections n). slot \<noteq> None)"
  using accept_connections_invar [OF Network_new_invar [OF assms(1)] assms(2)] by simp

theorem start_up_connects_all_witness:
  "\<exists>n. accept_connections 2 (Network_new 2 [1, 2, 3] [''a'', ''b'', ''c''] 100)
         [ClientRegister, NodeRegister 1, ClientRegister, NodeRegister 3] = Inr (n, True) \<and>
       net_invar n \<and> dom (client_connections n) = {1, 2}"
proof -
  obtain n where n: "accept_connections 2 (Network_new 2 [1, 2, 3] [''a'', ''b'', ''c''] 100)
      [ClientRegister, NodeRegister 1, ClientRegister, NodeRegister 3] = Inr (n, True)"
    "dom (client_connections n) = {1, 2}"
    by (simp add: Network_new_def peer_addresses_def handle_incoming_connection_def Connection_new_def
        initialize_connection_def cluster_id_to_idx_def Let_def insert_commute)
  have "distinct [1, 2, 3 :: NodeId]" by simp
  from start_up_connects_all [OF this n(1)] n show ?thesis by blast
qed

text \<open>
  A message to a client goes to that client only: with an open connection it is queued
  there, last; with a closed one the connection is forgotten; every other connection is
  untouched.
\<close>

theorem send_to_client_exact:
  "client_connections (send_to_client n to_id msg) =
     (client_connections n)(to_id :=
        (case client_connections n to_id of
           Some c \<Rightarrow> (if conn_open c then Some (c\<lparr>conn_out := conn_out c @ [msg]\<rparr>) else None)
         | None \<Rightarrow> None)) \<and>
   peer_connections (send_to_client n to_id msg) = peer_connections n"
  by (auto simp: send_to_client_def Connection_send_def fun_upd_idem split: option.split)

end
