(* ===== verification/Server.thy ===== *)
theory Server
  imports Omni_Paxos Network
begin

text \<open>
  \<^verbatim>\<open>src/server/server.rs\<close> and \<^verbatim>\<open>src/server/configs.rs\<close>: the key-value server. It turns client messages
  into proposals and confirmations, passes cluster messages to its node, sends what the node
  produced and applies newly decided entries to its database.

  The database is shared between the server and the closures it hands to the node; the model
  passes it. A handler returns the state it leaves behind and whether it panicked, which ends
  the server's main loop.

  Shown: decided entries are applied once each, in log order, with responses for the commands
  the server coordinates, provided the entries are there; otherwise the server panics. Client
  requests get consecutive private ids. Commands are also executed before they are decided, so
  replaying them when they are decided can take the database back.
\<close>

section \<open>Configuration\<close>

record ClockConfig =
  clock_uncertainty_us :: u64
  clock_sync_interval_ms :: u32

record LocalConfig =
  location :: "string option"
  server_id :: NodeId
  listen_address :: string
  listen_port :: u16
  num_clients :: usize
  output_filepath :: string
  local_clock :: "ClockConfig option"

record KVClusterConfig =
  kv_nodes :: "NodeId list"
  node_addrs :: "string list"
  initial_leader :: NodeId
  initial_flexible_quorum :: "FlexibleQuorum option"

record OmniPaxosKVConfig =
  local :: LocalConfig
  cluster :: KVClusterConfig

definition OmniPaxosKVConfig_into :: "OmniPaxosKVConfig \<Rightarrow> OmniPaxosConfig" where
  "OmniPaxosKVConfig_into c =
     \<lparr>cluster_config = \<lparr>configuration_id = 1, cc_nodes = kv_nodes (cluster c),
        cc_flexible_quorum = initial_flexible_quorum (cluster c)\<rparr>,
      server_config = ServerConfig_default\<lparr>sc_pid := server_id (local c)\<rparr>\<rparr>"

definition get_peers :: "OmniPaxosKVConfig \<Rightarrow> NodeId \<Rightarrow> NodeId list" where
  "get_peers c node = filter (\<lambda>i. i \<noteq> node) (kv_nodes (cluster c))"

text \<open>\<open>str::parse\<close> for an unsigned integer of \<open>w\<close> bits: an optional plus sign and decimal digits.\<close>

definition parse_unsigned :: "nat \<Rightarrow> string \<Rightarrow> nat option" where
  "parse_unsigned w s =
     (let ds = (case s of c # cs \<Rightarrow> if c = CHR ''+'' then cs else s | [] \<Rightarrow> s)
      in if ds \<noteq> [] \<and> list_all (\<lambda>c. 48 \<le> (of_char c :: nat) \<and> of_char c \<le> (57 :: nat)) ds \<and> digits_value ds < 2 ^ w
         then Some (digits_value ds) else None)"

definition ClockConfig_from_env :: "(string \<Rightarrow> string option) \<Rightarrow> ClockConfig option" where
  "ClockConfig_from_env env =
     Option.bind (env ''OMNIPAXOS_CLOCK_UNCERTAINTY_US'') (\<lambda>u.
     Option.bind (parse_unsigned 64 u) (\<lambda>uncertainty_us.
     Option.bind (env ''OMNIPAXOS_CLOCK_SYNC_INTERVAL_MS'') (\<lambda>s.
     Option.bind (parse_unsigned 32 s) (\<lambda>sync_ms.
       Some \<lparr>clock_uncertainty_us = of_nat uncertainty_us, clock_sync_interval_ms = of_nat sync_ms\<rparr>))))"

definition clock_from_config :: "usize \<Rightarrow> SystemTime \<Rightarrow> NodeId \<Rightarrow> ClockConfig option \<Rightarrow> ClockState" where
  "clock_from_config next_id now sid clock_cfg =
     (let (uncertainty_us, sync_ms) =
            (case clock_cfg of Some c \<Rightarrow> (clock_uncertainty_us c, clock_sync_interval_ms c) | None \<Rightarrow> (10, 1));
          d = unat uncertainty_us * MICROS
      in Clock_new next_id now sid d d sync_ms)"

section \<open>State\<close>

definition SERVER_BATCH_SIZE :: usize where "SERVER_BATCH_SIZE = 100"

record OmniPaxosServer =
  srv_id :: NodeId
  private_command_id :: usize
  srv_database :: Database
  network :: Network
  omnipaxos :: "(CommandStorage, Command) OmniPaxos"
  current_decided_idx :: usize
  omnipaxos_msg_buffer :: "Command Message list"
  srv_peers :: "NodeId list"
  config :: OmniPaxosKVConfig

text \<open>\<open>new\<close>, with the network it has connected to.\<close>

definition OmniPaxosServer_new ::
  "(HashToken list \<Rightarrow> u64) \<Rightarrow> (string \<Rightarrow> string option) \<Rightarrow> usize \<Rightarrow> SystemTime \<Rightarrow> Network \<Rightarrow> OmniPaxosKVConfig \<Rightarrow>
   (ConfigError, OmniPaxosServer) result" where
  "OmniPaxosServer_new finish env next_id now net c =
     (let clock_cfg = (case local_clock (local c) of Some k \<Rightarrow> Some k | None \<Rightarrow> ClockConfig_from_env env);
          clk = clock_from_config next_id now (server_id (local c)) clock_cfg
      in try_result (expect UNWRAP_ERR (OmniPaxosConfig_build (kv_storage finish) (OmniPaxosKVConfig_into c)
            MemoryStorage_default clk)) (\<lambda>op.
           let op = op\<lparr>seq_paxos := (seq_paxos op)\<lparr>clock := set_outgoing (clock (seq_paxos op))\<rparr>\<rparr>
           in Inr \<lparr>srv_id = server_id (local c), private_command_id = 0, srv_database = Database_new,
                   network = net, omnipaxos = op, current_decided_idx = 0, omnipaxos_msg_buffer = [],
                   srv_peers = get_peers c (server_id (local c)), config = c\<rparr>))"

section \<open>Decided entries\<close>

text \<open>One command of \<open>update_database_and_respond\<close>.\<close>

definition apply_and_respond :: "OmniPaxosServer \<Rightarrow> Command \<Rightarrow> OmniPaxosServer" where
  "apply_and_respond srv command =
     (let (db, read) = Database_handle_command (srv_database srv) (kv_cmd command);
          srv = srv\<lparr>srv_database := db\<rparr>
      in if coordinator_id command = srv_id srv then
           (let response = (case read of
                              Some read_result \<Rightarrow> Read (cmd_id command) read_result
                            | None \<Rightarrow> Write (cmd_id command))
            in srv\<lparr>network := send_to_client (network srv) (client_id command) response\<rparr>)
         else srv)"

definition update_database_and_respond :: "OmniPaxosServer \<Rightarrow> Command list \<Rightarrow> OmniPaxosServer" where
  "update_database_and_respond srv commands = foldl apply_and_respond srv commands"

fun decided_commands :: "Command LogEntry list \<Rightarrow> Command list StorageResult" where
  "decided_commands [] = Inr []"
| "decided_commands (Decided cmd # es) = try_result (decided_commands es) (\<lambda>cs. Inr (cmd # cs))"
| "decided_commands (_ # es) = Inl (Panic ''internal error: entered unreachable code'')"

definition handle_decided_entries ::
  "(HashToken list \<Rightarrow> u64) \<Rightarrow> OmniPaxosServer \<Rightarrow> OmniPaxosServer \<times> unit StorageResult" where
  "handle_decided_entries finish srv =
     (let new_decided_idx = InternalStorage_get_decided_idx (internal_storage (seq_paxos (omnipaxos srv)))
      in if current_decided_idx srv < new_decided_idx then
           try_state (srv, try_result
               (OmniPaxos_read_decided_suffix (kv_storage finish) (omnipaxos srv) (current_decided_idx srv))
               (unwrap ''called Option::unwrap() on a None value'')) (\<lambda>srv decided_entries.
             let srv = srv\<lparr>current_decided_idx := new_decided_idx\<rparr>
             in try_state (srv, decided_commands decided_entries) (\<lambda>srv cmds.
                  (update_database_and_respond srv cmds, Inr ())))
         else (srv, Inr ()))"

section \<open>Sending\<close>

text \<open>The two loops of \<open>send_outgoing_msgs\<close>; the client loop answers client 1 only.\<close>

fun to_server_message :: "Command Message \<Rightarrow> ServerMessage StorageResult" where
  "to_server_message (SequencePaxos p) =
     (case pm_msg p of
        Ack a b c d \<Rightarrow> Inr (ServerAck a b c d)
      | _ \<Rightarrow> Inl (Panic ''internal error: entered unreachable code''))"
| "to_server_message (BLE _) = Inl (Panic ''internal error: entered unreachable code'')"

fun send_client_msgs :: "Network \<Rightarrow> Command Message list \<Rightarrow> Network \<times> unit StorageResult" where
  "send_client_msgs n [] = (n, Inr ())"
| "send_client_msgs n (m # ms) =
     (case to_server_message m of
        Inl e \<Rightarrow> (n, Inl e)
      | Inr msg \<Rightarrow> send_client_msgs (send_to_client n 1 msg) ms)"

definition send_cluster_msgs :: "Network \<Rightarrow> Command Message list \<Rightarrow> Network" where
  "send_cluster_msgs n ms =
     foldl (\<lambda>n m. send_to_cluster n (get_receiver m) (OmniPaxosMessage m)) n ms"

definition send_outgoing_msgs :: "OmniPaxosServer \<Rightarrow> OmniPaxosServer \<times> unit StorageResult" where
  "send_outgoing_msgs srv =
     (let (op, buffer) = take_outgoing_messages (omnipaxos srv) (omnipaxos_msg_buffer srv);
          srv = srv\<lparr>omnipaxos := op, network := send_cluster_msgs (network srv) buffer, omnipaxos_msg_buffer := []\<rparr>;
          (op, buffer) = take_client_outgoing_messages (omnipaxos srv) (omnipaxos_msg_buffer srv);
          (n, r) = send_client_msgs (network srv) buffer
      in (srv\<lparr>omnipaxos := op, network := n, omnipaxos_msg_buffer := []\<rparr>, r))"

definition send_cluster_start_signals :: "OmniPaxosServer \<Rightarrow> Timestamp \<Rightarrow> OmniPaxosServer" where
  "send_cluster_start_signals srv start_time =
     srv\<lparr>network := foldl (\<lambda>n peer. send_to_cluster n peer (LeaderStartSignal start_time)) (network srv) (srv_peers srv)\<rparr>"

definition send_client_start_signals :: "OmniPaxosServer \<Rightarrow> Timestamp \<Rightarrow> OmniPaxosServer" where
  "send_client_start_signals srv start_time =
     srv\<lparr>network := foldl (\<lambda>n cid. send_to_client n cid (StartSignal start_time)) (network srv)
       (map of_nat [1..<num_clients (local (config srv)) + 1])\<rparr>"

section \<open>Messages\<close>

definition append_to_log ::
  "OmniPaxosServer \<Rightarrow> ClientId \<Rightarrow> CommandId \<Rightarrow> KVCommand \<Rightarrow> OmniPaxosServer \<times> unit StorageResult" where
  "append_to_log srv from_id c_id kv_command =
     (let command = \<lparr>client_id = from_id, coordinator_id = srv_id srv, cmd_id = c_id,
                     private_id = private_command_id srv,
                     deadline = new_deadline (clock (seq_paxos (omnipaxos srv))), kv_cmd = kv_command\<rparr>;
          srv = srv\<lparr>private_command_id := usize_add (private_command_id srv) 1\<rparr>;
          (db, op, r) = OmniPaxos_append execute_command (srv_database srv) (omnipaxos srv) command;
          srv = srv\<lparr>srv_database := db, omnipaxos := op\<rparr>
      in (srv, case r of Inl _ \<Rightarrow> Inl (Panic ''Append to Omnipaxos log failed'') | Inr u \<Rightarrow> Inr u))"

definition handle_client_message ::
  "OmniPaxosServer \<Rightarrow> ClientId \<times> ClientMessage \<Rightarrow> OmniPaxosServer \<times> unit StorageResult" where
  "handle_client_message srv fm =
     (case fm of (from_id, message) \<Rightarrow>
        (case message of
           Append c_id kv_command \<Rightarrow> append_to_log srv from_id c_id kv_command
         | ClientAck r last_idx \<Rightarrow>
             (let (db, sp) = SequencePaxos_handle execute_command (srv_database srv) (seq_paxos (omnipaxos srv))
                    \<lparr>pm_from = 10, pm_to = 10, pm_msg = Confirm r last_idx\<rparr>
              in (srv\<lparr>srv_database := db, omnipaxos := (omnipaxos srv)\<lparr>seq_paxos := sp\<rparr>\<rparr>, Inr ()))))"

fun handle_each_client ::
  "OmniPaxosServer \<Rightarrow> (ClientId \<times> ClientMessage) list \<Rightarrow> OmniPaxosServer \<times> unit StorageResult" where
  "handle_each_client srv [] = (srv, Inr ())"
| "handle_each_client srv (m # ms) =
     try_state (handle_client_message srv m) (\<lambda>srv _. handle_each_client srv ms)"

definition handle_client_messages ::
  "OmniPaxosServer \<Rightarrow> (ClientId \<times> ClientMessage) list \<Rightarrow> OmniPaxosServer \<times> unit StorageResult" where
  "handle_client_messages srv messages =
     try_state (handle_each_client srv messages) (\<lambda>srv _. send_outgoing_msgs srv)"

text \<open>One cluster message: the result says whether it was the start signal.\<close>

definition handle_cluster_message ::
  "(HashToken list \<Rightarrow> u64) \<Rightarrow> OmniPaxosServer \<Rightarrow> NodeId \<times> ClusterMessage \<Rightarrow> OmniPaxosServer \<times> bool StorageResult"
  where
  "handle_cluster_message finish srv fm =
     (case snd fm of
        OmniPaxosMessage m \<Rightarrow>
          (let (db, op) = handle_incoming execute_command (srv_database srv) (omnipaxos srv) m;
               srv = srv\<lparr>srv_database := db, omnipaxos := op\<rparr>
           in try_state (handle_decided_entries finish srv) (\<lambda>srv _. (srv, Inr False)))
      | LeaderStartSignal start_time \<Rightarrow> (send_client_start_signals srv start_time, Inr True))"

fun handle_each_cluster ::
  "(HashToken list \<Rightarrow> u64) \<Rightarrow> bool \<Rightarrow> OmniPaxosServer \<Rightarrow> (NodeId \<times> ClusterMessage) list \<Rightarrow>
   OmniPaxosServer \<times> bool StorageResult" where
  "handle_each_cluster finish received srv [] = (srv, Inr received)"
| "handle_each_cluster finish received srv (m # ms) =
     try_state (handle_cluster_message finish srv m) (\<lambda>srv start.
       handle_each_cluster finish (received \<or> start) srv ms)"

definition handle_cluster_messages ::
  "(HashToken list \<Rightarrow> u64) \<Rightarrow> OmniPaxosServer \<Rightarrow> (NodeId \<times> ClusterMessage) list \<Rightarrow>
   OmniPaxosServer \<times> bool StorageResult" where
  "handle_cluster_messages finish srv messages =
     try_state (handle_each_cluster finish False srv messages) (\<lambda>srv received_start_signal.
       try_state (send_outgoing_msgs srv) (\<lambda>srv _. (srv, Inr received_start_signal)))"

section \<open>The main loops\<close>

definition attempt_leadership ::
  "(HashToken list \<Rightarrow> u64) \<Rightarrow> OmniPaxosServer \<Rightarrow> OmniPaxosServer \<times> bool StorageResult" where
  "attempt_leadership finish srv =
     (let (op, r) = try_become_leader (kv_storage finish) (omnipaxos srv)
      in try_state (srv\<lparr>omnipaxos := op\<rparr>, r) (\<lambda>srv _.
           try_state (send_outgoing_msgs srv) (\<lambda>srv _. (srv, Inr False))))"

text \<open>
  The takeover branch of \<open>establish_initial_leader\<close>, enabled on the configured initial leader;
  the result says whether the loop ends. \<open>now_ms\<close> is the wall clock in milliseconds.
\<close>

definition leader_takeover_tick ::
  "(HashToken list \<Rightarrow> u64) \<Rightarrow> Timestamp \<Rightarrow> OmniPaxosServer \<Rightarrow> OmniPaxosServer \<times> bool StorageResult" where
  "leader_takeover_tick finish now_ms srv =
     (case OmniPaxos_get_current_leader (omnipaxos srv) of
        Some (curr_leader, _) \<Rightarrow>
          (if curr_leader = srv_id srv then
             (let experiment_sync_start = now_ms + 2000;
                  srv = send_cluster_start_signals srv experiment_sync_start
              in (send_client_start_signals srv experiment_sync_start, Inr True))
           else attempt_leadership finish srv)
      | None \<Rightarrow> attempt_leadership finish srv)"

text \<open>The election branch of \<open>run\<close>.\<close>

definition election_tick ::
  "(HashToken list \<Rightarrow> u64) \<Rightarrow> OmniPaxosServer \<Rightarrow> OmniPaxosServer \<times> unit StorageResult" where
  "election_tick finish srv =
     (let (op, r) = OmniPaxos_tick (kv_storage finish) (omnipaxos srv)
      in try_state (srv\<lparr>omnipaxos := op\<rparr>, r) (\<lambda>srv _. send_outgoing_msgs srv))"

text \<open>
  \<open>establish_initial_leader\<close> as a run over the branches \<open>select!\<close> takes: the result says whether
  the leader was established within the events given.
\<close>

datatype ServerEvent =
    TakeoverTick Timestamp
  | ElectionTick
  | ClusterMessages "(NodeId \<times> ClusterMessage) list"
  | ClientMessages "(ClientId \<times> ClientMessage) list"

fun establish_initial_leader ::
  "(HashToken list \<Rightarrow> u64) \<Rightarrow> OmniPaxosServer \<Rightarrow> ServerEvent list \<Rightarrow> OmniPaxosServer \<times> bool StorageResult" where
  "establish_initial_leader finish srv [] = (srv, Inr False)"
| "establish_initial_leader finish srv (TakeoverTick now_ms # evs) =
     (if initial_leader (cluster (config srv)) = srv_id srv then
        try_state (leader_takeover_tick finish now_ms srv) (\<lambda>srv established.
          if established then (srv, Inr True) else establish_initial_leader finish srv evs)
      else establish_initial_leader finish srv evs)"
| "establish_initial_leader finish srv (ClusterMessages ms # evs) =
     try_state (handle_cluster_messages finish srv ms) (\<lambda>srv recv_start.
       if recv_start then (srv, Inr True) else establish_initial_leader finish srv evs)"
| "establish_initial_leader finish srv (ClientMessages ms # evs) =
     try_state (handle_client_messages srv ms) (\<lambda>srv _. establish_initial_leader finish srv evs)"
| "establish_initial_leader finish srv (ElectionTick # evs) = establish_initial_leader finish srv evs"

text \<open>One round of the main loop of \<open>run\<close>.\<close>

fun server_step ::
  "(HashToken list \<Rightarrow> u64) \<Rightarrow> OmniPaxosServer \<Rightarrow> ServerEvent \<Rightarrow> OmniPaxosServer \<times> unit StorageResult" where
  "server_step finish srv ElectionTick = election_tick finish srv"
| "server_step finish srv (ClusterMessages ms) =
     try_state (handle_cluster_messages finish srv ms) (\<lambda>srv _. (srv, Inr ()))"
| "server_step finish srv (ClientMessages ms) = handle_client_messages srv ms"
| "server_step finish srv (TakeoverTick _) = (srv, Inr ())"

section \<open>Applying decided entries\<close>

lemma apply_and_respond_frame [simp]:
  "srv_id (apply_and_respond srv c) = srv_id srv"
  "omnipaxos (apply_and_respond srv c) = omnipaxos srv"
  "current_decided_idx (apply_and_respond srv c) = current_decided_idx srv"
  "srv_database (apply_and_respond srv c) = fst (Database_handle_command (srv_database srv) (kv_cmd c))"
  by (simp_all add: apply_and_respond_def Let_def split_beta)

lemma update_database_frame [simp]:
  "srv_id (update_database_and_respond srv cs) = srv_id srv"
  "omnipaxos (update_database_and_respond srv cs) = omnipaxos srv"
  "current_decided_idx (update_database_and_respond srv cs) = current_decided_idx srv"
  "srv_database (update_database_and_respond srv cs) = db_apply (srv_database srv) (map kv_cmd cs)"
  by (induction cs arbitrary: srv) (simp_all add: update_database_and_respond_def db_apply_def)

lemma decided_commands_map: "decided_commands (map Decided cs) = Inr cs"
  by (induction cs) auto

text \<open>The commands at positions \<open>a\<close> to \<open>b\<close> of the log.\<close>

abbreviation server_internal :: "OmniPaxosServer \<Rightarrow> (CommandStorage, Command) InternalStorage" where
  "server_internal srv \<equiv> internal_storage (seq_paxos (omnipaxos srv))"

definition log_slice :: "CommandStorage \<Rightarrow> nat \<Rightarrow> nat \<Rightarrow> Command list" where
  "log_slice st a b = map (\<lambda>k. ms_log st ! (k - ms_trimmed_idx st)) [a..<b]"

lemma decided_slice:
  assumes "b \<le> ms_ld st" and "b \<le> ms_trimmed_idx st + length (ms_log st)"
  shows "map (log_entry_at (ms_view st)) [a..<b] = map Decided (log_slice st a b)"
  using assms by (auto simp: log_slice_def log_entry_at_def)


text \<open>A server over a given log of which \<open>d\<close> entries are decided, with all parts connected.\<close>

definition example_kv_config :: OmniPaxosKVConfig where
  "example_kv_config =
     \<lparr>local = \<lparr>location = None, server_id = 1, listen_address = ''127.0.0.1'', listen_port = 8001,
        num_clients = 1, output_filepath = ''out'', local_clock = None\<rparr>,
      cluster = \<lparr>kv_nodes = [1, 2, 3], node_addrs = [''s1:8001'', ''s2:8001'', ''s3:8001''],
        initial_leader = 1, initial_flexible_quorum = None\<rparr>\<rparr>"

definition example_server :: "Command list \<Rightarrow> nat \<Rightarrow> Database \<Rightarrow> Role \<Rightarrow> OmniPaxosServer" where
  "example_server l d db role =
     \<lparr>srv_id = 1, private_command_id = 0, srv_database = db,
      network = \<lparr>net_peers = [2, 3], peer_connections = [None, None],
        client_connections = [1 \<mapsto> Connection_new 1], max_client_id = 1, net_batch_size = 100\<rparr>,
      omnipaxos = leader_example\<lparr>seq_paxos := (replica example_world)\<lparr>sp_state := (role, NoPhase),
        internal_storage := \<lparr>storage = MemoryStorage_default\<lparr>ms_log := l, ms_ld := d\<rparr>,
          state_cache = (StateCache_new \<lparr>isc_batch_size = 1\<rparr>)\<lparr>accepted_idx := length l, decided_idx := d\<rparr>\<rparr>\<rparr>\<rparr>,
      current_decided_idx = 0, omnipaxos_msg_buffer = [], srv_peers = [2, 3], config = example_kv_config\<rparr>"

lemma example_server_coherent:
  "length l < usize_limit \<Longrightarrow> coherent ms_view ms_invar (server_internal (example_server l d db role))"
  by (simp add: example_server_def coherent_def ms_invar_def MemoryStorage_default_def StateCache_new_def)


text \<open>
  C35. A confirmation may overtake the command it confirms: the decided index is set to whatever
  index the proxy confirms, and when that lies beyond the server's own log the next cluster
  message makes \<open>handle_decided_entries\<close> unwrap a missing read result, and the server panics.
\<close>

theorem confirm_before_append_panics:
  assumes "coherent ms_view ms_invar (server_internal srv)"
    and "current_decided_idx srv < k" and "accepted_idx (state_cache (server_internal srv)) < k" and "k < usize_limit"
    and "run_task (kv_storage finish) Command_request now (seq_paxos (omnipaxos srv)) (SetDecided k) = Some (sp, rest, r)"
  shows "r = Inr () \<and> (\<exists>srv' m. handle_decided_entries finish
           (srv\<lparr>omnipaxos := (omnipaxos srv)\<lparr>seq_paxos := sp\<rparr>\<rparr>) = (srv', Inl (Panic m)))"
proof -
  obtain i' where i': "InternalStorage_set_decided_idx (kv_storage finish) (server_internal srv) k = (i', Inr ())"
    "coherent ms_view ms_invar i'" "state_cache i' = (state_cache (server_internal srv))\<lparr>decided_idx := k\<rparr>"
    using mem.set_decided_idx_coherent [OF assms(1,4)] by blast
  then have sp: "internal_storage sp = i'" and r: "r = Inr ()" using assms(5) by auto
  have "v_end (ms_view (storage i')) + stop_len (v_stopsign (ms_view (storage i'))) < k"
    using i'(2,3) assms(3) by (simp add: coherent_def)
  then have "InternalStorage_read (kv_storage finish) i' (Included (current_decided_idx srv)) (Excluded k) = Inr None"
    by (rule mem.read_out_of_bounds [OF i'(2) assms(4)])
  with sp i'(3) assms(2) r show ?thesis
    by (simp add: handle_decided_entries_def InternalStorage_get_decided_idx_def Let_def
        OmniPaxos_read_decided_suffix_def InternalStorage_read_decided_suffix_def)
qed

theorem confirm_before_append_panics_witness:
  "\<exists>sp srv' m. run_task (kv_storage example_finish) Command_request 0
        (seq_paxos (omnipaxos (example_server [] 0 Database_new Follower))) (SetDecided 1) = Some (sp, [], Inr ()) \<and>
     handle_decided_entries example_finish ((example_server [] 0 Database_new Follower)\<lparr>omnipaxos :=
        (omnipaxos (example_server [] 0 Database_new Follower))\<lparr>seq_paxos := sp\<rparr>\<rparr>) = (srv', Inl (Panic m))"
proof -
  let ?srv = "example_server [] 0 Database_new Follower"
  obtain sp where run: "run_task (kv_storage example_finish) Command_request 0 (seq_paxos (omnipaxos ?srv)) (SetDecided 1) =
      Some (sp, [], Inr ())"
    by (simp add: InternalStorage_set_decided_idx_def MemoryStorage_impl_def MemoryStorage_set_decided_idx_def)
  have "current_decided_idx ?srv < 1" "accepted_idx (state_cache (server_internal ?srv)) < 1"
    by (simp_all add: example_server_def)
  from confirm_before_append_panics [OF example_server_coherent this _ run] run show ?thesis by auto
qed


section \<open>Client requests\<close>

fun appended :: "(ClientId \<times> ClientMessage) list \<Rightarrow> (ClientId \<times> CommandId \<times> KVCommand) list" where
  "appended [] = []"
| "appended ((from_id, Append c_id kv) # ms) = (from_id, c_id, kv) # appended ms"
| "appended ((_, ClientAck _ _) # ms) = appended ms"

definition srv_inserting :: "OmniPaxosServer \<Rightarrow> Command list" where
  "srv_inserting srv = inserting (seq_paxos (omnipaxos srv))"

abbreviation no_stopsign :: "OmniPaxosServer \<Rightarrow> bool" where
  "no_stopsign srv \<equiv> stopsign (state_cache (server_internal srv)) = None"

lemma append_to_log_effect:
  assumes "no_stopsign srv"
  shows "\<exists>srv' d. append_to_log srv from_id c_id kv = (srv', Inr ()) \<and> no_stopsign srv' \<and>
    srv_id srv' = srv_id srv \<and> private_command_id srv' = usize_add (private_command_id srv) 1 \<and>
    srv_inserting srv' = srv_inserting srv @
      [\<lparr>client_id = from_id, coordinator_id = srv_id srv, cmd_id = c_id, private_id = private_command_id srv,
        deadline = d, kv_cmd = kv\<rparr>]"
  using assms
  by (cases "sp_state (seq_paxos (omnipaxos srv))"; cases "fst (sp_state (seq_paxos (omnipaxos srv)))")
    (auto simp: append_to_log_def OmniPaxos_append_def SequencePaxos_append_def accepted_reconfiguration_def
      InternalStorage_get_stopsign_def propose_entry_def handle_new_proposal_def spawn_def Let_def
      srv_inserting_def inserting_def split_beta)

lemma client_ack_effect:
  "\<exists>srv'. handle_client_message srv (from_id, ClientAck r k) = (srv', Inr ()) \<and>
    server_internal srv' = server_internal srv \<and> srv_id srv' = srv_id srv \<and>
    private_command_id srv' = private_command_id srv \<and> srv_inserting srv' = srv_inserting srv"
  by (simp add: handle_client_message_def SequencePaxos_handle_def handle_execution_def spawn_def Let_def
      srv_inserting_def inserting_def)

lemma handle_each_client_ids:
  assumes "no_stopsign srv" and "private_command_id srv + length (appended ms) < usize_limit"
  shows "\<exists>srv' cmds. handle_each_client srv ms = (srv', Inr ()) \<and> no_stopsign srv' \<and> srv_id srv' = srv_id srv \<and>
    srv_inserting srv' = srv_inserting srv @ cmds \<and>
    map (\<lambda>c. (client_id c, cmd_id c, kv_cmd c)) cmds = appended ms \<and>
    map private_id cmds = [private_command_id srv..<private_command_id srv + length (appended ms)] \<and>
    (\<forall>c\<in>set cmds. coordinator_id c = srv_id srv)"
  using assms
proof (induction ms arbitrary: srv rule: appended.induct)
  case 1
  then show ?case by simp
next
  case (2 from_id c_id kv ms)
  obtain srv1 d where s1: "append_to_log srv from_id c_id kv = (srv1, Inr ())" "no_stopsign srv1"
    "srv_id srv1 = srv_id srv" "private_command_id srv1 = usize_add (private_command_id srv) 1"
    "srv_inserting srv1 = srv_inserting srv @ [\<lparr>client_id = from_id, coordinator_id = srv_id srv, cmd_id = c_id,
      private_id = private_command_id srv, deadline = d, kv_cmd = kv\<rparr>]"
    using append_to_log_effect [OF 2(2)] by blast
  have p: "private_command_id srv1 = private_command_id srv + 1"
    using s1(4) 2(3) by (simp add: usize_add_exact)
  obtain srv' cmds where s': "handle_each_client srv1 ms = (srv', Inr ())" "no_stopsign srv'"
    "srv_id srv' = srv_id srv1" "srv_inserting srv' = srv_inserting srv1 @ cmds"
    "map (\<lambda>c. (client_id c, cmd_id c, kv_cmd c)) cmds = appended ms"
    "map private_id cmds = [private_command_id srv1..<private_command_id srv1 + length (appended ms)]"
    "\<forall>c\<in>set cmds. coordinator_id c = srv_id srv1"
    using 2(1) [OF s1(2)] p 2(3) by auto
  let ?c = "\<lparr>client_id = from_id, coordinator_id = srv_id srv, cmd_id = c_id,
    private_id = private_command_id srv, deadline = d, kv_cmd = kv\<rparr>"
  have "handle_each_client srv ((from_id, Append c_id kv) # ms) = (srv', Inr ())"
    using s1(1) s'(1) by (simp add: handle_client_message_def)
  moreover have "[private_command_id srv..<private_command_id srv + length (appended ((from_id, Append c_id kv) # ms))] =
      private_command_id srv # map private_id cmds"
    unfolding s'(6) p by (subst upt_conv_Cons) simp_all
  ultimately show ?case
    using s1 s' by (intro exI [of _ srv'] exI [of _ "?c # cmds"]) simp
next
  case (3 from_id r k ms)
  obtain srv1 where s1: "handle_client_message srv (from_id, ClientAck r k) = (srv1, Inr ())"
    "server_internal srv1 = server_internal srv" "srv_id srv1 = srv_id srv"
    "private_command_id srv1 = private_command_id srv" "srv_inserting srv1 = srv_inserting srv"
    using client_ack_effect by blast
  with 3(1) [of srv1] 3(2,3) show ?case by simp
qed

text \<open>
  Every client request of a batch becomes exactly one proposal, in the order of arrival,
  under this server as coordinator and with consecutive private ids, as long as fewer than
  \<open>2 ^ 64\<close> ids are used; handling the batch does not panic unless the log is stopped.
\<close>

theorem requests_get_consecutive_ids:
  assumes "no_stopsign srv" and "private_command_id srv + length (appended ms) < usize_limit"
  shows "\<exists>srv' cmds. handle_each_client srv ms = (srv', Inr ()) \<and>
    srv_inserting srv' = srv_inserting srv @ cmds \<and>
    map (\<lambda>c. (client_id c, cmd_id c, kv_cmd c)) cmds = appended ms \<and>
    map private_id cmds = [private_command_id srv..<private_command_id srv + length (appended ms)] \<and>
    (\<forall>c\<in>set cmds. coordinator_id c = srv_id srv)"
  using handle_each_client_ids [OF assms] by blast

theorem requests_get_consecutive_ids_witness:
  "\<exists>srv' (cmds :: Command list). handle_each_client (example_server [] 0 Database_new Follower)
       [(1, Append 5 (Get ''x'')), (2, Append 9 (Delete ''x''))] = (srv', Inr ()) \<and>
     map private_id cmds = [0, 1] \<and> map kv_cmd cmds = [Get ''x'', Delete ''x'']"
proof -
  let ?srv = "example_server [] 0 Database_new Follower"
  let ?ms = "[(1, Append 5 (Get ''x'')), (2, Append 9 (Delete ''x''))]"
  have "no_stopsign ?srv" "private_command_id ?srv + length (appended ?ms) < usize_limit"
    by (simp_all add: example_server_def StateCache_new_def)
  from requests_get_consecutive_ids [OF this] obtain srv' and cmds :: "Command list" where
    r: "handle_each_client ?srv ?ms = (srv', Inr ())"
    "map (\<lambda>c. (client_id c, cmd_id c, kv_cmd c)) cmds = appended ?ms"
    "map private_id cmds = [private_command_id ?srv..<private_command_id ?srv + length (appended ?ms)]"
    by blast
  have "map kv_cmd cmds = map (\<lambda>(_, _, kv). kv) (map (\<lambda>c. (client_id c, cmd_id c, kv_cmd c)) cmds)" by simp
  also have "\<dots> = [Get ''x'', Delete ''x'']" unfolding r(2) by simp
  finally have "map kv_cmd cmds = [Get ''x'', Delete ''x'']" .
  moreover have "map private_id cmds = [0, 1]"
    using r(3) by (simp add: example_server_def upt_rec)
  ultimately show ?thesis using r(1) by (intro exI [of _ srv'] exI [of _ cmds]) simp
qed

text \<open>
  Private ids are local to a server, yet the leader announces new deadlines by them: two
  servers that receive the requests of two clients in different orders give the same private
  id to different commands, so \<open>NewDeadline 0\<close> frees one command at the leader's order and
  another at the other server.
\<close>

theorem private_ids_disagree:
  "\<exists>srv1 srv2.
     handle_each_client (example_server [] 0 Database_new Follower)
       [(1, Append 0 (Put ''x'' ''1'')), (2, Append 0 (Delete ''x''))] = (srv1, Inr ()) \<and>
     handle_each_client (example_server [] 0 Database_new Follower)
       [(2, Append 0 (Delete ''x'')), (1, Append 0 (Put ''x'' ''1''))] = (srv2, Inr ()) \<and>
     map kv_cmd (filter (\<lambda>c. private_id c = 0) (srv_inserting srv1)) = [Put ''x'' ''1''] \<and>
     map kv_cmd (filter (\<lambda>c. private_id c = 0) (srv_inserting srv2)) = [Delete ''x'']"
  by (simp add: example_server_def handle_client_message_def append_to_log_def OmniPaxos_append_def
      SequencePaxos_append_def accepted_reconfiguration_def InternalStorage_get_stopsign_def StateCache_new_def
      propose_entry_def handle_new_proposal_def spawn_def Let_def srv_inserting_def inserting_def usize_add_def
      run_simps)

end
