(* ===== verification/Proxy.thy ===== *)
theory Proxy
  imports Common
begin

text \<open>
  \<^verbatim>\<open>src/proxy/proxy.rs\<close>, \<^verbatim>\<open>src/proxy/database.rs\<close>, \<^verbatim>\<open>src/proxy/configs.rs\<close>: the proxy between clients and
  servers. It sends every client message to all servers and counts the acknowledgements by
  history hash; when enough have come, one of them from the leader (the only one to speculate),
  it confirms the command to all servers and answers the client.

  One task per client connection reads the acknowledgements of one server. The counters are
  shared, and each access locks them only for itself, so the tasks interleave between reading
  and writing a counter. The server actors are in \<open>Connections\<close>; here a server's queue is
  the list of messages to be sent to it.
\<close>

section \<open>The counters\<close>

type_synonym AckCount = "usize \<times> Speculation"

record PrDatabase =
  pr_db :: "u64 \<rightharpoonup> AckCount"
  quorum :: usize

definition PrDatabase_new :: "usize \<Rightarrow> PrDatabase" where
  "PrDatabase_new q = \<lparr>pr_db = Map.empty, quorum = q\<rparr>"

fun PrDatabase_handle_command :: "PrDatabase \<Rightarrow> PRCommand \<Rightarrow> PrDatabase \<times> AckCount option option" where
  "PrDatabase_handle_command d (PRPut key v) = (d\<lparr>pr_db := (pr_db d)(key \<mapsto> v)\<rparr>, None)"
| "PrDatabase_handle_command d (PRDelete key) = (d\<lparr>pr_db := (pr_db d)(key := None)\<rparr>, None)"
| "PrDatabase_handle_command d (PRGet key) = (d, Some (pr_db d key))"

section \<open>Configuration and start-up\<close>

record ProxyNode =
  pn_id :: NodeId
  pn_address :: string
  pn_listening_port :: u16

record ProxyConfig =
  pc_location :: "string option"
  proxy_id :: u16
  pc_listen_address :: string
  pc_listen_port :: u16
  fault_tolerance :: usize
  pc_clients :: "ClientId list"
  pc_nodes :: "ProxyNode list"

definition Proxy_new :: "ProxyConfig \<Rightarrow> PrDatabase" where
  "Proxy_new config = PrDatabase_new (usize_sub (length (pc_nodes config)) (fault_tolerance config))"

text \<open>
  \<open>run\<close>: the acknowledgements of the \<open>i\<close>-th node are received on channel \<open>i\<close>. The \<open>k\<close>-th client
  connection takes channel \<open>k\<close>, counting from 1, and panics when there is none.
\<close>

definition server_receivers :: "ProxyConfig \<Rightarrow> usize set" where
  "server_receivers config = set [0..<length (pc_nodes config)]"

definition accept_client :: "usize set \<times> usize \<Rightarrow> (usize set \<times> usize) \<times> (unit, usize) result" where
  "accept_client s =
     (case s of (receivers, conn) \<Rightarrow>
        (let conn = usize_add conn 1
         in ((receivers - {conn}, conn),
             if conn \<in> receivers then Inr conn
             else Inl (Panic ''called Option::unwrap() on a None value''))))"

fun accept_clients :: "nat \<Rightarrow> usize set \<times> usize \<Rightarrow> (unit, usize) result list" where
  "accept_clients 0 s = []"
| "accept_clients (Suc k) s = (let (s', r) = accept_client s in r # accept_clients k s')"

section \<open>Handling an acknowledgement\<close>

text \<open>What the handler of one connection sends: confirmations to all servers, answers to its client.\<close>

record ProxyOut =
  to_servers :: "ClientMessage list list"
  to_client :: "ServerMessage list"

definition fan_out :: "ClientMessage \<Rightarrow> ProxyOut \<Rightarrow> ProxyOut" where
  "fan_out m out = out\<lparr>to_servers := map (\<lambda>q. q @ [m]) (to_servers out)\<rparr>"

text \<open>A client message is multicast to every server.\<close>

definition handle_client_request :: "ProxyOut \<Rightarrow> ClientMessage \<Rightarrow> ProxyOut" where
  "handle_client_request out m = fan_out m out"

text \<open>The new counter and leader speculation, from what was read for the hash.\<close>

definition next_count :: "AckCount option \<Rightarrow> Speculation \<Rightarrow> AckCount" where
  "next_count stored suspect =
     (case stored of
        Some (cnt, stored_leader_spec) \<Rightarrow>
          (if stored_leader_spec \<noteq> None then (usize_add cnt 1, stored_leader_spec)
           else (usize_add cnt 1, suspect))
      | None \<Rightarrow> (1, suspect))"

text \<open>
  \<open>handle_client_requests\<close> on one server message, in the sections between which other
  connections may run: read the counter, write the new one, and (after the confirmations were
  sent) delete it.
\<close>

datatype AckTask =
    AckRead Command u64 Speculation usize
  | AckWrite Command u64 Speculation usize AckCount
  | AckSend Command u64 Speculation usize
  | AckDelete u64

fun ack_step :: "PrDatabase \<times> ProxyOut \<Rightarrow> AckTask \<Rightarrow> (PrDatabase \<times> ProxyOut) \<times> AckTask option" where
  "ack_step (d, out) (AckRead cmd hash suspect last_idx) =
     (let (d, res) = PrDatabase_handle_command d (PRGet hash);
          stored = (case res of Some r \<Rightarrow> r | None \<Rightarrow> None)
      in ((d, out), Some (AckWrite cmd hash suspect last_idx (next_count stored suspect))))"
| "ack_step (d, out) (AckWrite cmd hash suspect last_idx cnt) =
     (let (d, _) = PrDatabase_handle_command d (PRPut hash cnt)
      in ((d, out), if quorum d \<le> fst cnt \<and> snd cnt \<noteq> None then Some (AckSend cmd hash suspect last_idx) else None))"
| "ack_step (d, out) (AckSend cmd hash suspect last_idx) =
     ((d, (fan_out (ClientAck cmd last_idx) out)
            \<lparr>to_client := to_client out @ [ServerAck cmd hash suspect last_idx]\<rparr>),
      Some (AckDelete hash))"
| "ack_step (d, out) (AckDelete hash) = ((fst (PrDatabase_handle_command d (PRDelete hash)), out), None)"

text \<open>One acknowledgement handled without interruption.\<close>

definition handle_ack ::
  "PrDatabase \<times> ProxyOut \<Rightarrow> Command \<Rightarrow> u64 \<Rightarrow> Speculation \<Rightarrow> usize \<Rightarrow> PrDatabase \<times> ProxyOut" where
  "handle_ack s cmd hash suspect last_idx =
     (case ack_step s (AckRead cmd hash suspect last_idx) of
        (s, None) \<Rightarrow> s
      | (s, Some t) \<Rightarrow> (case ack_step s t of
          (s, None) \<Rightarrow> s
        | (s, Some t) \<Rightarrow> (case ack_step s t of
            (s, None) \<Rightarrow> s
          | (s, Some t) \<Rightarrow> fst (ack_step s t))))"

fun handle_server_response :: "PrDatabase \<times> ProxyOut \<Rightarrow> ServerMessage \<Rightarrow> PrDatabase \<times> ProxyOut" where
  "handle_server_response s (ServerAck cmd hash suspect last_idx) = handle_ack s cmd hash suspect last_idx"
| "handle_server_response (d, out) (StartSignal ts) = (d, out\<lparr>to_client := to_client out @ [StartSignal ts]\<rparr>)"
| "handle_server_response s (Write _) = s"
| "handle_server_response s (Read _ _) = s"

definition handle_server_responses :: "PrDatabase \<times> ProxyOut \<Rightarrow> ServerMessage list \<Rightarrow> PrDatabase \<times> ProxyOut" where
  "handle_server_responses s ms = foldl handle_server_response s ms"

section \<open>Quorums of acknowledgements\<close>

lemma handle_ack_eq:
  "handle_ack (d, out) cmd hash suspect last_idx =
     (let cnt = next_count (pr_db d hash) suspect
      in if quorum d \<le> fst cnt \<and> snd cnt \<noteq> None
         then (d\<lparr>pr_db := (pr_db d)(hash := None)\<rparr>,
               (fan_out (ClientAck cmd last_idx) out)
                 \<lparr>to_client := to_client out @ [ServerAck cmd hash suspect last_idx]\<rparr>)
         else (d\<lparr>pr_db := (pr_db d)(hash \<mapsto> cnt)\<rparr>, out))"
  by (cases "snd (next_count (pr_db d hash) suspect)") (simp_all add: handle_ack_def Let_def)

text \<open>The acknowledgements for one hash in a sequence of responses.\<close>

definition acks_for :: "u64 \<Rightarrow> ServerMessage list \<Rightarrow> (Command \<times> Speculation \<times> usize) list" where
  "acks_for h ms = concat (map (\<lambda>m. case m of
     ServerAck cmd hash suspect last_idx \<Rightarrow> if hash = h then [(cmd, suspect, last_idx)] else [] | _ \<Rightarrow> []) ms)"

definition answers_for :: "u64 \<Rightarrow> ServerMessage list \<Rightarrow> nat" where
  "answers_for h ms = length (acks_for h ms)"

lemma acks_for_simps [simp]:
  "acks_for h [] = []"
  "acks_for h (ms @ ms') = acks_for h ms @ acks_for h ms'"
  "acks_for h [ServerAck cmd hash suspect k] = (if hash = h then [(cmd, suspect, k)] else [])"
  "acks_for h [StartSignal ts] = []" "acks_for h [Write i] = []" "acks_for h [Read i r] = []"
  by (simp_all add: acks_for_def)

text \<open>The counter of a hash before its quorum: the number of acknowledgements, and who speculated first.\<close>

fun first_spec :: "(Command \<times> Speculation \<times> usize) list \<Rightarrow> Speculation" where
  "first_spec [] = None"
| "first_spec ((_, s, _) # xs) = (if s \<noteq> None then s else first_spec xs)"

lemma first_spec_append: "first_spec (xs @ ys) = (if first_spec xs \<noteq> None then first_spec xs else first_spec ys)"
  by (induction xs rule: first_spec.induct) auto

definition speculative :: "(Command \<times> Speculation \<times> usize) list \<Rightarrow> nat" where
  "speculative as = length (filter (\<lambda>(_, s, _). s \<noteq> None) as)"

lemma speculative_append [simp]: "speculative (xs @ ys) = speculative xs + speculative ys"
  by (simp add: speculative_def)

lemma speculative_single [simp]: "speculative [(c, s, k)] = (if s \<noteq> None then 1 else 0)"
  by (simp add: speculative_def)

lemma first_spec_None: "first_spec as = None \<longleftrightarrow> speculative as = 0"
  by (induction as rule: first_spec.induct) (auto simp: speculative_def)

text \<open>
  The state of the proxy with respect to one hash, after the acknowledgements \<open>as\<close> for it, when
  at most one of them speculates: nothing was answered and all are counted, or the quorum was
  reached, one answer went out and only acknowledgements without speculation were counted since.
\<close>

definition hash_state :: "u64 \<Rightarrow> (Command \<times> Speculation \<times> usize) list \<Rightarrow> PrDatabase \<times> ProxyOut \<Rightarrow> bool" where
  "hash_state h as s \<longleftrightarrow> (case s of (d, out) \<Rightarrow>
     if speculative as = 1 \<and> quorum d \<le> length as
     then answers_for h (to_client out) = 1 \<and>
          (\<forall>n sp. pr_db d h = Some (n, sp) \<longrightarrow> sp = None)
     else answers_for h (to_client out) = 0 \<and>
          pr_db d h = (if as = [] then None else Some (length as, first_spec as)))"

lemma next_count_all:
  assumes "length as < usize_limit - 1"
  shows "next_count (if as = [] then None else Some (length as, first_spec as)) suspect =
    (length (as @ [(c, suspect, k)]), first_spec (as @ [(c, suspect, k)]))"
  using assms by (auto simp: next_count_def usize_add_exact first_spec_append)

lemma handle_ack_hash_state:
  assumes "hash_state h as (d, out)" and "speculative (as @ [(c, suspect, k)]) \<le> 1"
    and "length as < usize_limit - 1"
  shows "hash_state h (as @ [(c, suspect, k)]) (handle_ack (d, out) c h suspect k)"
proof (cases "speculative as = 1 \<and> quorum d \<le> length as")
  case True
  then have s: "suspect = None" using assms(2) by (auto split: if_splits)
  have old: "answers_for h (to_client out) = 1" "\<forall>n sp. pr_db d h = Some (n, sp) \<longrightarrow> sp = None"
    using assms(1) True by (auto simp: hash_state_def)
  have "snd (next_count (pr_db d h) suspect) = None"
    using old(2) s by (auto simp: next_count_def split: option.split)
  with True s old show ?thesis
    by (auto simp: hash_state_def handle_ack_eq Let_def)
next
  case False
  have old: "answers_for h (to_client out) = 0"
    "pr_db d h = (if as = [] then None else Some (length as, first_spec as))"
    using assms(1) False unfolding hash_state_def by (simp_all split: if_splits)
  let ?as = "as @ [(c, suspect, k)]"
  have cnt: "next_count (pr_db d h) suspect = (length ?as, first_spec ?as)"
    unfolding old(2) by (rule next_count_all [OF assms(3)])
  have "first_spec ?as \<noteq> None \<longleftrightarrow> speculative ?as = 1"
    using assms(2) unfolding first_spec_None by linarith
  then show ?thesis
    using old(1) unfolding hash_state_def handle_ack_eq cnt
    by (simp add: Let_def answers_for_def)
qed

lemma handle_ack_other_hash:
  assumes "hash_state h as (d, out)" and "hash \<noteq> h"
  shows "hash_state h as (handle_ack (d, out) c hash suspect k)"
  using assms by (auto simp: hash_state_def handle_ack_eq Let_def answers_for_def)

lemma responses_hash_state:
  assumes "speculative (acks_for h ms) \<le> 1" and "length (acks_for h ms) < usize_limit"
  shows "hash_state h (acks_for h ms)
    (handle_server_responses (PrDatabase_new q, \<lparr>to_servers = qs, to_client = []\<rparr>) ms)"
  using assms
proof (induction ms rule: rev_induct)
  case Nil
  then show ?case
    by (simp add: handle_server_responses_def hash_state_def PrDatabase_new_def answers_for_def speculative_def)
next
  case (snoc m ms)
  obtain d out where s: "handle_server_responses (PrDatabase_new q, \<lparr>to_servers = qs, to_client = []\<rparr>) ms = (d, out)"
    by fastforce
  have step: "handle_server_responses (PrDatabase_new q, \<lparr>to_servers = qs, to_client = []\<rparr>) (ms @ [m]) =
      handle_server_response (d, out) m"
    using s by (simp add: handle_server_responses_def)
  have ih: "hash_state h (acks_for h ms) (d, out)"
    using snoc s by simp
  show ?case
    unfolding step
  proof (cases m)
    case (ServerAck cmd hash suspect k)
    then show "hash_state h (acks_for h (ms @ [m])) (handle_server_response (d, out) m)"
      using ih snoc.prems handle_ack_hash_state [of h "acks_for h ms" d out cmd suspect k]
        handle_ack_other_hash [OF ih, of hash cmd suspect k] by (cases "hash = h") simp_all
  qed (use ih in \<open>auto simp: hash_state_def answers_for_def\<close>)
qed

lemma responses_quorum:
  "quorum (fst (handle_server_responses s ms)) = quorum (fst s)"
proof (induction ms rule: rev_induct)
  case (snoc m ms)
  then show ?case
    by (cases m; cases "handle_server_responses s ms")
      (auto simp: handle_server_responses_def handle_ack_eq Let_def)
qed (simp add: handle_server_responses_def)


definition example_ack :: "u64 \<Rightarrow> Speculation \<Rightarrow> ServerMessage" where
  "example_ack h s = ServerAck \<lparr>client_id = 1, coordinator_id = 1, cmd_id = 0, private_id = 0, deadline = 0,
     kv_cmd = Get ''x''\<rparr> h s 1"


section \<open>What the servers are told\<close>

definition confirmations :: "ServerMessage list \<Rightarrow> ClientMessage list" where
  "confirmations ms = concat (map (\<lambda>m. case m of ServerAck cmd _ _ k \<Rightarrow> [ClientAck cmd k] | _ \<Rightarrow> []) ms)"

lemma response_confirms:
  assumes "to_servers out = replicate n (confirmations (to_client out))"
  shows "to_servers (snd (handle_server_response (d, out) m)) =
    replicate n (confirmations (to_client (snd (handle_server_response (d, out) m))))"
  using assms by (cases m) (auto simp: handle_ack_eq Let_def fan_out_def confirmations_def)


section \<open>Connections\<close>

definition no_receiver :: "(unit, usize) result" where
  "no_receiver = Inl (Panic ''called Option::unwrap() on a None value'')"

lemma accept_clients_eq:
  assumes "k + m < usize_limit"
  shows "accept_clients m (rs, k) = map (\<lambda>i. if i \<in> rs then Inr i else no_receiver) [k + 1..<k + m + 1]"
  using assms
proof (induction m arbitrary: k rs)
  case 0
  then show ?case by simp
next
  case (Suc m)
  have "accept_clients (Suc m) (rs, k) =
      (if k + 1 \<in> rs then Inr (k + 1) else no_receiver) # accept_clients m (rs - {k + 1}, k + 1)"
    using Suc.prems by (simp add: accept_client_def usize_add_exact no_receiver_def)
  also have "accept_clients m (rs - {k + 1}, k + 1) =
      map (\<lambda>i. if i \<in> rs then Inr i else no_receiver) [k + 1 + 1..<k + 1 + m + 1]"
  proof -
    have "accept_clients m (rs - {k + 1}, k + 1) =
        map (\<lambda>i. if i \<in> rs - {k + 1} then Inr i else no_receiver) [k + 1 + 1..<k + 1 + m + 1]"
      by (rule Suc.IH) (use Suc.prems in simp)
    also have "\<dots> = map (\<lambda>i. if i \<in> rs then Inr i else no_receiver) [k + 1 + 1..<k + 1 + m + 1]"
      by (intro map_cong refl) auto
    finally show ?thesis .
  qed
  also have "[k + 1..<k + Suc m + 1] = (k + 1) # [k + 1 + 1..<k + 1 + m + 1]"
    by (subst upt_conv_Cons) simp_all
  ultimately show ?case by simp
qed

text \<open>
  C37. Connections are numbered from 1 but the servers' channels from 0: with \<open>n\<close> servers the
  first \<open>n - 1\<close> client connections read the acknowledgements of servers 1 to \<open>n - 1\<close>, the next
  one panics the proxy, and no connection ever reads those of server 0.
\<close>

theorem first_server_never_heard:
  assumes "0 < length (pc_nodes config)" and "length (pc_nodes config) \<le> m" and "m < usize_limit"
  shows "take (length (pc_nodes config)) (accept_clients m (server_receivers config, 0)) =
           map Inr [1..<length (pc_nodes config)] @ [no_receiver] \<and>
         Inr 0 \<notin> set (accept_clients m (server_receivers config, 0))"
proof -
  let ?n = "length (pc_nodes config)" and ?f = "\<lambda>i. if i \<in> server_receivers config then Inr i else no_receiver"
  have acc: "accept_clients m (server_receivers config, 0) = map ?f [1..<m + 1]"
    using accept_clients_eq [of 0 m "server_receivers config"] assms(3) by simp
  have "take ?n (map ?f [1..<m + 1]) = map ?f [1..<?n + 1]"
    using assms(2) by (simp add: take_map take_upt del: upt_Suc)
  also have "\<dots> = map ?f [1..<?n] @ [?f ?n]"
    using assms(1) by (simp add: Suc_le_eq)
  also have "map ?f [1..<?n] = map Inr [1..<?n]"
    by (simp add: server_receivers_def)
  also have "?f ?n = no_receiver" by (simp add: server_receivers_def)
  finally show ?thesis using acc by (auto simp: no_receiver_def)
qed

definition example_proxy_config :: ProxyConfig where
  "example_proxy_config = \<lparr>pc_location = None, proxy_id = 1, pc_listen_address = ''0.0.0.0'', pc_listen_port = 8000,
     fault_tolerance = 1, pc_clients = [1], pc_nodes =
       map (\<lambda>i. \<lparr>pn_id = i, pn_address = ''s'', pn_listening_port = 8001\<rparr>) [1, 2, 3]\<rparr>"

theorem first_server_never_heard_witness:
  "take 3 (accept_clients 3 (server_receivers example_proxy_config, 0)) = [Inr 1, Inr 2, no_receiver]"
proof -
  have n: "length (pc_nodes example_proxy_config) = 3" by (simp add: example_proxy_config_def)
  have upt: "[1..<3] = [1, 2 :: nat]" by (simp add: upt_rec)
  show ?thesis
    using first_server_never_heard [of example_proxy_config 3] unfolding n upt by simp
qed

section \<open>Interleaved connections\<close>

text \<open>The connections run their current sections in the order given by a schedule.\<close>

fun run_connections ::
  "PrDatabase \<times> ProxyOut \<Rightarrow> AckTask option list \<Rightarrow> nat list \<Rightarrow> (PrDatabase \<times> ProxyOut) \<times> AckTask option list" where
  "run_connections s ts [] = (s, ts)"
| "run_connections s ts (k # ks) =
     (if k < length ts then
        (case ts ! k of
           None \<Rightarrow> run_connections s ts ks
         | Some t \<Rightarrow> (let (s', t') = ack_step s t in run_connections s' (ts[k := t']) ks))
      else run_connections s ts ks)"

definition example_tasks :: "AckTask option list" where
  "example_tasks =
     (let cmd = \<lparr>client_id = 1, coordinator_id = 1, cmd_id = 0, private_id = 0, deadline = 0, kv_cmd = Get ''x''\<rparr>
      in [Some (AckRead cmd 7 None 1), Some (AckRead cmd 7 (Some None) 1)])"


text \<open>
  Two quorums of acknowledgements share a server: with fewer than half of the servers
  allowed to fail, any two sets of servers of the proxy's quorum size intersect.
\<close>

theorem proxy_quorums_intersect:
  assumes "2 * fault_tolerance config < length (pc_nodes config)" and "length (pc_nodes config) < usize_limit"
    and "A \<subseteq> set [0..<length (pc_nodes config)]" and "B \<subseteq> set [0..<length (pc_nodes config)]"
    and "quorum (Proxy_new config) \<le> card A" and "quorum (Proxy_new config) \<le> card B"
  shows "A \<inter> B \<noteq> {}"
proof (rule card_overlap [where S = "set [0..<length (pc_nodes config)]"])
  have "quorum (Proxy_new config) = length (pc_nodes config) - fault_tolerance config"
    using assms(1,2) by (simp add: Proxy_new_def PrDatabase_new_def usize_sub_exact)
  then show "card (set [0..<length (pc_nodes config)]) < card A + card B"
    using assms(1,5,6) by simp
qed (use assms(3,4) in simp_all)

theorem proxy_quorums_intersect_witness: "{0, 1 :: nat} \<inter> {1, 2} \<noteq> {} \<and> quorum (Proxy_new example_proxy_config) = 2"
proof
  have q: "quorum (Proxy_new example_proxy_config) = 2"
    by (simp add: Proxy_new_def PrDatabase_new_def example_proxy_config_def usize_sub_def)
  then show "quorum (Proxy_new example_proxy_config) = 2" .
  show "{0, 1 :: nat} \<inter> {1, 2} \<noteq> {}"
    by (rule proxy_quorums_intersect [of example_proxy_config])
      (auto simp: q, simp_all add: example_proxy_config_def)
qed

end
