(* ===== verification/System.thy ===== *)
theory System
  imports Server Proxy
begin

text \<open>
  The servers and the proxy together. The worlds \<open>ws\<close> are the replicas of the servers, each in any
  state it can reach; the proxy has received some of the acknowledgements they sent, in any order and
  none of them twice. Under the assumption that the hasher has not collided on the logs at hand, a
  client is only answered with commands a quorum of servers has at the same position of the same
  history, and any two commands clients are answered with are in the log of a single server.
\<close>

text \<open>What the history hash covers of a log.\<close>

definition operations :: "Command list \<Rightarrow> (CommandId \<times> KVCommand) list" where
  "operations l = map (\<lambda>c. (cmd_id c, kv_cmd c)) l"

text \<open>The acknowledgements a server has sent to the proxy.\<close>

definition server_acks :: "(CommandStorage, Command, Database) World \<Rightarrow> ServerMessage list" where
  "server_acks w = concat (map (\<lambda>m. case to_server_message m of Inr a \<Rightarrow> [a] | Inl _ \<Rightarrow> []) (fetched w))"

definition collision_free :: "(HashToken list \<Rightarrow> u64) \<Rightarrow> Command list list \<Rightarrow> bool" where
  "collision_free finish ls \<longleftrightarrow> (\<forall>l\<in>set ls. \<forall>l'\<in>set ls. \<forall>m n.
     log_hash finish (take m l) = log_hash finish (take n l') \<longrightarrow> operations (take m l) = operations (take n l'))"

definition is_ack :: "u64 \<Rightarrow> ServerMessage \<Rightarrow> bool" where
  "is_ack h m = (case m of ServerAck _ hash _ _ \<Rightarrow> hash = h | _ \<Rightarrow> False)"

lemma operations_length: "operations xs = operations ys \<Longrightarrow> length xs = length ys"
  unfolding operations_def by (drule arg_cong [of _ _ length]) simp

lemma collision_freeD:
  "collision_free finish ls \<Longrightarrow> l \<in> set ls \<Longrightarrow> l' \<in> set ls \<Longrightarrow>
   log_hash finish (take m l) = log_hash finish (take n l') \<Longrightarrow> operations (take m l) = operations (take n l')"
  unfolding collision_free_def by blast

lemma is_ackE:
  assumes "filter (is_ack h) ms \<noteq> []"
  obtains c s k where "ServerAck c h s k \<in> set ms"
proof -
  obtain m where m: "m \<in> set ms" "is_ack h m" using assms by (auto simp: filter_empty_conv)
  from m(2) obtain c s k where "m = ServerAck c h s k" by (cases m) (auto simp: is_ack_def)
  with m(1) that show ?thesis by blast
qed

definition any_ack :: "ServerMessage \<Rightarrow> bool" where
  "any_ack m = (case m of ServerAck _ _ _ _ \<Rightarrow> True | _ \<Rightarrow> False)"

abbreviation proxy_run :: "ProxyConfig \<Rightarrow> ClientMessage list list \<Rightarrow> ServerMessage list \<Rightarrow> PrDatabase \<times> ProxyOut" where
  "proxy_run pc qs ms \<equiv> handle_server_responses (Proxy_new pc, \<lparr>to_servers = qs, to_client = []\<rparr>) ms"

section \<open>The proxy\<close>

lemma acks_for_length: "length (acks_for h ms) = length (filter (is_ack h) ms)"
proof (induction ms)
  case (Cons m ms)
  have "acks_for h (m # ms) = acks_for h [m] @ acks_for h ms" by (simp add: acks_for_def)
  with Cons show ?case by (cases m) (simp_all add: is_ack_def)
qed simp

lemma next_count_le: "fst (next_count cnt suspect) \<le> (case cnt of None \<Rightarrow> 0 | Some (n, _) \<Rightarrow> n) + 1"
  by (auto simp: next_count_def usize_add_def split: option.split)

text \<open>A counter counts received acknowledgements, and an answer is a received one with a quorum behind it.\<close>

lemma responses_counted:
  assumes "pr_db d0 = Map.empty"
  shows "(case handle_server_responses (d0, \<lparr>to_servers = qs, to_client = []\<rparr>) ms of (d, out) \<Rightarrow>
      quorum d = quorum d0 \<and> (\<forall>h n sp. pr_db d h = Some (n, sp) \<longrightarrow> n \<le> length (acks_for h ms)) \<and>
      (\<forall>c h s k. ServerAck c h s k \<in> set (to_client out) \<longrightarrow>
         quorum d0 \<le> length (acks_for h ms) \<and> ServerAck c h s k \<in> set ms))"
proof (induction ms rule: rev_induct)
  case Nil
  with assms show ?case by (simp add: handle_server_responses_def)
next
  case (snoc m ms)
  obtain d out where s: "handle_server_responses (d0, \<lparr>to_servers = qs, to_client = []\<rparr>) ms = (d, out)"
    by fastforce
  then have step: "handle_server_responses (d0, \<lparr>to_servers = qs, to_client = []\<rparr>) (ms @ [m]) =
      handle_server_response (d, out) m"
    by (simp add: handle_server_responses_def)
  have ih: "quorum d = quorum d0" "\<And>h n sp. pr_db d h = Some (n, sp) \<Longrightarrow> n \<le> length (acks_for h ms)"
    "\<And>c h s k. ServerAck c h s k \<in> set (to_client out) \<Longrightarrow>
       quorum d0 \<le> length (acks_for h ms) \<and> ServerAck c h s k \<in> set ms"
    using snoc s by auto
  have cnt: "fst (next_count (pr_db d hash) suspect) \<le> length (acks_for hash (ms @ [m]))"
    if "m = ServerAck c hash suspect k" for c hash suspect k
    using next_count_le [of "pr_db d hash" suspect] ih(2) [of hash] that by (fastforce split: option.splits)
  show ?case
    unfolding step
  proof (cases m)
    case (ServerAck c hash suspect k)
    show "case handle_server_response (d, out) m of (d, out) \<Rightarrow> quorum d = quorum d0 \<and>
        (\<forall>h n sp. pr_db d h = Some (n, sp) \<longrightarrow> n \<le> length (acks_for h (ms @ [m]))) \<and>
        (\<forall>c h s k. ServerAck c h s k \<in> set (to_client out) \<longrightarrow>
           quorum d0 \<le> length (acks_for h (ms @ [m])) \<and> ServerAck c h s k \<in> set (ms @ [m]))"
      using ih cnt [OF ServerAck] ServerAck
      by (cases "next_count (pr_db d hash) suspect")
        (auto simp: handle_ack_eq Let_def intro: le_SucI order_trans)
  qed (use ih in auto)
qed

section \<open>The servers\<close>

lemma filter_server_acks:
  "length (filter (is_ack h) (server_acks w)) =
   length (filter (\<lambda>(_, hash, _). hash = h) (concat (map message_acks (fetched w))))"
proof -
  have "length (filter (is_ack h) (case to_server_message m of Inr a \<Rightarrow> [a] | Inl _ \<Rightarrow> [])) =
      length (filter (\<lambda>(_, hash, _). hash = h) (message_acks m))" for m
    by (cases m) (auto simp: is_ack_def split: PaxosMsg.splits)
  then show ?thesis by (simp add: server_acks_def filter_concat length_concat o_def)
qed

lemma server_ack_message:
  "ServerAck c h s k \<in> set (server_acks w) \<Longrightarrow> (c, h, k) \<in> set (concat (map message_acks (fetched w)))"
proof -
  assume "ServerAck c h s k \<in> set (server_acks w)"
  then obtain m where m: "m \<in> set (fetched w)" "to_server_message m = Inr (ServerAck c h s k)"
    by (auto simp: server_acks_def split: sum.splits)
  have "(c, h, k) \<in> set (message_acks m)" using m(2) by (cases m) (auto split: PaxosMsg.splits)
  with m(1) show ?thesis by auto
qed

lemma server_ack_ok:
  assumes "kv_reachable finish cfg clk w" and "ServerAck c h s k \<in> set (server_acks w)"
  shows "0 < k \<and> k \<le> length (command_log w) \<and> command_log w ! (k - 1) = c \<and> h = log_hash finish (take k (command_log w))"
proof -
  have "(c, h, k) \<in> set (all_acks w)"
    using server_ack_message [OF assms(2)] by (simp add: all_acks_def)
  then have "ack_ok (log_hash finish) (command_log w) (c, h, k)"
    using kv_reachable_inv [OF assms(1)] by (auto simp: kvr.replica_inv_def acked_def)
  then show ?thesis by (simp add: ack_ok_def)
qed

lemma all_equal_length:
  assumes "distinct xs" and "\<And>x y. x \<in> set xs \<Longrightarrow> y \<in> set xs \<Longrightarrow> x = y"
  shows "length xs \<le> 1"
proof (cases xs)
  case (Cons x ys)
  have "ys = []"
  proof (rule ccontr)
    assume "ys \<noteq> []"
    then have "hd ys \<in> set ys" by simp
    with assms(2) [of x "hd ys"] assms(1) Cons show False by simp
  qed
  with Cons show ?thesis by simp
qed simp

text \<open>A server sends a hash at most once: two positions with one hash would be a collision.\<close>

lemma one_ack_per_hash:
  assumes "kv_reachable finish cfg clk w" and "collision_free finish ls" and "command_log w \<in> set ls"
  shows "length (filter (is_ack h) (server_acks w)) \<le> 1"
proof -
  let ?acks = "filter (\<lambda>(_, hash, _). hash = h) (concat (map message_acks (fetched w)))"
  have inv: "\<forall>a\<in>set (all_acks w). ack_ok (log_hash finish) (command_log w) a"
    "mset (map (snd \<circ> snd) (all_acks w)) = mset [1..<length (command_log w) + 1]"
    using kv_reachable_inv [OF assms(1)] by (simp_all add: kvr.replica_inv_def acked_def)
  have "distinct (map (snd \<circ> snd) (all_acks w))"
    using mset_eq_imp_distinct_iff [OF inv(2)] by simp
  then have "distinct (map (snd \<circ> snd) ?acks)"
    by (simp add: all_acks_def distinct_map_filter)
  moreover have "x = y" if "x \<in> set (map (snd \<circ> snd) ?acks)" "y \<in> set (map (snd \<circ> snd) ?acks)" for x y
  proof -
    have pos: "x \<le> length (command_log w) \<and> log_hash finish (take x (command_log w)) = h"
      if x: "x \<in> set (map (snd \<circ> snd) ?acks)" for x
    proof -
      obtain a where "a \<in> set ?acks" "x = snd (snd a)" using x by (auto simp del: set_concat set_filter)
      then obtain r where "(r, h, x) \<in> set (concat (map message_acks (fetched w)))"
        by (cases a rule: prod_cases3) (auto simp del: set_concat)
      then have "(r, h, x) \<in> set (all_acks w)" by (simp add: all_acks_def)
      with inv(1) show ?thesis by (auto simp: ack_ok_def)
    qed
    note x = pos [OF that(1)] and y = pos [OF that(2)]
    then have "operations (take x (command_log w)) = operations (take y (command_log w))"
      by (intro collision_freeD [OF assms(2,3,3)]) simp
    then have "length (take x (command_log w)) = length (take y (command_log w))"
      by (rule operations_length)
    with x y show ?thesis by simp
  qed
  ultimately have "length (map (snd \<circ> snd) ?acks) \<le> 1" by (rule all_equal_length)
  then show ?thesis by (simp add: filter_server_acks)
qed

text \<open>Acknowledgements for a hash come from as many servers.\<close>

lemma acks_from_servers:
  assumes "mset (filter any_ack ms) \<subseteq># mset (concat (map server_acks ws))"
    and "\<And>w. w \<in> set ws \<Longrightarrow> length (filter (is_ack h) (server_acks w)) \<le> 1"
  shows "length (acks_for h ms) \<le> card {i. i < length ws \<and> filter (is_ack h) (server_acks (ws ! i)) \<noteq> []}"
proof -
  let ?f = "\<lambda>i. length (filter (is_ack h) (server_acks (ws ! i)))"
  have "filter (is_ack h) (filter any_ack ms) = filter (is_ack h) ms"
    by (induction ms) (auto simp: is_ack_def any_ack_def split: ServerMessage.splits)
  then have "mset (filter (is_ack h) ms) \<subseteq># mset (filter (is_ack h) (concat (map server_acks ws)))"
    using multiset_filter_mono [OF assms(1), of "is_ack h"] by (simp only: mset_filter [symmetric])
  then have "length (acks_for h ms) \<le> length (filter (is_ack h) (concat (map server_acks ws)))"
    unfolding acks_for_length by (metis size_mset size_mset_mono)
  also have "\<dots> = sum_list (map (\<lambda>w. length (filter (is_ack h) (server_acks w))) ws)"
    by (simp add: filter_concat length_concat o_def)
  also have "\<dots> = (\<Sum>i<length ws. ?f i)"
    by (simp add: sum_list_sum_nth atLeast0LessThan)
  also have "\<dots> \<le> (\<Sum>i<length ws. if filter (is_ack h) (server_acks (ws ! i)) \<noteq> [] then 1 else 0)"
    by (rule sum_mono) (use assms(2) in \<open>auto simp: Suc_le_eq intro: le_neq_implies_less\<close>)
  also have "\<dots> = card {i. i < length ws \<and> filter (is_ack h) (server_acks (ws ! i)) \<noteq> []}"
    by (simp add: sum.If_cases Int_def lessThan_def)
  finally show ?thesis .
qed

section \<open>The answers\<close>

text \<open>The situation: reachable servers without hash collisions, acknowledgements delivered at most once.\<close>

definition deployment ::
  "(HashToken list \<Rightarrow> u64) \<Rightarrow> (CommandStorage, Command, Database) World list \<Rightarrow> ServerMessage list \<Rightarrow> bool" where
  "deployment finish ws ms \<longleftrightarrow>
     (\<forall>w\<in>set ws. \<exists>cfg clk. kv_reachable finish cfg clk w) \<and> collision_free finish (map command_log ws) \<and>
     mset (filter any_ack ms) \<subseteq># mset (concat (map server_acks ws))"

lemma answer_quorum:
  assumes "deployment finish ws ms" and "ServerAck c h s k \<in> set (to_client (snd (proxy_run pc qs ms)))"
  shows "\<exists>Q \<subseteq> {..<length ws}. quorum (Proxy_new pc) \<le> card Q \<and> 0 < k \<and>
     (\<forall>i\<in>Q. k \<le> length (command_log (ws ! i)) \<and>
        log_hash finish (take k (command_log (ws ! i))) = h \<and>
        operations [command_log (ws ! i) ! (k - 1)] = operations [c])"
proof -
  have reach: "\<exists>cfg clk. kv_reachable finish cfg clk w" if "w \<in> set ws" for w
    using assms(1) that by (simp add: deployment_def)
  have free: "collision_free finish (map command_log ws)"
    and sub: "mset (filter any_ack ms) \<subseteq># mset (concat (map server_acks ws))"
    using assms(1) by (simp_all add: deployment_def)
  have "pr_db (Proxy_new pc) = Map.empty" by (simp add: Proxy_new_def PrDatabase_new_def)
  from responses_counted [OF this, where qs = qs and ms = ms] assms(2)
  have q: "quorum (Proxy_new pc) \<le> length (acks_for h ms)" and "ServerAck c h s k \<in> set ms"
    by (auto simp: split_beta)
  then have "ServerAck c h s k \<in># mset (filter any_ack ms)" by (simp add: any_ack_def)
  then obtain w where w: "w \<in> set ws" "ServerAck c h s k \<in> set (server_acks w)"
    using mset_subset_eqD [OF sub] by auto
  have ok: "0 < k \<and> k \<le> length (command_log w) \<and> command_log w ! (k - 1) = c \<and>
      h = log_hash finish (take k (command_log w))"
    using server_ack_ok [OF _ w(2)] reach [OF w(1)] by blast
  let ?Q = "{i. i < length ws \<and> filter (is_ack h) (server_acks (ws ! i)) \<noteq> []}"
  have "length (acks_for h ms) \<le> card ?Q"
    by (rule acks_from_servers [OF sub]) (use reach free one_ack_per_hash in fastforce)
  moreover have "k \<le> length (command_log (ws ! i)) \<and> log_hash finish (take k (command_log (ws ! i))) = h \<and>
      operations [command_log (ws ! i) ! (k - 1)] = operations [c]" if iQ: "i \<in> ?Q" for i
  proof -
    let ?l = "command_log (ws ! i)"
    have i: "ws ! i \<in> set ws" using iQ by simp
    obtain c' s' k' where "ServerAck c' h s' k' \<in> set (server_acks (ws ! i))"
      using iQ by (auto elim: is_ackE)
    with server_ack_ok reach [OF i] have k': "k' \<le> length ?l" "h = log_hash finish (take k' ?l)" by blast+
    then have ops: "operations (take k' ?l) = operations (take k (command_log w))"
      using i w(1) ok by (intro collision_freeD [OF free]) auto
    then have "length (take k' ?l) = length (take k (command_log w))"
      by (rule operations_length)
    then have "k' = k" using k' ok by simp
    moreover have "operations (take k ?l) ! (k - 1) = operations (take k (command_log w)) ! (k - 1)"
      using ops \<open>k' = k\<close> by simp
    then have "operations [?l ! (k - 1)] = operations [c]"
      using ok k' \<open>k' = k\<close> by (simp add: operations_def)
    ultimately show ?thesis using k' by simp
  qed
  ultimately show ?thesis using q ok by (intro exI [of _ ?Q]) auto
qed



section \<open>An example\<close>

text \<open>Two commands on a leader and on a follower, both in the order of their deadlines.\<close>

definition two_commands :: "Command Event list" where
  "two_commands =
     [Propose cmd_b, Propose cmd_a, RunTask 0 0, RunTask 0 0,
      WaiterTake cmd_b, WaiterRegister, Tick True, RunTask 2 0, WaiterNotify, RunTask 0 0,
      WaiterTake cmd_a, WaiterRegister, Tick True, RunTask 2 0, WaiterNotify, RunTask 0 0,
      RunTask 0 0, RunTask 0 0, TakeClientOutgoing]"

lemma follower_result:
  "\<exists>w. example_run two_commands = Some w \<and> command_log w = [cmd_b, cmd_a] \<and> proposed w = [cmd_b, cmd_a] \<and>
     fetched w = [SequencePaxos \<lparr>pm_from = 1, pm_to = 1, pm_msg = Ack cmd_b 3 None 1\<rparr>,
                  SequencePaxos \<lparr>pm_from = 1, pm_to = 1, pm_msg = Ack cmd_a 7 None 2\<rparr>]"
  by (simp add: run_simps two_commands_def)

lemma leader_result:
  "\<exists>w. example_run (NewLeader (Ballot_with 0 1 0 1) # two_commands) = Some w \<and> command_log w = [cmd_b, cmd_a] \<and>
     proposed w = [cmd_b, cmd_a] \<and>
     fetched w = [SequencePaxos \<lparr>pm_from = 1, pm_to = 1, pm_msg = Ack cmd_b 3 (Some (Some None)) 1\<rparr>,
                  SequencePaxos \<lparr>pm_from = 1, pm_to = 1, pm_msg = Ack cmd_a 7 (Some None) 2\<rparr>]"
  by (simp add: run_simps two_commands_def handle_leader_def Ballot_with_def flush_batch_def SequencePaxos_get_promise_def
      InternalStorage_get_promise_def execute_command_def ballot_le_def less_eq_Ballot_ext_def)

lemma take_two: "take m [x, y] = (if m = 0 then [] else if m = 1 then [x] else [x, y])"
  by (cases m; cases "m - 1") auto

lemma example_collision_free: "collision_free example_finish [[cmd_b, cmd_a], [cmd_b, cmd_a], []]"
  by (auto simp: collision_free_def take_two log_hash_def example_finish_def Command_hash_def example_command_def
      split: if_splits)

definition example_acks :: "ServerMessage list" where
  "example_acks = [ServerAck cmd_b 3 None 1, ServerAck cmd_b 3 (Some (Some None)) 1,
     ServerAck cmd_a 7 (Some None) 2, ServerAck cmd_a 7 None 2]"

lemma example_deployment:
  obtains ws where "length ws = 3" and "map command_log ws = [[cmd_b, cmd_a], [cmd_b, cmd_a], []]"
    and "deployment example_finish ws example_acks"
    and "map server_acks ws = [[ServerAck cmd_b 3 (Some (Some None)) 1, ServerAck cmd_a 7 (Some None) 2],
      [ServerAck cmd_b 3 None 1, ServerAck cmd_a 7 None 2], []]"
proof -
  obtain w1 where w1: "example_run (NewLeader (Ballot_with 0 1 0 1) # two_commands) = Some w1"
    "command_log w1 = [cmd_b, cmd_a]" "proposed w1 = [cmd_b, cmd_a]"
    "fetched w1 = [SequencePaxos \<lparr>pm_from = 1, pm_to = 1, pm_msg = Ack cmd_b 3 (Some (Some None)) 1\<rparr>,
                  SequencePaxos \<lparr>pm_from = 1, pm_to = 1, pm_msg = Ack cmd_a 7 (Some None) 2\<rparr>]"
    using leader_result by blast
  obtain w2 where w2: "example_run two_commands = Some w2"
    "command_log w2 = [cmd_b, cmd_a]" "proposed w2 = [cmd_b, cmd_a]"
    "fetched w2 = [SequencePaxos \<lparr>pm_from = 1, pm_to = 1, pm_msg = Ack cmd_b 3 None 1\<rparr>,
                  SequencePaxos \<lparr>pm_from = 1, pm_to = 1, pm_msg = Ack cmd_a 7 None 2\<rparr>]"
    using follower_result by blast
  have w0: "example_run [] = Some example_world" "command_log example_world = []" "proposed example_world = []"
    "fetched example_world = []"
    by (simp_all add: run_simps)
  let ?reach = "kv_reachable example_finish example_paxos_config (Clock_new 1 0 1 0 0 1000)"
  have ids: "distinct (map private_id [cmd_b, cmd_a])" by (simp add: example_command_def)
  have "?reach w1" by (rule example_run_reachable [OF w1(1)]) (simp_all only: w1(3) ids, simp)
  moreover have "?reach w2" by (rule example_run_reachable [OF w2(1)]) (simp_all only: w2(3) ids, simp)
  moreover have "?reach example_world" by (rule example_run_reachable [OF w0(1)]) (simp_all add: w0(3))
  ultimately have reach: "\<forall>w\<in>set [w1, w2, example_world]. \<exists>cfg clk. kv_reachable example_finish cfg clk w"
    by (simp only: list.set ball_simps) blast
  have sent: "map server_acks [w1, w2, example_world] = [[ServerAck cmd_b 3 (Some (Some None)) 1, ServerAck cmd_a 7 (Some None) 2],
      [ServerAck cmd_b 3 None 1, ServerAck cmd_a 7 None 2], []]"
    by (simp add: server_acks_def w1(4) w2(4) w0(4))
  have acks: "mset (filter any_ack example_acks) \<subseteq># mset (concat (map server_acks [w1, w2, example_world]))"
    unfolding sent by (simp add: example_acks_def any_ack_def add_mset_commute)
  have logs: "map command_log [w1, w2, example_world] = [[cmd_b, cmd_a], [cmd_b, cmd_a], []]"
    by (simp only: list.map w1(2) w2(2) w0(2))
  have free: "collision_free example_finish (map command_log [w1, w2, example_world])"
    unfolding logs by (rule example_collision_free)
  have "deployment example_finish [w1, w2, example_world] example_acks"
    unfolding deployment_def by (intro conjI reach free acks)
  from that [OF _ logs this sent] show ?thesis by simp
qed

lemma example_answers:
  "to_client (snd (proxy_run example_proxy_config [] example_acks)) =
     [ServerAck cmd_b 3 (Some (Some None)) 1, ServerAck cmd_a 7 None 2]"
  by (simp add: handle_server_responses_def example_acks_def handle_ack_eq Proxy_new_def PrDatabase_new_def
      example_proxy_config_def usize_sub_def next_count_def usize_add_def Let_def fan_out_def)



end
