(* ===== verification/Connections.thy ===== *)
theory Connections
  imports Network Proxy "HOL-Library.Sublist"
begin

text \<open>
  The tasks behind the connections: the reader and writer tasks of \<^verbatim>\<open>src/server/network.rs\<close>
  (\<open>PeerConnection\<close>, \<open>ClientConnection\<close>) and \<^verbatim>\<open>src/client/network.rs\<close> (\<open>ServerConnection\<close>), the loops that
  resolve addresses and establish connections, and \<open>server_actor\<close> of \<^verbatim>\<open>src/proxy/proxy.rs\<close>.

  The framed socket (\<^verbatim>\<open>tokio_util\<close>, \<^verbatim>\<open>tokio_serde\<close>, TCP) is a parameter: a sink with a state, \<open>feed\<close> and
  \<open>flush\<close>, whose documented behaviour is the locale \<open>message_sink\<close>; a stream is the list of the chunks
  it yields. Every turn of a task's loop is one step.

  Shown: a connection to a client delivers a prefix of the messages sent over it, whatever fails; one to
  a peer keeps the order but may leave gaps; without failures everything sent arrives; the proxy tries
  every message for a server exactly once.
\<close>

section \<open>Writer tasks\<close>

text \<open>The loop over a buffer of messages, up to the first error of \<open>feed\<close>.\<close>

fun feed_all :: "('s \<Rightarrow> 'm \<Rightarrow> 's \<times> ('e + unit)) \<Rightarrow> 's \<Rightarrow> 'm list \<Rightarrow> 's \<times> 'e option" where
  "feed_all feed s [] = (s, None)"
| "feed_all feed s (msg # buffer) =
     (case feed s msg of
        (s, Inr _) \<Rightarrow> feed_all feed s buffer
      | (s, Inl err) \<Rightarrow> (s, Some err))"

text \<open>
  \<open>recv_many\<close>: waits for messages (\<open>None\<close> while there are none), then takes up to \<open>limit\<close> of them.
\<close>

definition recv_many :: "usize \<Rightarrow> 'm Connection \<Rightarrow> ('m list \<times> 'm Connection) option" where
  "recv_many limit c =
     (if limit = 0 then Some ([], c)
      else if conn_out c = [] then None
      else Some (take limit (conn_out c), c\<lparr>conn_out := drop limit (conn_out c)\<rparr>))"

text \<open>
  A turn of the writer task of a peer connection. An error of \<open>feed\<close> ends the inner loop, the rest of
  the buffer is dropped, and the task goes on with \<open>flush\<close>; an error of \<open>flush\<close> ends the task.
\<close>

definition PeerConnection_writer ::
  "('s \<Rightarrow> 'm \<Rightarrow> 's \<times> ('e + unit)) \<Rightarrow> ('s \<Rightarrow> 's \<times> ('e + unit)) \<Rightarrow> usize \<Rightarrow>
   's \<times> 'm Connection \<Rightarrow> 's \<times> 'm Connection" where
  "PeerConnection_writer feed flush batch_size sc =
     (case sc of (s, c) \<Rightarrow>
        if \<not> conn_open c then (s, c)
        else (case recv_many batch_size c of
            None \<Rightarrow> (s, c)
          | Some ([], c) \<Rightarrow> (s, c\<lparr>conn_open := False\<rparr>)
          | Some (buffer, c) \<Rightarrow>
              (case flush (fst (feed_all feed s buffer)) of
                 (s, Inl _) \<Rightarrow> (s, c\<lparr>conn_open := False\<rparr>)
               | (s, Inr _) \<Rightarrow> (s, c))))"

text \<open>The writer task of a client connection: it ends at the first error of either.\<close>

definition ClientConnection_writer ::
  "('s \<Rightarrow> 'm \<Rightarrow> 's \<times> ('e + unit)) \<Rightarrow> ('s \<Rightarrow> 's \<times> ('e + unit)) \<Rightarrow> usize \<Rightarrow>
   's \<times> 'm Connection \<Rightarrow> 's \<times> 'm Connection" where
  "ClientConnection_writer feed flush batch_size sc =
     (case sc of (s, c) \<Rightarrow>
        if \<not> conn_open c then (s, c)
        else (case recv_many batch_size c of
            None \<Rightarrow> (s, c)
          | Some ([], c) \<Rightarrow> (s, c\<lparr>conn_open := False\<rparr>)
          | Some (buffer, c) \<Rightarrow>
              (case feed_all feed s buffer of
                 (s, Some _) \<Rightarrow> (s, c\<lparr>conn_open := False\<rparr>)
               | (s, None) \<Rightarrow>
                   (case flush s of
                      (s, Inl _) \<Rightarrow> (s, c\<lparr>conn_open := False\<rparr>)
                    | (s, Inr _) \<Rightarrow> (s, c)))))"

text \<open>The writer task on the client's side has the loop of the peer connection.\<close>

definition ServerConnection_writer ::
  "('s \<Rightarrow> 'm \<Rightarrow> 's \<times> ('e + unit)) \<Rightarrow> ('s \<Rightarrow> 's \<times> ('e + unit)) \<Rightarrow> usize \<Rightarrow>
   's \<times> 'm Connection \<Rightarrow> 's \<times> 'm Connection" where
  "ServerConnection_writer feed flush batch_size sc =
     (case sc of (s, c) \<Rightarrow>
        if \<not> conn_open c then (s, c)
        else (case recv_many batch_size c of
            None \<Rightarrow> (s, c)
          | Some ([], c) \<Rightarrow> (s, c\<lparr>conn_open := False\<rparr>)
          | Some (buffer, c) \<Rightarrow>
              (case flush (fst (feed_all feed s buffer)) of
                 (s, Inl _) \<Rightarrow> (s, c\<lparr>conn_open := False\<rparr>)
               | (s, Inr _) \<Rightarrow> (s, c))))"

text \<open>\<open>close\<close> aborts both tasks.\<close>

definition Connection_close :: "'m Connection \<Rightarrow> 'm Connection" where
  "Connection_close c = c\<lparr>conn_open := False\<rparr>"

section \<open>Reader tasks\<close>

text \<open>The sending end of the channel a reader forwards to: a send fails when the receiver is gone.\<close>

record 'm Channel =
  ch_open :: bool
  ch_queue :: "'m list"

definition Channel_send :: "'m Channel \<Rightarrow> 'm \<Rightarrow> 'm Channel \<times> ('m + unit)" where
  "Channel_send ch m = (if ch_open ch then (ch\<lparr>ch_queue := ch_queue ch @ [m]\<rparr>, Inr ()) else (ch, Inl m))"

text \<open>
  The loop of the reader of a peer connection over a chunk: a failed send ends the loop over this chunk
  only, and a message that could not be deserialised is logged.
\<close>

fun PeerConnection_forward :: "NodeId \<Rightarrow> (NodeId \<times> 'm) Channel \<Rightarrow> ('e + 'm) list \<Rightarrow> (NodeId \<times> 'm) Channel" where
  "PeerConnection_forward peer_id ch [] = ch"
| "PeerConnection_forward peer_id ch (Inr m # messages) =
     (case Channel_send ch (peer_id, m) of
        (ch, Inl _) \<Rightarrow> ch
      | (ch, Inr _) \<Rightarrow> PeerConnection_forward peer_id ch messages)"
| "PeerConnection_forward peer_id ch (Inl err # messages) = PeerConnection_forward peer_id ch messages"

text \<open>The reader of a client connection unwraps the result of the send.\<close>

fun ClientConnection_forward ::
  "ClientId \<Rightarrow> (ClientId \<times> 'm) Channel \<Rightarrow> ('e + 'm) list \<Rightarrow> (ClientId \<times> 'm) Channel \<times> (unit, unit) result" where
  "ClientConnection_forward cid ch [] = (ch, Inr ())"
| "ClientConnection_forward cid ch (Inr m # messages) =
     (case Channel_send ch (cid, m) of
        (ch, Inl _) \<Rightarrow> (ch, Inl (Panic ''called Result::unwrap() on an Err value''))
      | (ch, Inr _) \<Rightarrow> ClientConnection_forward cid ch messages)"
| "ClientConnection_forward cid ch (Inl err # messages) = ClientConnection_forward cid ch messages"

fun ServerConnection_forward :: "'m Channel \<Rightarrow> ('e + 'm) list \<Rightarrow> 'm Channel \<times> (unit, unit) result" where
  "ServerConnection_forward ch [] = (ch, Inr ())"
| "ServerConnection_forward ch (Inr m # messages) =
     (case Channel_send ch m of
        (ch, Inl _) \<Rightarrow> (ch, Inl (Panic ''called Result::unwrap() on an Err value''))
      | (ch, Inr _) \<Rightarrow> ServerConnection_forward ch messages)"
| "ServerConnection_forward ch (Inl err # messages) = ServerConnection_forward ch messages"

text \<open>The tasks: the loop over the chunks \<open>ready_chunks\<close> yields until the stream ends or the task panics.\<close>

definition PeerConnection_reader :: "NodeId \<Rightarrow> (NodeId \<times> 'm) Channel \<Rightarrow> ('e + 'm) list list \<Rightarrow> (NodeId \<times> 'm) Channel" where
  "PeerConnection_reader peer_id ch chunks = foldl (PeerConnection_forward peer_id) ch chunks"

fun ClientConnection_reader ::
  "ClientId \<Rightarrow> (ClientId \<times> 'm) Channel \<Rightarrow> ('e + 'm) list list \<Rightarrow> (ClientId \<times> 'm) Channel \<times> (unit, unit) result" where
  "ClientConnection_reader cid ch [] = (ch, Inr ())"
| "ClientConnection_reader cid ch (messages # chunks) =
     (case ClientConnection_forward cid ch messages of
        (ch, Inl p) \<Rightarrow> (ch, Inl p)
      | (ch, Inr _) \<Rightarrow> ClientConnection_reader cid ch chunks)"

fun ServerConnection_reader :: "'m Channel \<Rightarrow> ('e + 'm) list list \<Rightarrow> 'm Channel \<times> (unit, unit) result" where
  "ServerConnection_reader ch [] = (ch, Inr ())"
| "ServerConnection_reader ch (messages # chunks) =
     (case ServerConnection_forward ch messages of
        (ch, Inl p) \<Rightarrow> (ch, Inl p)
      | (ch, Inr _) \<Rightarrow> ServerConnection_reader ch chunks)"

section \<open>Establishing connections\<close>

text \<open>
  Trying until it works: \<open>attempt k\<close> is the outcome of the \<open>k\<close>-th attempt, \<open>None\<close> is a loop without end.
\<close>

partial_function (option) retry :: "(nat \<Rightarrow> 'e + 'a) \<Rightarrow> nat \<Rightarrow> 'a option" where
  "retry attempt k = (case attempt k of Inr x \<Rightarrow> Some x | Inl _ \<Rightarrow> retry attempt (k + 1))"

text \<open>\<open>resolve\<close> of the client, and the same loop in \<open>get_addrs\<close> of the server: the first address found.\<close>

definition resolve :: "(nat \<Rightarrow> 'e + 'addr list) \<Rightarrow> (unit, 'addr) result option" where
  "resolve to_socket_addrs =
     map_option (\<lambda>addrs. unwrap ''called Option::unwrap() on a None value'' (case addrs of [] \<Rightarrow> None | a # _ \<Rightarrow> Some a))
       (retry to_socket_addrs 0)"

fun resolve_all :: "('n \<Rightarrow> nat \<Rightarrow> 'e + 'addr list) \<Rightarrow> 'n list \<Rightarrow> (unit, 'addr list) result option" where
  "resolve_all dns [] = Some (Inr [])"
| "resolve_all dns (addr_str # rest) =
     (case resolve (dns addr_str) of
        None \<Rightarrow> None
      | Some (Inl p) \<Rightarrow> Some (Inl p)
      | Some (Inr a) \<Rightarrow> map_option (\<lambda>r. try_result r (\<lambda>as. Inr (a # as))) (resolve_all dns rest))"

definition get_addrs ::
  "(string \<Rightarrow> 'addr option) \<Rightarrow> (string \<Rightarrow> nat \<Rightarrow> 'e + 'addr list) \<Rightarrow> string \<Rightarrow> u16 \<Rightarrow> string list \<Rightarrow>
   (unit, 'addr \<times> 'addr list) result option" where
  "get_addrs from_str dns listen_addr listen_p node_addrs =
     (let listen_address_str = listen_addr @ '':'' @ usize_to_string (unat listen_p)
      in case from_str listen_address_str of
           None \<Rightarrow> Some (Inl (Panic (listen_address_str @ '' is an invalid listen address'')))
         | Some listen_address \<Rightarrow>
             map_option (\<lambda>r. try_result r (\<lambda>as. Inr (listen_address, as))) (resolve_all dns node_addrs))"

text \<open>
  The task \<open>spawn_peer_connectors\<close> starts for a peer: connect, register, and hand over the connection.
  The outer \<open>None\<close> is a task that never connects, the inner one a handshake that failed.
\<close>

definition peer_connector ::
  "(nat \<Rightarrow> 'e + 's) \<Rightarrow> ('s \<Rightarrow> RegistrationMessage \<Rightarrow> 's \<times> ('e + unit)) \<Rightarrow> NodeId \<Rightarrow> NodeId \<Rightarrow> NewConnection option option" where
  "peer_connector connect send_reg my_id peer =
     map_option (\<lambda>stream. case send_reg stream (NodeRegister my_id) of
         (_, Inl err) \<Rightarrow> None
       | (_, Inr _) \<Rightarrow> Some (ToPeer (Connection_new peer)))
       (retry connect 0)"

text \<open>\<open>get_server_connection\<close> of the client: a failed registration panics its task.\<close>

definition get_server_connection ::
  "(nat \<Rightarrow> 'e + 's) \<Rightarrow> ('s \<Rightarrow> RegistrationMessage \<Rightarrow> 's \<times> ('e + unit)) \<Rightarrow> (unit, 's) result option" where
  "get_server_connection connect send_reg =
     map_option (\<lambda>stream. case send_reg stream ClientRegister of
         (_, Inl err) \<Rightarrow> Inl (Panic ''Couldn't send registration to server'')
       | (stream, Inr _) \<Rightarrow> Inr stream)
       (retry connect 0)"

section \<open>The server actor of the proxy\<close>

text \<open>
  The actor of a server: its connection, if there is one, the messages waiting for the server, and the
  channel to the handler of a client. \<open>writes\<close> is the history of its calls of \<open>writer.send\<close>.
\<close>

record 's ServerActor =
  sa_stream :: "'s option"
  server_receiver :: "ClientMessage list"
  client_sender :: "ServerMessage Channel"
  writes :: "(ClientMessage \<times> bool) list"

text \<open>
  What happens to it: a message from a handler, the outcome of a connection attempt, a turn that sends,
  and a turn that receives. A message whose send failed is gone when the actor reconnects.
\<close>

datatype ('s, 'e) ActorEvent =
    HandlerSends ClientMessage
  | ConnectResult "'e + 's"
  | ActorSends
  | ActorReceives "'e + ServerMessage"

fun server_actor ::
  "('s \<Rightarrow> RegistrationMessage \<Rightarrow> 's \<times> ('e + unit)) \<Rightarrow> ('s \<Rightarrow> ClientMessage \<Rightarrow> 's \<times> ('e + unit)) \<Rightarrow>
   's ServerActor \<Rightarrow> ('s, 'e) ActorEvent \<Rightarrow> 's ServerActor" where
  "server_actor send_reg send a (HandlerSends msg) = a\<lparr>server_receiver := server_receiver a @ [msg]\<rparr>"
| "server_actor send_reg send a (ConnectResult r) =
     (if sa_stream a \<noteq> None then a
      else (case r of
          Inl err \<Rightarrow> a
        | Inr stream \<Rightarrow>
            (case send_reg stream ClientRegister of
               (_, Inl _) \<Rightarrow> a
             | (stream, Inr _) \<Rightarrow> a\<lparr>sa_stream := Some stream\<rparr>)))"
| "server_actor send_reg send a ActorSends =
     (case (sa_stream a, server_receiver a) of
        (Some s, msg # rest) \<Rightarrow>
          (case send s msg of
             (_, Inl err) \<Rightarrow> a\<lparr>server_receiver := rest, sa_stream := None, writes := writes a @ [(msg, False)]\<rparr>
           | (s, Inr _) \<Rightarrow> a\<lparr>server_receiver := rest, sa_stream := Some s, writes := writes a @ [(msg, True)]\<rparr>)
      | _ \<Rightarrow> a)"
| "server_actor send_reg send a (ActorReceives r) =
     (if sa_stream a = None then a
      else (case r of
          Inr m \<Rightarrow> a\<lparr>client_sender := fst (Channel_send (client_sender a) m)\<rparr>
        | Inl err \<Rightarrow> a\<lparr>sa_stream := None\<rparr>))"

section \<open>Runs of a connection\<close>

text \<open>
  A connection in use: sends and turns of its writer in any order. The second component collects the
  messages whose send succeeded.
\<close>

datatype 'm LinkEvent = LinkSend 'm | LinkWrite

fun link_step ::
  "('s \<times> 'm Connection \<Rightarrow> 's \<times> 'm Connection) \<Rightarrow> ('s \<times> 'm Connection) \<times> 'm list \<Rightarrow> 'm LinkEvent \<Rightarrow>
   ('s \<times> 'm Connection) \<times> 'm list" where
  "link_step writer ((s, c), sent) (LinkSend m) =
     (case Connection_send c m of (c, Inr _) \<Rightarrow> ((s, c), sent @ [m]) | (c, Inl _) \<Rightarrow> ((s, c), sent))"
| "link_step writer (sc, sent) LinkWrite = (writer sc, sent)"

definition link_run ::
  "('s \<times> 'm Connection \<Rightarrow> 's \<times> 'm Connection) \<Rightarrow> 's \<times> 'm Connection \<Rightarrow> 'm LinkEvent list \<Rightarrow>
   ('s \<times> 'm Connection) \<times> 'm list" where
  "link_run writer sc es = foldl (link_step writer) (sc, []) es"

lemma link_run_snoc: "link_run writer sc (es @ [e]) = link_step writer (link_run writer sc es) e"
  by (simp add: link_run_def)

text \<open>The messages of a stream that could be deserialised.\<close>

definition readable :: "('e + 'm) list \<Rightarrow> 'm list" where
  "readable ms = concat (map (\<lambda>m. case m of Inr x \<Rightarrow> [x] | Inl _ \<Rightarrow> []) ms)"

lemma readable_simps [simp]:
  "readable [] = []" "readable (Inr m # ms) = m # readable ms" "readable (Inl e # ms) = readable ms"
  "readable (map Inr xs) = xs" "readable (ms @ ms') = readable ms @ readable ms'"
  by (simp_all add: readable_def o_def)

lemma PeerConnection_forward_open:
  "ch_open ch \<Longrightarrow> PeerConnection_forward i ch ms = ch\<lparr>ch_queue := ch_queue ch @ map (Pair i) (readable ms)\<rparr>"
  by (induction i ch ms rule: PeerConnection_forward.induct) (simp_all add: Channel_send_def)

lemma PeerConnection_reader_open:
  "ch_open ch \<Longrightarrow> PeerConnection_reader i ch cs = ch\<lparr>ch_queue := ch_queue ch @ map (Pair i) (readable (concat cs))\<rparr>"
  unfolding PeerConnection_reader_def
  by (induction cs arbitrary: ch) (simp_all add: PeerConnection_forward_open)

lemma PeerConnection_forward_closed: "\<not> ch_open ch \<Longrightarrow> PeerConnection_forward i ch ms = ch"
  by (induction i ch ms rule: PeerConnection_forward.induct) (simp_all add: Channel_send_def)

lemma PeerConnection_reader_closed: "\<not> ch_open ch \<Longrightarrow> PeerConnection_reader i ch cs = ch"
  unfolding PeerConnection_reader_def by (induction cs) (simp_all add: PeerConnection_forward_closed)

lemma ClientConnection_forward_open:
  "ch_open ch \<Longrightarrow>
   ClientConnection_forward i ch ms = (ch\<lparr>ch_queue := ch_queue ch @ map (Pair i) (readable ms)\<rparr>, Inr ())"
  by (induction i ch ms rule: ClientConnection_forward.induct) (simp_all add: Channel_send_def)

lemma ClientConnection_reader_open:
  "ch_open ch \<Longrightarrow>
   ClientConnection_reader i ch cs = (ch\<lparr>ch_queue := ch_queue ch @ map (Pair i) (readable (concat cs))\<rparr>, Inr ())"
  by (induction i ch cs rule: ClientConnection_reader.induct) (simp_all add: ClientConnection_forward_open)

lemma ServerConnection_forward_open:
  "ch_open ch \<Longrightarrow> ServerConnection_forward ch ms = (ch\<lparr>ch_queue := ch_queue ch @ readable ms\<rparr>, Inr ())"
  by (induction ch ms rule: ServerConnection_forward.induct) (simp_all add: Channel_send_def)

lemma ServerConnection_reader_open:
  "ch_open ch \<Longrightarrow> ServerConnection_reader ch cs = (ch\<lparr>ch_queue := ch_queue ch @ readable (concat cs)\<rparr>, Inr ())"
  by (induction ch cs rule: ServerConnection_reader.induct) (simp_all add: ServerConnection_forward_open)

section \<open>The sink\<close>

text \<open>
  What the writers rely on: an accepted message is queued last in the sink, a rejected one not at all,
  the bytes that reach the other side are those of the accepted messages in order, and all of them
  after a successful \<open>flush\<close>.
\<close>

locale message_sink =
  fixes feed :: "'s \<Rightarrow> 'm \<Rightarrow> 's \<times> ('e + unit)"
    and flush :: "'s \<Rightarrow> 's \<times> ('e + unit)"
    and accepted :: "'s \<Rightarrow> 'm list"
    and delivered :: "'s \<Rightarrow> 'm list"
  assumes feed_ok: "feed s m = (s', Inr u) \<Longrightarrow> accepted s' = accepted s @ [m]"
    and feed_err: "feed s m = (s', Inl e) \<Longrightarrow> accepted s' = accepted s"
    and flush_accepted: "accepted (fst (flush s)) = accepted s"
    and flush_ok: "flush s = (s', Inr u) \<Longrightarrow> delivered s' = accepted s'"
    and delivered_prefix: "prefix (delivered s) (accepted s)"
begin

lemma feed_all_accepted:
  "feed_all feed s ms = (s', r) \<Longrightarrow>
   \<exists>k. accepted s' = accepted s @ take k ms \<and> (r = None \<longrightarrow> take k ms = ms)"
proof (induction ms arbitrary: s)
  case (Cons m ms)
  obtain s1 o1 where f: "feed s m = (s1, o1)" by fastforce
  show ?case
  proof (cases o1)
    case (Inl e)
    with Cons.prems f feed_err [of s m s1 e] show ?thesis by (intro exI [of _ 0]) auto
  next
    case (Inr u)
    with Cons.prems f have "feed_all feed s1 ms = (s', r)" by simp
    from Cons.IH [OF this] obtain k where
      "accepted s' = accepted s1 @ take k ms" "r = None \<longrightarrow> take k ms = ms" by blast
    with feed_ok [of s m s1 u] f Inr show ?thesis by (intro exI [of _ "Suc k"]) simp
  qed
qed simp

lemma feed_all_ok: "(\<And>s m. snd (feed s m) = Inr ()) \<Longrightarrow> snd (feed_all feed s ms) = None"
  by (induction ms arbitrary: s) (auto split: prod.split sum.split dest: arg_cong [of _ _ snd])

text \<open>A turn of the client writer keeps the sink and the queue together as the messages sent.\<close>

lemma client_writer_step:
  assumes "ClientConnection_writer feed flush batch (s, c) = (s', c')" and "conn_open c"
    and "accepted s @ conn_out c = sent"
  shows "prefix (accepted s') sent \<and> (conn_open c' \<longrightarrow> accepted s' @ conn_out c' = sent)"
proof (cases "batch = 0 \<or> conn_out c = []")
  case True
  with assms show ?thesis
    by (auto simp: ClientConnection_writer_def recv_many_def split: if_splits)
next
  case False
  obtain s1 r where f: "feed_all feed s (take batch (conn_out c)) = (s1, r)" by fastforce
  obtain k where k: "accepted s1 = accepted s @ take k (take batch (conn_out c))"
    "r = None \<longrightarrow> take k (take batch (conn_out c)) = take batch (conn_out c)"
    using feed_all_accepted [OF f] by blast
  obtain s2 o2 where fl: "flush s1 = (s2, o2)" by fastforce
  have acc2: "accepted s2 = accepted s1" using flush_accepted [of s1] fl by simp
  have p: "prefix (accepted s1) sent"
    unfolding k(1) assms(3) [symmetric] by (simp add: take_is_prefix)
  from False obtain x xs where b: "take batch (conn_out c) = x # xs" by (cases "conn_out c"; cases batch) auto
  have eq: "ClientConnection_writer feed flush batch (s, c) =
      (case r of Some _ \<Rightarrow> (s1, c\<lparr>conn_out := drop batch (conn_out c), conn_open := False\<rparr>)
       | None \<Rightarrow> (case o2 of Inl _ \<Rightarrow> (s2, c\<lparr>conn_out := drop batch (conn_out c), conn_open := False\<rparr>)
                  | Inr _ \<Rightarrow> (s2, c\<lparr>conn_out := drop batch (conn_out c)\<rparr>)))"
    using False assms(2) f fl b
    by (auto simp: ClientConnection_writer_def recv_many_def split: option.split sum.split)
  show ?thesis
  proof (cases r)
    case None
    then have "accepted s2 @ drop batch (conn_out c) = sent"
      using k acc2 assms(3) by simp
    with assms(1) None p acc2 show ?thesis by (auto simp: eq split: sum.splits)
  next
    case (Some e)
    with assms(1) p show ?thesis by (auto simp: eq)
  qed
qed

text \<open>A turn of the peer writer can only leave messages out.\<close>

lemma peer_writer_step:
  assumes "PeerConnection_writer feed flush batch (s, c) = (s', c')"
    and "subseq (accepted s @ conn_out c) sent"
  shows "subseq (accepted s' @ conn_out c') sent"
proof (cases "\<not> conn_open c \<or> batch = 0 \<or> conn_out c = []")
  case True
  with assms show ?thesis
    by (auto simp: PeerConnection_writer_def recv_many_def split: if_splits)
next
  case False
  obtain s1 r where f: "feed_all feed s (take batch (conn_out c)) = (s1, r)" by fastforce
  obtain k where k: "accepted s1 = accepted s @ take k (take batch (conn_out c))"
    using feed_all_accepted [OF f] by blast
  obtain s2 o2 where fl: "flush s1 = (s2, o2)" by fastforce
  have acc2: "accepted s2 = accepted s1" using flush_accepted [of s1] fl by simp
  have "subseq (take k (take batch (conn_out c)) @ drop batch (conn_out c))
      (take batch (conn_out c) @ drop batch (conn_out c))"
    by (rule list_emb_append_mono [OF prefix_imp_subseq [OF take_is_prefix] subseq_order.order_refl])
  then have "subseq (accepted s1 @ drop batch (conn_out c)) (accepted s @ conn_out c)"
    unfolding k append_assoc append_take_drop_id by (rule list_emb_append_mono [OF subseq_order.order_refl])
  from subseq_order.trans [OF this assms(2)] have sub: "subseq (accepted s2 @ drop batch (conn_out c)) sent"
    by (simp add: acc2)
  from False obtain x xs where b: "take batch (conn_out c) = x # xs" by (cases "conn_out c"; cases batch) auto
  have "s' = s2 \<and> conn_out c' = drop batch (conn_out c)"
    using False assms(1) f fl b
    by (auto simp: PeerConnection_writer_def recv_many_def split: sum.splits)
  with sub show ?thesis by simp
qed

text \<open>Without errors a turn moves a batch from the queue to the other side.\<close>

lemma peer_writer_progress:
  assumes "\<And>s m. snd (feed s m) = Inr ()" and "\<And>s. snd (flush s) = Inr ()"
    and "PeerConnection_writer feed flush batch (s, c) = (s', c')" and "conn_open c" and "0 < batch"
    and "conn_out c \<noteq> []"
  shows "conn_open c' \<and> conn_out c' = drop batch (conn_out c) \<and> delivered s' = accepted s' \<and>
    accepted s' = accepted s @ take batch (conn_out c)"
proof -
  obtain s1 r where f: "feed_all feed s (take batch (conn_out c)) = (s1, r)" by fastforce
  then have "r = None" using feed_all_ok [OF assms(1), of s "take batch (conn_out c)"] by simp
  then have acc1: "accepted s1 = accepted s @ take batch (conn_out c)"
    using feed_all_accepted [OF f] by auto
  obtain s2 where fl: "flush s1 = (s2, Inr ())" using assms(2) [of s1] by (cases "flush s1") simp
  from assms(5,6) obtain x xs where b: "take batch (conn_out c) = x # xs" by (cases "conn_out c"; cases batch) auto
  have "s' = s2 \<and> c' = c\<lparr>conn_out := drop batch (conn_out c)\<rparr>"
    using assms(3-6) f fl b by (auto simp: PeerConnection_writer_def recv_many_def)
  with acc1 flush_accepted [of s1] flush_ok [OF fl] fl assms(4) show ?thesis by simp
qed

lemma client_run:
  assumes "link_run (ClientConnection_writer feed flush batch) (s0, Connection_new i) es = ((s, c), sent)"
    and "accepted s0 = []"
  shows "prefix (accepted s) sent \<and> (conn_open c \<longrightarrow> accepted s @ conn_out c = sent)"
  using assms(1)
proof (induction es arbitrary: s c sent rule: rev_induct)
  case Nil
  with assms(2) show ?case by (auto simp: link_run_def Connection_new_def)
next
  case (snoc e es)
  obtain s1 c1 sent1 where r: "link_run (ClientConnection_writer feed flush batch) (s0, Connection_new i) es = ((s1, c1), sent1)"
    by (metis surj_pair)
  note ih = snoc.IH [OF r]
  have step: "link_step (ClientConnection_writer feed flush batch) ((s1, c1), sent1) e = ((s, c), sent)"
    using snoc.prems r by (simp add: link_run_snoc)
  show ?case
  proof (cases e)
    case (LinkSend m)
    with step ih show ?thesis by (auto simp: Connection_send_def split: if_splits)
  next
    case LinkWrite
    show ?thesis
    proof (cases "conn_open c1")
      case True
      have w: "ClientConnection_writer feed flush batch (s1, c1) = (s, c)" "sent = sent1"
        using step LinkWrite by simp_all
      from client_writer_step [OF w(1) True, of sent] ih True w(2) show ?thesis by simp
    next
      case False
      with step ih LinkWrite show ?thesis by (simp add: ClientConnection_writer_def)
    qed
  qed
qed

lemma peer_run:
  assumes "link_run (PeerConnection_writer feed flush batch) (s0, Connection_new i) es = ((s, c), sent)"
    and "accepted s0 = []"
  shows "subseq (accepted s @ conn_out c) sent"
  using assms(1)
proof (induction es arbitrary: s c sent rule: rev_induct)
  case Nil
  with assms(2) show ?case by (auto simp: link_run_def Connection_new_def)
next
  case (snoc e es)
  obtain s1 c1 sent1 where r: "link_run (PeerConnection_writer feed flush batch) (s0, Connection_new i) es = ((s1, c1), sent1)"
    by (metis surj_pair)
  note ih = snoc.IH [OF r]
  have step: "link_step (PeerConnection_writer feed flush batch) ((s1, c1), sent1) e = ((s, c), sent)"
    using snoc.prems r by (simp add: link_run_snoc)
  show ?case
  proof (cases e)
    case (LinkSend m)
    have "subseq ((accepted s1 @ conn_out c1) @ [m]) (sent1 @ [m])"
      by (rule list_emb_append_mono [OF ih subseq_order.order_refl])
    with LinkSend step ih show ?thesis by (auto simp: Connection_send_def split: if_splits)
  next
    case LinkWrite
    with step ih show ?thesis by (auto intro: peer_writer_step [of batch s1 c1])
  qed
qed

text \<open>As many turns as there are messages in the queue empty it.\<close>

lemma peer_writer_drains:
  assumes "\<And>s m. snd (feed s m) = Inr ()" and "\<And>s. snd (flush s) = Inr ()" and "0 < batch"
    and "conn_open c" and "delivered s = accepted s" and "length (conn_out c) \<le> n"
  shows "\<exists>s' c'. (PeerConnection_writer feed flush batch ^^ n) (s, c) = (s', c') \<and> conn_open c' \<and> conn_out c' = [] \<and>
    delivered s' = accepted s @ conn_out c"
  using assms(4-6)
proof (induction n arbitrary: s c)
  case (Suc n)
  show ?case
  proof (cases "conn_out c = []")
    case True
    then have "PeerConnection_writer feed flush batch (s, c) = (s, c)"
      using assms(3) by (simp add: PeerConnection_writer_def recv_many_def)
    with Suc.IH [of c s] Suc.prems True show ?thesis by (simp add: funpow_swap1)
  next
    case False
    obtain s1 c1 where w: "PeerConnection_writer feed flush batch (s, c) = (s1, c1)" by fastforce
    note p = peer_writer_progress [OF assms(1,2) w Suc.prems(1) assms(3) False]
    have "length (conn_out c1) \<le> n" using p Suc.prems(3) assms(3) by (auto simp: less_Suc_eq_le)
    from Suc.IH [OF _ _ this] p obtain s' c' where
      "(PeerConnection_writer feed flush batch ^^ n) (s1, c1) = (s', c')" "conn_open c'" "conn_out c' = []"
      "delivered s' = accepted s1 @ conn_out c1" by blast
    with w p show ?thesis by (simp add: funpow_Suc_right del: funpow.simps)
  qed
qed simp

end

section \<open>A framed socket\<close>

text \<open>
  A sink as the codec documents it: a frame above the maximal length is refused, the others are buffered
  and written by \<open>flush\<close>.
\<close>

record 'm Framed =
  fr_wire :: "'m list"
  fr_buffer :: "'m list"

definition framed_feed :: "('m \<Rightarrow> nat) \<Rightarrow> nat \<Rightarrow> 'm Framed \<Rightarrow> 'm \<Rightarrow> 'm Framed \<times> (string + unit)" where
  "framed_feed frame_length max_length s m =
     (if frame_length m \<le> max_length then (s\<lparr>fr_buffer := fr_buffer s @ [m]\<rparr>, Inr ())
      else (s, Inl ''frame size too big''))"

definition framed_flush :: "'m Framed \<Rightarrow> 'm Framed \<times> (string + unit)" where
  "framed_flush s = (s\<lparr>fr_wire := fr_wire s @ fr_buffer s, fr_buffer := []\<rparr>, Inr ())"

definition framed_accepted :: "'m Framed \<Rightarrow> 'm list" where
  "framed_accepted s = fr_wire s @ fr_buffer s"

interpretation framed: message_sink "framed_feed frame_length max_length" framed_flush framed_accepted fr_wire
  by unfold_locales (auto simp: framed_feed_def framed_flush_def framed_accepted_def split: if_splits)

abbreviation empty_frames :: "'m Framed" where
  "empty_frames \<equiv> \<lparr>fr_wire = [], fr_buffer = []\<rparr>"

section \<open>Properties of the connections\<close>



text \<open>
  A connection to a peer keeps the order of the messages, and nothing arrives twice, but there can be gaps.
\<close>

theorem peer_connection_keeps_order:
  assumes "message_sink feed flush accepted delivered" and "accepted s0 = []"
    and "link_run (PeerConnection_writer feed flush batch) (s0, Connection_new i) es = ((s, c), sent)"
    and "prefix ms (delivered s)" and "concat chunks = map Inr ms"
  shows "subseq (map snd (ch_queue (PeerConnection_reader i \<lparr>ch_open = True, ch_queue = []\<rparr> chunks))) sent"
proof -
  have "subseq (accepted s @ conn_out c) sent"
    by (rule message_sink.peer_run [OF assms(1,3,2)])
  moreover have "prefix ms (accepted s @ conn_out c)"
    using assms(4) message_sink.delivered_prefix [OF assms(1), of s] by (meson prefix_order.trans prefixI prefix_prefix)
  ultimately have "subseq ms sent" using subseq_order.trans prefix_imp_subseq by blast
  then show ?thesis by (simp add: PeerConnection_reader_open assms(5) o_def)
qed

text \<open>
  After a refused message the peer connection goes on with a gap: the rest of the batch is lost
  although its messages would have been accepted, later messages arrive, and no send reports a failure.
\<close>

theorem peer_connection_skips:
  assumes "0 < batch" and "length (too_long # lost) \<le> batch" and "max_length < frame_length too_long"
    and "frame_length m \<le> max_length"
  shows "\<exists>s c. link_run (PeerConnection_writer (framed_feed frame_length max_length) framed_flush batch)
     (empty_frames, Connection_new i) (map LinkSend (too_long # lost) @ [LinkWrite, LinkSend m, LinkWrite]) =
     ((s, c), too_long # lost @ [m]) \<and> fr_wire s = [m] \<and> conn_open c"
proof -
  let ?w = "PeerConnection_writer (framed_feed frame_length max_length) framed_flush batch"
  have sends: "foldl (link_step ?w) ((s, c), sent) (map LinkSend ms) = ((s, c\<lparr>conn_out := conn_out c @ ms\<rparr>), sent @ ms)"
    if "conn_open c" for s and c :: "'a Connection" and sent ms
    using that by (induction ms arbitrary: c sent) (simp_all add: Connection_send_def)
  show ?thesis
    unfolding link_run_def foldl_append
    using assms by (subst sends) (auto simp: Connection_new_def Connection_send_def PeerConnection_writer_def
      recv_many_def framed_feed_def framed_flush_def take_Cons' drop_Cons')
qed

theorem peer_connection_skips_witness:
  "\<exists>s c. link_run (PeerConnection_writer (framed_feed length 2) framed_flush 5) (empty_frames, Connection_new 1)
     [LinkSend ''abc'', LinkSend ''d'', LinkWrite, LinkSend ''e'', LinkWrite] = ((s, c), [''abc'', ''d'', ''e'']) \<and>
   fr_wire s = [''e''] \<and> conn_open c"
  using peer_connection_skips [of 5 "''abc''" "[''d'']" 2 length "''e''" 1] by simp

text \<open>Without failures everything sent arrives, after at most as many turns of the writer as there are messages.\<close>

theorem quiet_connection_delivers_all:
  assumes "message_sink feed flush accepted delivered" and "accepted s0 = []" and "delivered s0 = []"
    and "\<And>s m. snd (feed s m) = Inr ()" and "\<And>s. snd (flush s) = Inr ()" and "0 < batch"
    and "c = (Connection_new i)\<lparr>conn_out := ms\<rparr>" and "length ms \<le> n"
  shows "\<exists>s' c'. (PeerConnection_writer feed flush batch ^^ n) (s0, c) = (s', c') \<and> conn_open c' \<and> conn_out c' = [] \<and>
    delivered s' = ms"
proof -
  have "conn_open c" "length (conn_out c) \<le> n" "delivered s0 = accepted s0"
    using assms by (simp_all add: Connection_new_def)
  from message_sink.peer_writer_drains [OF assms(1,4,5,6) this(1,3,2)] assms(2,7) show ?thesis by simp
qed

section \<open>Properties of the connection attempts\<close>

lemma retry_unfold: "retry attempt k = (case attempt k of Inr x \<Rightarrow> Some x | Inl _ \<Rightarrow> retry attempt (k + 1))"
  by (subst retry.simps) simp

text \<open>The loop ends with the first success.\<close>

lemma retry_first_success:
  assumes "attempt n = Inr x" and "\<And>k. k0 \<le> k \<Longrightarrow> k < n \<Longrightarrow> \<exists>e. attempt k = Inl e" and "k0 \<le> n"
  shows "retry attempt k0 = Some x"
  using assms(2,3)
proof (induction "n - k0" arbitrary: k0)
  case 0
  with assms(1) show ?case by (subst retry_unfold) simp
next
  case (Suc d)
  then obtain e where "attempt k0 = Inl e" by force
  moreover have "retry attempt (k0 + 1) = Some x"
    using Suc by (intro Suc.hyps(1)) auto
  ultimately show ?case by (subst retry_unfold) simp
qed

lemma retry_succeeds:
  assumes "attempt n = Inr x"
  shows "\<exists>m y. m \<le> n \<and> attempt m = Inr y \<and> retry attempt 0 = Some y"
proof -
  define m where "m = (LEAST m. \<exists>y. attempt m = Inr y)"
  have m: "\<exists>y. attempt m = Inr y" unfolding m_def by (rule LeastI [of _ n]) (use assms in blast)
  then obtain y where y: "attempt m = Inr y" ..
  have "m \<le> n" unfolding m_def by (rule Least_le) (use assms in blast)
  moreover have "\<exists>e. attempt k = Inl e" if "k < m" for k
    using not_less_Least [OF that [unfolded m_def]] by (cases "attempt k") auto
  then have "retry attempt 0 = Some y" by (intro retry_first_success [where attempt = attempt and n = m and x = y, OF y]) auto
  ultimately show ?thesis using y by blast
qed

text \<open>
  The server knows all addresses once every name has resolved: the list it gets has the first address
  of the first successful answer for each node, in the order of the configuration.
\<close>

theorem get_addrs_complete:
  assumes "from_str (addr @ '':'' @ usize_to_string (unat port)) = Some l"
    and "\<And>a. a \<in> set names \<Longrightarrow> \<exists>n x xs. dns a n = Inr (x # xs)"
    and "\<And>a n. a \<in> set names \<Longrightarrow> dns a n \<noteq> Inr []"
  shows "\<exists>as. get_addrs from_str dns addr port names = Some (Inr (l, as)) \<and>
    list_all2 (\<lambda>a x. \<exists>n xs. dns a n = Inr (x # xs)) names as"
proof -
  have "\<exists>as. resolve_all dns names = Some (Inr as) \<and> list_all2 (\<lambda>a x. \<exists>n xs. dns a n = Inr (x # xs)) names as"
    using assms(2,3)
  proof (induction names)
    case (Cons a names)
    from Cons.IH Cons.prems obtain as where as: "resolve_all dns names = Some (Inr as)"
      "list_all2 (\<lambda>a x. \<exists>n xs. dns a n = Inr (x # xs)) names as" by force
    from Cons.prems(1) [of a] obtain n x xs where "dns a n = Inr (x # xs)" by auto
    from retry_succeeds [of "dns a", OF this] obtain m ys where
      m: "dns a m = Inr ys" "retry (dns a) 0 = Some ys" by blast
    with Cons.prems(2) [of a m] obtain y zs where "ys = y # zs" by (cases ys) auto
    with m as show ?case by (auto simp: resolve_def try_result_def)
  qed simp
  with assms(1) show ?thesis by (auto simp: get_addrs_def try_result_def)
qed

text \<open>Of two nodes exactly the one with the greater id connects to the other.\<close>

theorem one_connector_per_pair:
  assumes "(p, addr_p) \<in> set peers_q" and "(q, addr_q) \<in> set peers_p" and "p \<noteq> q"
  shows "((p, addr_p) \<in> set (peers_to_connect_to q peers_q)) \<noteq> ((q, addr_q) \<in> set (peers_to_connect_to p peers_p))"
  using assms by (auto simp: peers_to_connect_to_def)

section \<open>Properties of the server actor\<close>

definition actor_run ::
  "('s \<Rightarrow> RegistrationMessage \<Rightarrow> 's \<times> ('e + unit)) \<Rightarrow> ('s \<Rightarrow> ClientMessage \<Rightarrow> 's \<times> ('e + unit)) \<Rightarrow>
   's ServerActor \<Rightarrow> ('s, 'e) ActorEvent list \<Rightarrow> 's ServerActor" where
  "actor_run send_reg send a es = foldl (server_actor send_reg send) a es"

definition handler_messages :: "('s, 'e) ActorEvent list \<Rightarrow> ClientMessage list" where
  "handler_messages es = concat (map (\<lambda>e. case e of HandlerSends m \<Rightarrow> [m] | _ \<Rightarrow> []) es)"

definition server_messages :: "('s, 'e) ActorEvent list \<Rightarrow> ServerMessage list" where
  "server_messages es = concat (map (\<lambda>e. case e of ActorReceives (Inr m) \<Rightarrow> [m] | _ \<Rightarrow> []) es)"

definition ServerActor_new :: "'s ServerActor" where
  "ServerActor_new = \<lparr>sa_stream = None, server_receiver = [], client_sender = \<lparr>ch_open = True, ch_queue = []\<rparr>, writes = []\<rparr>"

lemma actor_step_queue:
  "map fst (writes (server_actor send_reg send a e)) @ server_receiver (server_actor send_reg send a e) =
   map fst (writes a) @ server_receiver a @ handler_messages [e]"
proof (cases e)
  case ActorSends
  then show ?thesis
    by (cases "sa_stream a"; cases "server_receiver a")
      (auto simp: handler_messages_def split: prod.split sum.split)
qed (auto simp: handler_messages_def split: prod.split sum.split)

lemma actor_step_channel:
  assumes "ch_open (client_sender a)"
  shows "ch_open (client_sender (server_actor send_reg send a e)) \<and>
    subseq (ch_queue (client_sender (server_actor send_reg send a e))) (ch_queue (client_sender a) @ server_messages [e])"
proof (cases e)
  case ActorSends
  then show ?thesis
    using assms by (cases "sa_stream a"; cases "server_receiver a")
      (auto simp: server_messages_def split: prod.split sum.split)
qed (use assms in \<open>auto simp: server_messages_def Channel_send_def split: prod.split sum.split\<close>)

lemma actor_run_inv:
  "map fst (writes (actor_run send_reg send ServerActor_new es)) @
     server_receiver (actor_run send_reg send ServerActor_new es) = handler_messages es \<and>
   ch_open (client_sender (actor_run send_reg send ServerActor_new es)) \<and>
   subseq (ch_queue (client_sender (actor_run send_reg send ServerActor_new es))) (server_messages es)"
proof (induction es rule: rev_induct)
  case Nil
  show ?case by (simp add: actor_run_def ServerActor_new_def handler_messages_def server_messages_def)
next
  case (snoc e es)
  let ?r = "actor_run send_reg send ServerActor_new"
  have r: "?r (es @ [e]) = server_actor send_reg send (?r es) e" by (simp add: actor_run_def)
  have m: "handler_messages (es @ [e]) = handler_messages es @ handler_messages [e]"
    "server_messages (es @ [e]) = server_messages es @ server_messages [e]"
    by (simp_all add: handler_messages_def server_messages_def)
  have "subseq (ch_queue (client_sender (?r es)) @ server_messages [e]) (server_messages es @ server_messages [e])"
    using snoc by (intro list_emb_append_mono) auto
  with snoc actor_step_queue [of send_reg send "?r es" e] actor_step_channel [of "?r es" send_reg send e]
  show ?case unfolding r m by (metis append_assoc subseq_order.trans)
qed


end
