(* ===== verification/Deployment.thy ===== *)
theory Deployment
  imports System Connections
begin

text \<open>
  Servers, their connections and the proxy. Each server sends its acknowledgements over a connection whose
  writer and socket may fail at any time; the server actor of the proxy reads what arrives and passes it to
  the handlers of the clients. Whatever happens on the way, the handlers see every acknowledgement at most
  once, so the situation is the one \<open>System\<close> starts from.
\<close>

definition link_delivers ::
  "('s \<Rightarrow> ServerMessage \<Rightarrow> 's \<times> ('e + unit)) \<Rightarrow> ('s \<Rightarrow> 's \<times> ('e + unit)) \<Rightarrow> ('s \<Rightarrow> ServerMessage list) \<Rightarrow> 's \<Rightarrow> usize \<Rightarrow>
   ServerMessage LinkEvent list \<Rightarrow> ServerMessage list \<Rightarrow> ServerMessage list \<Rightarrow> bool" where
  "link_delivers feed flush on_wire s0 batch es sent arrived \<longleftrightarrow>
     (\<exists>i s c. link_run (ClientConnection_writer feed flush batch) (s0, Connection_new i) es = ((s, c), sent) \<and>
        prefix arrived (on_wire s))"

definition actor_channel ::
  "('s \<Rightarrow> RegistrationMessage \<Rightarrow> 's \<times> ('e + unit)) \<Rightarrow> ('s \<Rightarrow> ClientMessage \<Rightarrow> 's \<times> ('e + unit)) \<Rightarrow>
   ('s, 'e) ActorEvent list \<Rightarrow> ServerMessage list" where
  "actor_channel send_reg send evs = ch_queue (client_sender (actor_run send_reg send ServerActor_new evs))"

lemma link_delivers_prefix:
  assumes "message_sink feed flush accepted on_wire" and "accepted s0 = []"
    and "link_delivers feed flush on_wire s0 batch es sent arrived"
  shows "prefix arrived sent"
proof -
  obtain i s c where r: "link_run (ClientConnection_writer feed flush batch) (s0, Connection_new i) es = ((s, c), sent)"
    "prefix arrived (on_wire s)"
    using assms(3) unfolding link_delivers_def by blast
  have "prefix (on_wire s) (accepted s)" by (rule message_sink.delivered_prefix [OF assms(1)])
  moreover have "prefix (accepted s) sent" using message_sink.client_run [OF assms(1) r(1) assms(2)] ..
  ultimately show ?thesis using r(2) prefix_order.trans by blast
qed

lemma subseq_mset: "subseq xs ys \<Longrightarrow> mset xs \<subseteq># mset ys"
proof (induction rule: list_emb.induct)
  case (list_emb_Cons xs ys y)
  then show ?case by (simp add: subset_mset.order_trans)
qed simp_all

lemma mset_concat_mono:
  "(\<And>i. i \<in> set is \<Longrightarrow> mset (f i) \<subseteq># mset (g i)) \<Longrightarrow> mset (concat (map f is)) \<subseteq># mset (concat (map g is))"
  by (induction "is") (auto intro: subset_mset.add_mono)


section \<open>An example\<close>

text \<open>
  The two acknowledgements of every server are written by one turn of the writer, except that the connection
  of the second server breaks after the first of its messages has been read.
\<close>

definition example_link :: "ServerMessage list \<Rightarrow> ServerMessage LinkEvent list" where
  "example_link ms = map LinkSend ms @ [LinkWrite]"

definition example_actor :: "ServerMessage list \<Rightarrow> (unit, unit) ActorEvent list" where
  "example_actor ms = ConnectResult (Inr ()) # map (\<lambda>m. ActorReceives (Inr m)) ms @ [ActorReceives (Inl ())]"

abbreviation example_sent :: "nat \<Rightarrow> ServerMessage list" where
  "example_sent i \<equiv> [[ServerAck cmd_b 3 (Some (Some None)) 1, ServerAck cmd_a 7 (Some None) 2],
      [ServerAck cmd_b 3 None 1, ServerAck cmd_a 7 None 2], []] ! i"

abbreviation example_read :: "nat \<Rightarrow> ServerMessage list" where
  "example_read i \<equiv> [[ServerAck cmd_b 3 (Some (Some None)) 1, ServerAck cmd_a 7 (Some None) 2],
      [ServerAck cmd_b 3 None 1], []] ! i"

lemma example_link_delivers:
  "link_delivers (framed_feed (\<lambda>_. 0) 0) framed_flush fr_wire empty_frames 100 (example_link [x, y]) [x, y] [x]"
  "link_delivers (framed_feed (\<lambda>_. 0) 0) framed_flush fr_wire empty_frames 100 (example_link [x, y]) [x, y] [x, y]"
  "link_delivers (framed_feed (\<lambda>_. 0) 0) framed_flush fr_wire empty_frames 100 (example_link []) [] []"
  by (simp_all add: link_delivers_def example_link_def link_run_def Connection_new_def Connection_send_def
      ClientConnection_writer_def recv_many_def framed_feed_def framed_flush_def)

lemma example_actor_reads:
  "server_messages (example_actor ms) = ms"
  "actor_channel (\<lambda>_ _. ((), Inr ())) (\<lambda>_ _. ((), Inr ())) (example_actor ms) = ms"
proof -
  show "server_messages (example_actor ms) = ms" by (simp add: server_messages_def example_actor_def o_def)
  have "ch_queue (client_sender (foldl (server_actor (\<lambda>_ _. ((), Inr ())) (\<lambda>_ _. ((), Inr ()))) a (map (\<lambda>m. ActorReceives (Inr m)) ms @ [ActorReceives (Inl ())]))) =
      ch_queue (client_sender a) @ ms"
    if "sa_stream a = Some ()" "ch_open (client_sender a)" for a :: "unit ServerActor"
    using that by (induction ms arbitrary: a) (simp_all add: Channel_send_def)
  then show "actor_channel (\<lambda>_ _. ((), Inr ())) (\<lambda>_ _. ((), Inr ())) (example_actor ms) = ms"
    by (simp add: actor_channel_def actor_run_def example_actor_def ServerActor_new_def)
qed


end
