(* ===== verification/Proxy_Handler.thy ===== *)
theory Proxy_Handler
  imports Proxy
begin

text \<open>
  The task of a client connection in \<^verbatim>\<open>src/proxy/proxy.rs\<close>, \<open>handle_client_requests\<close>, with its early returns:
  it ends when the client disconnects or sends something unreadable, and when a write to the client
  fails. The server actors never end, so the sends to them succeed.

  Shown: while its connection works the task does what \<open>Proxy\<close> says; when the connection breaks at an answer,
  the task ends between confirming the command and deleting its counter, and the next acknowledgement
  another task handles for that history confirms the command again.
\<close>

record HandlerState =
  hs_db :: PrDatabase
  hs_out :: ProxyOut
  hs_running :: bool

text \<open>
  A message read from the client (\<open>None\<close> at the end of the stream), or one received from the server with
  the outcome of the writes to the client it leads to.
\<close>

datatype HandlerEvent = FromClient "(unit + ClientMessage) option" | FromServer ServerMessage bool

definition write_client :: "bool \<Rightarrow> ServerMessage \<Rightarrow> HandlerState \<Rightarrow> HandlerState" where
  "write_client client_ok m h =
     (if client_ok then h\<lparr>hs_out := (hs_out h)\<lparr>to_client := to_client (hs_out h) @ [m]\<rparr>\<rparr>
      else h\<lparr>hs_running := False\<rparr>)"

definition handler_ack :: "bool \<Rightarrow> HandlerState \<Rightarrow> Command \<Rightarrow> u64 \<Rightarrow> Speculation \<Rightarrow> usize \<Rightarrow> HandlerState" where
  "handler_ack client_ok h cmd hash suspect last_idx =
     (let (d, res) = PrDatabase_handle_command (hs_db h) (PRGet hash);
          stored = (case res of Some r \<Rightarrow> r | None \<Rightarrow> None);
          cnt = next_count stored suspect;
          h = h\<lparr>hs_db := fst (PrDatabase_handle_command d (PRPut hash cnt))\<rparr>
      in if quorum (hs_db h) \<le> fst cnt \<and> snd cnt \<noteq> None then
           (let h = h\<lparr>hs_out := fan_out (ClientAck cmd last_idx) (hs_out h)\<rparr>;
                h = write_client client_ok (ServerAck cmd hash suspect last_idx) h
            in if hs_running h then h\<lparr>hs_db := fst (PrDatabase_handle_command (hs_db h) (PRDelete hash))\<rparr> else h)
         else h)"

fun handler_step :: "HandlerState \<Rightarrow> HandlerEvent \<Rightarrow> HandlerState" where
  "handler_step h (FromClient (Some (Inr m))) =
     (if hs_running h then h\<lparr>hs_out := handle_client_request (hs_out h) m\<rparr> else h)"
| "handler_step h (FromClient (Some (Inl e))) = h\<lparr>hs_running := False\<rparr>"
| "handler_step h (FromClient None) = h\<lparr>hs_running := False\<rparr>"
| "handler_step h (FromServer (ServerAck cmd hash suspect last_idx) client_ok) =
     (if hs_running h then handler_ack client_ok h cmd hash suspect last_idx else h)"
| "handler_step h (FromServer (StartSignal ts) client_ok) =
     (if hs_running h then write_client client_ok (StartSignal ts) h else h)"
| "handler_step h (FromServer _ client_ok) = h"

definition handler_run :: "HandlerState \<Rightarrow> HandlerEvent list \<Rightarrow> HandlerState" where
  "handler_run h es = foldl handler_step h es"

section \<open>Properties\<close>

lemma handler_ack_ok:
  "hs_running h \<Longrightarrow> handler_ack True h c hash s k =
     (case handle_ack (hs_db h, hs_out h) c hash s k of (d, out) \<Rightarrow> h\<lparr>hs_db := d, hs_out := out\<rparr>)"
  by (auto simp: handler_ack_def handle_ack_eq write_client_def Let_def fan_out_def)

text \<open>A task whose connection works handles the messages of its server like \<open>handle_server_responses\<close>.\<close>

theorem handler_refines_responses:
  assumes "hs_running h"
  shows "handler_run h (map (\<lambda>m. FromServer m True) ms) =
     (case handle_server_responses (hs_db h, hs_out h) ms of (d, out) \<Rightarrow> h\<lparr>hs_db := d, hs_out := out\<rparr>)"
  using assms
proof (induction ms arbitrary: h)
  case Nil
  then show ?case by (simp add: handler_run_def handle_server_responses_def)
next
  case (Cons m ms)
  have "handler_step h (FromServer m True) =
      (case handle_server_response (hs_db h, hs_out h) m of (d, out) \<Rightarrow> h\<lparr>hs_db := d, hs_out := out\<rparr>)"
    using Cons.prems by (cases m) (simp_all add: handler_ack_ok write_client_def)
  with Cons.IH [of "handler_step h (FromServer m True)"] Cons.prems show ?case
    by (simp add: handler_run_def handle_server_responses_def split: prod.split)
qed

text \<open>
  A client that is gone is confirmed twice. When the write of an answer fails, the command has been
  confirmed to the servers but its counter stays, with the speculation of the leader: the next
  acknowledgement for that history, handled by another task with the same counters, confirms the command
  to all servers again and answers its own client with it.
\<close>

theorem lost_client_confirms_again:
  assumes "hs_running h" and "pr_db (hs_db h) hash = Some (n, Some spec)" and "quorum (hs_db h) \<le> n + 1"
    and "n + 2 < usize_limit" and "hs_running h2" and "hs_db h2 = hs_db (handler_step h (FromServer (ServerAck cmd hash None k) False))"
  shows "to_client (hs_out (handler_step h (FromServer (ServerAck cmd hash None k) False))) = to_client (hs_out h) \<and>
    to_servers (hs_out (handler_step h (FromServer (ServerAck cmd hash None k) False))) =
      map (\<lambda>q. q @ [ClientAck cmd k]) (to_servers (hs_out h)) \<and>
    to_servers (hs_out (handler_step h2 (FromServer (ServerAck cmd hash None k) True))) =
      map (\<lambda>q. q @ [ClientAck cmd k]) (to_servers (hs_out h2)) \<and>
    to_client (hs_out (handler_step h2 (FromServer (ServerAck cmd hash None k) True))) =
      to_client (hs_out h2) @ [ServerAck cmd hash None k]"
  using assms
  by (simp add: handler_ack_def write_client_def next_count_def fan_out_def Let_def usize_add_exact)

definition lost_command :: Command where
  "lost_command = \<lparr>client_id = 1, coordinator_id = 1, cmd_id = 0, private_id = 0, deadline = 0, kv_cmd = Put ''x'' ''1''\<rparr>"

definition lost_client_state :: HandlerState where
  "lost_client_state =
     \<lparr>hs_db = \<lparr>pr_db = [7 \<mapsto> (1, Some None)], quorum = 2\<rparr>, hs_out = \<lparr>to_servers = [[], []], to_client = []\<rparr>, hs_running = True\<rparr>"

theorem lost_client_confirms_again_witness:
  "let h = handler_step lost_client_state (FromServer (ServerAck lost_command 7 None 3) False);
       h2 = handler_step (lost_client_state\<lparr>hs_db := hs_db h\<rparr>) (FromServer (ServerAck lost_command 7 None 3) True)
   in to_servers (hs_out h) = [[ClientAck lost_command 3], [ClientAck lost_command 3]] \<and>
      to_servers (hs_out h2) = [[ClientAck lost_command 3], [ClientAck lost_command 3]] \<and> to_client (hs_out h2) = [ServerAck lost_command 7 None 3]"
proof -
  have "hs_running lost_client_state" "pr_db (hs_db lost_client_state) 7 = Some (1, Some None)"
    "quorum (hs_db lost_client_state) \<le> 1 + 1" "1 + 2 < usize_limit"
    by (simp_all add: lost_client_state_def)
  from lost_client_confirms_again [OF this, of
      "lost_client_state\<lparr>hs_db := hs_db (handler_step lost_client_state (FromServer (ServerAck lost_command 7 None 3) False))\<rparr>" lost_command 3]
  show ?thesis by (simp only: Let_def) (simp add: lost_client_state_def)
qed

end
