(* ===== verification/Client.thy ===== *)
theory Client
  imports Network
begin

text \<open>
  \<^verbatim>\<open>src/client\<close>: the load generator. After the start signal it sends numbered requests at the rate
  of the current interval, records when each was sent and answered, and stops after the last
  interval.

  Time stamps and the random choice between reads and writes are inputs of the model; the
  floating-point read ratio only steers that choice and is left out, as are the output files.

  Shown: requests carry consecutive ids and distinct keys; the rate limits of an interval; and
  two flaws, that recording an answer discards the records of later requests, and that the
  client does not wait for outstanding answers.
\<close>

section \<open>Request intervals\<close>

record RequestInterval =
  duration_sec :: u64
  requests_per_sec :: u64

definition get_interval_duration :: "RequestInterval \<Rightarrow> Duration" where
  "get_interval_duration i = unat (duration_sec i) * 1000 * MILLIS"

definition get_request_delay :: "RequestInterval \<Rightarrow> (unit, Duration) result" where
  "get_request_delay i =
     (if requests_per_sec i = 0 then Inr (999999 * 1000 * MILLIS)
      else
        (let delay_ms = (1000 :: u64) div requests_per_sec i
         in if delay_ms \<noteq> 0 then Inr (unat delay_ms * MILLIS)
            else Inl (Panic ''assertion failed: delay_ms != 0'')))"

section \<open>Collected data\<close>

record RequestData =
  request_time :: Timestamp
  rd_write :: bool
  response_time :: "Timestamp option"

definition RequestData_default :: RequestData where
  "RequestData_default = \<lparr>request_time = 0, rd_write = False, response_time = None\<rparr>"

record ClientData =
  request_data :: "RequestData list"
  response_count :: usize

definition ClientData_new :: ClientData where
  "ClientData_new = \<lparr>request_data = [], response_count = 0\<rparr>"

definition new_request :: "Timestamp \<Rightarrow> ClientData \<Rightarrow> bool \<Rightarrow> ClientData" where
  "new_request now d is_write =
     d\<lparr>request_data := request_data d @ [\<lparr>request_time = now, rd_write = is_write, response_time = None\<rparr>]\<rparr>"

text \<open>\<open>Vec::resize\<close>.\<close>

definition vec_resize :: "nat \<Rightarrow> 'a \<Rightarrow> 'a list \<Rightarrow> 'a list" where
  "vec_resize n x xs = take n xs @ replicate (n - length xs) x"

lemma length_vec_resize [simp]: "length (vec_resize n x xs) = n"
  by (simp add: vec_resize_def)

definition new_response :: "Timestamp \<Rightarrow> ClientData \<Rightarrow> CommandId \<Rightarrow> ClientData" where
  "new_response now d c_id =
     (let rs = vec_resize (usize_add c_id 1) RequestData_default (request_data d)
      in d\<lparr>request_data := rs[c_id := (rs ! c_id)\<lparr>response_time := Some now\<rparr>],
           response_count := usize_add (response_count d) 1\<rparr>)"

definition request_count :: "ClientData \<Rightarrow> usize" where
  "request_count d = length (request_data d)"

section \<open>The connection to the server\<close>

record ClientNetwork =
  server_connections :: "ClientMessage Connection option list"

text \<open>
  \<open>initialize_connections\<close>, when all connection tasks have finished: \<open>joined\<close> is the outcome of the task of
  a server (\<open>get_server_connection\<close>), and the client panics when one of them did.
\<close>

fun ClientNetwork_initialize_connections ::
  "(NodeId \<Rightarrow> (unit, unit) result) \<Rightarrow> ClientNetwork \<Rightarrow> NodeId list \<Rightarrow> (unit, ClientNetwork) result" where
  "ClientNetwork_initialize_connections joined n [] = Inr n"
| "ClientNetwork_initialize_connections joined n (server # servers) =
     (case joined server of
        Inl _ \<Rightarrow> Inl (Panic ''Unable to establish connection to server'')
      | Inr _ \<Rightarrow>
          (if unat server < length (server_connections n)
           then ClientNetwork_initialize_connections joined
                  (n\<lparr>server_connections := (server_connections n)[unat server := Some (Connection_new server)]\<rparr>) servers
           else Inl (Panic ''index out of bounds'')))"

text \<open>One slot per possible server id up to the greatest.\<close>

definition ClientNetwork_new :: "(NodeId \<Rightarrow> (unit, unit) result) \<Rightarrow> NodeId list \<Rightarrow> (unit, ClientNetwork) result" where
  "ClientNetwork_new joined servers =
     try_result (unwrap ''called Option::unwrap() on a None value'' (iter_max (\<le>) servers)) (\<lambda>max_server_id.
       ClientNetwork_initialize_connections joined
         \<lparr>server_connections = replicate (usize_add (unat max_server_id) 1) None\<rparr> servers)"

definition ClientNetwork_send :: "ClientNetwork \<Rightarrow> NodeId \<Rightarrow> ClientMessage \<Rightarrow> ClientNetwork" where
  "ClientNetwork_send n to_id msg =
     (if unat to_id < length (server_connections n) then
        (case server_connections n ! unat to_id of
           Some connection \<Rightarrow>
             (case Connection_send connection msg of
                (c, Inr _) \<Rightarrow> n\<lparr>server_connections := (server_connections n)[unat to_id := Some c]\<rparr>
              | (c, Inl _) \<Rightarrow> n\<lparr>server_connections := (server_connections n)[unat to_id := None]\<rparr>)
         | None \<Rightarrow> n)
      else n)"

definition ClientNetwork_shutdown :: "ClientNetwork \<Rightarrow> ClientNetwork" where
  "ClientNetwork_shutdown n = n\<lparr>server_connections := replicate (length (server_connections n)) None\<rparr>"

section \<open>The client\<close>

record ClientConfig =
  cl_server_id :: NodeId
  requests :: "RequestInterval list"
  sync_time :: "Timestamp option"

record Client =
  cl_id :: ClientId
  cl_network :: ClientNetwork
  client_data :: ClientData
  cl_config :: ClientConfig
  active_server :: NodeId
  final_request_count :: "usize option"
  next_request_id :: usize

definition Client_new :: "(NodeId \<Rightarrow> (unit, unit) result) \<Rightarrow> ClientConfig \<Rightarrow> (unit, Client) result" where
  "Client_new joined c =
     try_result (ClientNetwork_new joined [cl_server_id c]) (\<lambda>n.
       Inr \<lparr>cl_id = cl_server_id c, cl_network = n, client_data = ClientData_new, cl_config = c,
            active_server = cl_server_id c, final_request_count = None, next_request_id = 0\<rparr>)"

text \<open>The milliseconds \<open>wait_until_sync_time\<close> sleeps for, and the configuration it records.\<close>

definition wait_until_sync_time :: "Timestamp \<Rightarrow> ClientConfig \<Rightarrow> Timestamp \<Rightarrow> ClientConfig \<times> nat" where
  "wait_until_sync_time now_ms c scheduled_start =
     (let milliseconds_until_sync = scheduled_start - now_ms
      in (c\<lparr>sync_time := Some milliseconds_until_sync\<rparr>, nat milliseconds_until_sync))"

definition handle_server_message :: "Timestamp \<Rightarrow> Client \<Rightarrow> ServerMessage \<Rightarrow> Client" where
  "handle_server_message now c msg =
     (case command_id msg of
        Inl _ \<Rightarrow> c
      | Inr c_id \<Rightarrow> c\<lparr>client_data := new_response now (client_data c) c_id\<rparr>)"

definition send_request :: "Timestamp \<Rightarrow> Client \<Rightarrow> bool \<Rightarrow> Client" where
  "send_request now c is_write =
     (let key = usize_to_string (next_request_id c);
          cmd = (if is_write then Put key key else Get key);
          request = Append (next_request_id c) cmd
      in c\<lparr>cl_network := ClientNetwork_send (cl_network c) (active_server c) request,
           client_data := new_request now (client_data c) is_write,
           next_request_id := usize_add (next_request_id c) 1\<rparr>)"

definition run_finished :: "Client \<Rightarrow> bool" where
  "run_finished c =
     (case final_request_count c of
        Some final \<Rightarrow> final \<le> request_count (client_data c)
      | None \<Rightarrow> False)"

text \<open>
  The branches of the main loop: a server message, a request tick (disabled once the final
  count is set), and the end of an interval, with the intervals still to come. The flag says
  that the loop ends.
\<close>

datatype ClientEvent =
    FromServer Timestamp ServerMessage
  | RequestTick Timestamp bool
  | NextInterval

fun client_step :: "Client \<times> RequestInterval list \<Rightarrow> ClientEvent \<Rightarrow> (Client \<times> RequestInterval list) \<times> bool" where
  "client_step (c, is) (FromServer now msg) =
     (let c = handle_server_message now c msg in ((c, is), run_finished c))"
| "client_step (c, is) (RequestTick now is_write) =
     (if final_request_count c = None then ((send_request now c is_write, is), False) else ((c, is), False))"
| "client_step (c, is) NextInterval =
     (case is of
        new_interval # rest \<Rightarrow> ((c, rest), False)
      | [] \<Rightarrow>
          (let c = c\<lparr>final_request_count := Some (request_count (client_data c))\<rparr>
           in ((c, []), run_finished c)))"

fun client_run :: "Client \<times> RequestInterval list \<Rightarrow> ClientEvent list \<Rightarrow> (Client \<times> RequestInterval list) \<times> bool" where
  "client_run s [] = (s, False)"
| "client_run s (e # es) =
     (case client_step s e of (s', finished) \<Rightarrow> if finished then (s', True) else client_run s' es)"

section \<open>Properties\<close>

text \<open>
  The rate of an interval: no requests per second means practically none, up to 1000 the
  delay is the whole number of milliseconds that fits, at least one and at most a second, and
  above 1000 the client panics.
\<close>

theorem request_delay_bounds:
  "get_request_delay i =
     (if requests_per_sec i = 0 then Inr (999999 * 1000 * MILLIS)
      else if unat (requests_per_sec i) \<le> 1000 then Inr (1000 div unat (requests_per_sec i) * MILLIS)
      else Inl (Panic ''assertion failed: delay_ms != 0'')) \<and>
   (0 < unat (requests_per_sec i) \<and> unat (requests_per_sec i) \<le> 1000 \<longrightarrow>
      MILLIS \<le> 1000 div unat (requests_per_sec i) * MILLIS \<and>
      1000 div unat (requests_per_sec i) * MILLIS \<le> 1000 * MILLIS)"
proof -
  let ?r = "requests_per_sec i"
  have d: "unat ((1000 :: u64) div ?r) = 1000 div unat ?r"
    by (simp add: unat_div)
  have "unat ?r \<noteq> 0 \<Longrightarrow> 1000 div unat ?r = 0 \<longleftrightarrow> 1000 < unat ?r"
    by (simp add: div_eq_0_iff)
  moreover have "?r = 0 \<longleftrightarrow> unat ?r = 0" by (simp add: unat_eq_zero)
  moreover have "(1000 :: u64) div ?r = 0 \<longleftrightarrow> 1000 div unat ?r = 0"
    using d by (metis unat_eq_zero)
  moreover have "1 \<le> 1000 div unat ?r" if "0 < unat ?r" "unat ?r \<le> 1000"
    using div_le_mono [OF that(2), of "unat ?r"] that(1) by simp
  ultimately show ?thesis
    using d by (auto simp: get_request_delay_def Let_def not_le)
qed

theorem request_delay_bounds_witness:
  "get_request_delay \<lparr>duration_sec = 1, requests_per_sec = 3\<rparr> = Inr (333 * MILLIS)"
  using request_delay_bounds [of "\<lparr>duration_sec = 1, requests_per_sec = 3\<rparr>"] by simp

text \<open>The messages queued for the active server.\<close>

definition sent_messages :: "Client \<Rightarrow> ClientMessage list" where
  "sent_messages c =
     (case server_connections (cl_network c) ! unat (active_server c) of Some k \<Rightarrow> conn_out k | None \<Rightarrow> [])"

definition connected :: "Client \<Rightarrow> bool" where
  "connected c \<longleftrightarrow> unat (active_server c) < length (server_connections (cl_network c)) \<and>
     (\<exists>k. server_connections (cl_network c) ! unat (active_server c) = Some k \<and> conn_open k)"

text \<open>The request with a given number.\<close>

definition numbered_request :: "nat \<Rightarrow> bool \<Rightarrow> ClientMessage" where
  "numbered_request k is_write =
     Append k (if is_write then Put (usize_to_string k) (usize_to_string k) else Get (usize_to_string k))"

lemma send_request_effect:
  assumes "connected c" and "next_request_id c + 1 < usize_limit"
  shows "connected (send_request now c w)" and "next_request_id (send_request now c w) = next_request_id c + 1"
    and "sent_messages (send_request now c w) = sent_messages c @ [numbered_request (next_request_id c) w]"
    and "request_count (client_data (send_request now c w)) = request_count (client_data c) + 1"
  using assms
  by (auto simp: connected_def send_request_def ClientNetwork_send_def Connection_send_def sent_messages_def
      numbered_request_def new_request_def request_count_def usize_add_exact Let_def split: if_splits)

definition send_requests :: "Client \<Rightarrow> (Timestamp \<times> bool) list \<Rightarrow> Client" where
  "send_requests c ws = foldl (\<lambda>c (now, w). send_request now c w) c ws"

text \<open>
  Requests are numbered without gaps: while the connection is open, the messages the client
  sends are the requests with the next consecutive ids, each on a key of its own (the decimal
  id), in the order they were issued.
\<close>

theorem requests_are_consecutive:
  assumes "connected c" and "next_request_id c + length ws < usize_limit"
  shows "sent_messages (send_requests c ws) = sent_messages c @
           map2 numbered_request [next_request_id c..<next_request_id c + length ws] (map snd ws) \<and>
         next_request_id (send_requests c ws) = next_request_id c + length ws \<and>
         distinct (map usize_to_string [next_request_id c..<next_request_id c + length ws])"
proof -
  have "sent_messages (send_requests c ws) = sent_messages c @
      map2 numbered_request [next_request_id c..<next_request_id c + length ws] (map snd ws) \<and>
      next_request_id (send_requests c ws) = next_request_id c + length ws"
    using assms
  proof (induction ws arbitrary: c)
    case Nil
    then show ?case by (simp add: send_requests_def)
  next
    case (Cons w ws)
    obtain now b where w: "w = (now, b)" by (cases w)
    have "next_request_id c + 1 < usize_limit" using Cons.prems(2) by simp
    note eff = send_request_effect [OF Cons.prems(1) this, of now b]
    have unroll: "send_requests c (w # ws) = send_requests (send_request now c b) ws"
      by (simp add: send_requests_def w)
    have "[next_request_id c..<next_request_id c + length (w # ws)] =
        next_request_id c # [next_request_id c + 1..<next_request_id c + 1 + length ws]"
      by (subst upt_conv_Cons) simp_all
    with Cons.IH [OF eff(1)] Cons.prems(2) eff unroll show ?case by (simp add: w)
  qed
  moreover have "distinct (map usize_to_string [next_request_id c..<next_request_id c + length ws])"
    by (simp add: distinct_map inj_on_def usize_to_string_inject)
  ultimately show ?thesis by simp
qed

text \<open>Once all connection tasks have succeeded, every configured server has its connection.\<close>

lemma initialize_connections_fills:
  assumes "\<forall>s\<in>set servers. joined s = Inr () \<and> unat s < length (server_connections n)"
  shows "\<exists>n'. ClientNetwork_initialize_connections joined n servers = Inr n' \<and>
    length (server_connections n') = length (server_connections n) \<and>
    (\<forall>k < length (server_connections n). server_connections n' ! k =
       (if k \<in> unat ` set servers then Some (Connection_new (of_nat k)) else server_connections n ! k))"
  using assms
proof (induction servers arbitrary: n)
  case (Cons s servers)
  let ?n = "n\<lparr>server_connections := (server_connections n)[unat s := Some (Connection_new s)]\<rparr>"
  have "\<forall>s\<in>set servers. joined s = Inr () \<and> unat s < length (server_connections ?n)" using Cons.prems by simp
  from Cons.IH [OF this] Cons.prems show ?case by (auto simp: nth_list_update)
qed simp

theorem client_connects_all:
  assumes "\<forall>s\<in>set servers. joined s = Inr () \<and> unat s + 1 < usize_limit" and "servers \<noteq> []"
  shows "\<exists>n. ClientNetwork_new joined servers = Inr n \<and>
    (\<forall>s\<in>set servers. unat s < length (server_connections n) \<and> server_connections n ! unat s = Some (Connection_new s))"
proof -
  obtain m where m: "iter_max (\<le>) servers = Some m" using assms(2) by (cases "iter_max (\<le>) servers") auto
  have le: "s \<le> m" if "s \<in> set servers" for s
    using m that by (rule iter_max_ge) (auto intro: order_trans)
  have "usize_add (unat m) 1 = unat m + 1"
    using assms(1) iter_max_in [OF m] by (intro usize_add_exact) blast
  with le have slots: "unat s < length (server_connections \<lparr>server_connections = replicate (usize_add (unat m) 1) None\<rparr>)"
    if "s \<in> set servers" for s
    using that by (simp add: word_le_nat_alt less_Suc_eq_le)
  with initialize_connections_fills [of servers joined "\<lparr>server_connections = replicate (usize_add (unat m) 1) None\<rparr>"] assms(1)
  obtain n where "ClientNetwork_initialize_connections joined \<lparr>server_connections = replicate (usize_add (unat m) 1) None\<rparr> servers = Inr n"
    "\<forall>s\<in>set servers. unat s < length (server_connections n) \<and> server_connections n ! unat s = Some (Connection_new s)"
    by auto
  with m show ?thesis by (simp add: ClientNetwork_new_def)
qed

definition example_client :: Client where
  "example_client = projr (Client_new (\<lambda>_. Inr ()) \<lparr>cl_server_id = 1, requests = [\<lparr>duration_sec = 1, requests_per_sec = 10\<rparr>],
     sync_time = None\<rparr>)"

lemma example_client_connected: "connected example_client" "next_request_id example_client = 0"
    "sent_messages example_client = []"
  by (simp_all add: example_client_def Client_new_def ClientNetwork_new_def connected_def Connection_new_def
      sent_messages_def usize_add_def)

theorem requests_are_consecutive_witness:
  "sent_messages (send_requests example_client [(0, True), (5, False)]) =
     [Append 0 (Put ''0'' ''0''), Append 1 (Get ''1'')]"
proof -
  have "next_request_id example_client + length [(0, True), (5 :: int, False)] < usize_limit"
    by (simp add: example_client_connected)
  moreover have "char_of (48 :: nat) = CHR ''0''" "char_of (49 :: nat) = CHR ''1''"
    by code_simp+
  ultimately show ?thesis
    using requests_are_consecutive [OF example_client_connected(1), of "[(0, True), (5, False)]"]
    by (simp add: example_client_connected numbered_request_def upt_rec usize_to_string.simps digit_char_def)
qed

text \<open>
  Recording an answer truncates the records: after an answer to request \<open>i\<close> the client has
  records of requests 0 to \<open>i\<close> only, and the records of all later requests, already sent, are
  gone. Answers in order of the requests lose nothing only when none is outstanding.
\<close>

theorem response_truncates_records:
  assumes "c_id + 1 < usize_limit" and "c_id < length (request_data d)"
  shows "request_data (new_response now d c_id) =
           take c_id (request_data d) @ [(request_data d ! c_id)\<lparr>response_time := Some now\<rparr>]"
  using assms
  by (simp add: new_response_def vec_resize_def usize_add_exact Let_def take_Suc_conv_app_nth list_update_append
      nth_append)

theorem response_truncates_records_witness:
  "length (request_data (new_response 9 (new_request 2 (new_request 1 (new_request 0 ClientData_new True) True) True) 0)) = 1"
  using response_truncates_records [of 0 "new_request 2 (new_request 1 (new_request 0 ClientData_new True) True) True" 9]
  by (simp add: new_request_def ClientData_new_def)

text \<open>
  The client does not wait for answers: when the last interval ends it stops at once,
  whatever number of requests is still unanswered, because the final count is compared with
  the number of requests recorded and not with the number of answers.
\<close>

theorem client_stops_without_answers:
  "snd (client_step (c, []) NextInterval) \<and>
   client_data (fst (fst (client_step (c, []) NextInterval))) = client_data c"
  by (simp add: run_finished_def Let_def)

end
