(* ===== verification/Config_Files.thy ===== *)
theory Config_Files
  imports Server Proxy Client
begin

text \<open>
  How the three programs find their configuration (\<open>new\<close> in \<^verbatim>\<open>src/server/configs.rs\<close>, \<^verbatim>\<open>src/proxy/configs.rs\<close>
  and \<^verbatim>\<open>src/client/configs.rs\<close>): environment variables name the files, and the settings of the files and
  of the environment are layered. The \<^verbatim>\<open>config\<close> crate is a parameter: \<open>build\<close> puts the sources together and
  \<open>try_deserialize\<close> reads the result; its documented behaviour, that later sources override earlier
  ones, is a hypothesis of the theorem that uses it.

  Shown: a program panics exactly when a variable is not set, and in the settings of the server the
  environment overrides the cluster file, which overrides the server's own file.
\<close>

text \<open>A file, or the environment variables with a prefix, of which some keys are lists.\<close>

datatype Source = FileSource string | EnvironmentSource string "string list"

definition load ::
  "(Source list \<Rightarrow> 'e + 'raw) \<Rightarrow> ('raw \<Rightarrow> 'e + 'c) \<Rightarrow> Source list \<Rightarrow> ('e, 'c) result" where
  "load build try_deserialize sources =
     (case build sources of
        Inl e \<Rightarrow> Inl (Err e)
      | Inr raw \<Rightarrow> (case try_deserialize raw of Inl e \<Rightarrow> Inl (Err e) | Inr c \<Rightarrow> Inr c))"

definition OmniPaxosKVConfig_new ::
  "(string \<Rightarrow> string option) \<Rightarrow> (Source list \<Rightarrow> 'e + 'raw) \<Rightarrow> ('raw \<Rightarrow> 'e + OmniPaxosKVConfig) \<Rightarrow> ('e, OmniPaxosKVConfig) result" where
  "OmniPaxosKVConfig_new var build try_deserialize =
     (case var ''SERVER_CONFIG_FILE'' of
        None \<Rightarrow> Inl (Panic ''Requires SERVER_CONFIG_FILE environment variable to be set'')
      | Some local_config_file \<Rightarrow>
          (case var ''CLUSTER_CONFIG_FILE'' of
             None \<Rightarrow> Inl (Panic ''Requires CLUSTER_CONFIG_FILE environment variable to be set'')
           | Some cluster_config_file \<Rightarrow>
               load build try_deserialize
                 [FileSource local_config_file, FileSource cluster_config_file, EnvironmentSource ''OMNIPAXOS'' [''node_addrs'']]))"

definition ProxyConfig_new ::
  "(string \<Rightarrow> string option) \<Rightarrow> (Source list \<Rightarrow> 'e + 'raw) \<Rightarrow> ('raw \<Rightarrow> 'e + ProxyConfig) \<Rightarrow> ('e, ProxyConfig) result" where
  "ProxyConfig_new var build try_deserialize =
     (case var ''PROXY_CONFIG_FILE'' of
        None \<Rightarrow> Inl (Panic ''Proxy requires the PROXY_CONFIG_FILE to be set'')
      | Some local_config_file \<Rightarrow> load build try_deserialize [FileSource local_config_file])"

definition ClientConfig_new ::
  "(string \<Rightarrow> string option) \<Rightarrow> (Source list \<Rightarrow> 'e + 'raw) \<Rightarrow> ('raw \<Rightarrow> 'e + ClientConfig) \<Rightarrow> ('e, ClientConfig) result" where
  "ClientConfig_new var build try_deserialize =
     (case var ''CONFIG_FILE'' of
        None \<Rightarrow> Inl (Panic ''Requires CONFIG_FILE environment variable to be set'')
      | Some config_file \<Rightarrow> load build try_deserialize [FileSource config_file, EnvironmentSource ''OMNIPAXOS'' []])"

text \<open>The default values of the fields of \<open>ClockConfig\<close> that a file leaves out.\<close>

definition default_clock_uncertainty_us :: u64 where
  "default_clock_uncertainty_us = 10"

definition default_clock_sync_interval_ms :: u32 where
  "default_clock_sync_interval_ms = 1"

text \<open>They are the values the server falls back to without a clock configuration.\<close>

lemma clock_defaults_agree:
  "clock_from_config next_id now sid None =
     clock_from_config next_id now sid (Some \<lparr>clock_uncertainty_us = default_clock_uncertainty_us,
       clock_sync_interval_ms = default_clock_sync_interval_ms\<rparr>)"
  by (simp add: clock_from_config_def default_clock_uncertainty_us_def default_clock_sync_interval_ms_def)

lemma load_no_panic: "load build try_deserialize sources \<noteq> Inl (Panic m)"
  by (simp add: load_def split: sum.split)

theorem config_panics_iff:
  "(\<exists>m. OmniPaxosKVConfig_new var build de = Inl (Panic m)) \<longleftrightarrow>
     var ''SERVER_CONFIG_FILE'' = None \<or> var ''CLUSTER_CONFIG_FILE'' = None"
  "(\<exists>m. ProxyConfig_new var build' de' = Inl (Panic m)) \<longleftrightarrow> var ''PROXY_CONFIG_FILE'' = None"
  "(\<exists>m. ClientConfig_new var build'' de'' = Inl (Panic m)) \<longleftrightarrow> var ''CONFIG_FILE'' = None"
  by (auto simp: OmniPaxosKVConfig_new_def ProxyConfig_new_def ClientConfig_new_def load_no_panic split: option.split)

theorem server_settings_layered:
  fixes settings :: "Source \<Rightarrow> string \<rightharpoonup> 'v"
  assumes layers: "\<And>sources. build sources = Inr (foldl (++) Map.empty (map settings sources))"
    and "var ''SERVER_CONFIG_FILE'' = Some f" and "var ''CLUSTER_CONFIG_FILE'' = Some g"
    and "de raw = Inr c" and "raw = (\<lambda>key. case settings (EnvironmentSource ''OMNIPAXOS'' [''node_addrs'']) key of
       Some v \<Rightarrow> Some v
     | None \<Rightarrow> (case settings (FileSource g) key of Some v \<Rightarrow> Some v | None \<Rightarrow> settings (FileSource f) key))"
  shows "OmniPaxosKVConfig_new var build de = Inr c"
proof -
  have "settings (FileSource f) ++ settings (FileSource g) ++ settings (EnvironmentSource ''OMNIPAXOS'' [''node_addrs'']) = raw"
    unfolding assms(5) by (auto simp: map_add_def fun_eq_iff split: option.split)
  with assms(2-4) show ?thesis by (simp add: OmniPaxosKVConfig_new_def load_def layers)
qed

end
