(* ===== verification/Dashboard.thy ===== *)
theory Dashboard
  imports Messages Config
begin

text \<open>
  \<^verbatim>\<open>omnipaxos_ui\<close>: the state behind the terminal dashboard (\<^verbatim>\<open>app.rs\<close>, \<^verbatim>\<open>lib.rs\<close>, \<^verbatim>\<open>util.rs\<close>), the states of
  OmniPaxos it is fed with (\<^verbatim>\<open>omnipaxos/src/utils/ui.rs\<close>), and the content of its tables (\<^verbatim>\<open>render.rs\<close>).
  The terminal and the layout of widgets are left out: what is drawn is the list of the states that were
  rendered. Floating point is a parameter.

  Shown: a dashboard keeps its shape and its tables always find their indexes; a tick with the states
  of a cluster that fit the configuration does not panic and shows them; but the role and the progress
  it shows are those of the leader of the tick before.
\<close>

section \<open>States of OmniPaxos\<close>

record ClusterState =
  accepted_indexes :: "usize list"
  cs_heartbeats :: "HeartbeatReply list"

text \<open>The conversion from the state of a leader is not implemented.\<close>

definition ClusterState_from :: "LeaderState \<Rightarrow> (unit, ClusterState) result" where
  "ClusterState_from leader_state = Inl (Panic ''internal error: entered unreachable code'')"

record OmniPaxosStates =
  st_current_ballot :: Ballot
  st_current_leader :: "NodeId option"
  st_decided_idx :: usize
  st_heartbeats :: "HeartbeatReply list"
  cluster_state :: ClusterState

section \<open>The application\<close>

record UIAppConfig =
  ui_config_pid :: NodeId
  ui_config_peers :: "NodeId list"

definition UIAppConfig_from :: "OmniPaxosConfig \<Rightarrow> UIAppConfig" where
  "UIAppConfig_from config =
     (let pid = sc_pid (server_config config);
          peers = filter (\<lambda>x. x \<noteq> pid) (cc_nodes (cluster_config config))
      in \<lparr>ui_config_pid = pid, ui_config_peers = peers\<rparr>)"

datatype Color = Reset | Green | Blue | Red | Cyan | Magenta | Yellow | LightYellow | LightRed | White | Indexed nat

definition ORANGE :: Color where
  "ORANGE = Indexed 208"

definition PINK :: Color where
  "PINK = Indexed 211"

definition COLORS :: "Color list" where
  "COLORS = [Green, Blue, Red, ORANGE, Cyan, Magenta, Yellow, PINK]"

record UINode =
  un_pid :: NodeId
  un_ballot_number :: u32
  un_leader :: NodeId
  un_color :: Color
  un_connected :: bool

text \<open>\<open>#[derive(Default)]\<close>.\<close>

definition UINode_default :: UINode where
  "UINode_default = \<lparr>un_pid = 0, un_ballot_number = 0, un_leader = 0, un_color = Reset, un_connected = False\<rparr>"

definition UINode_from :: "Ballot \<Rightarrow> UINode" where
  "UINode_from ballot = UINode_default\<lparr>un_pid := b_pid ballot, un_ballot_number := b_n ballot\<rparr>"

text \<open>\<open>PartialEq\<close> compares only two fields.\<close>

definition UINode_eq :: "UINode \<Rightarrow> UINode \<Rightarrow> bool" where
  "UINode_eq a b \<longleftrightarrow> un_pid a = un_pid b \<and> un_ballot_number a = un_ballot_number b"

datatype UIRole = UIFollower | UILeader

text \<open>The floating-point operations of the dashboard: \<open>0.0\<close>, a quotient of counters, a rate over a period.\<close>

record 'f F64 =
  f_zero :: 'f
  f_ratio :: "usize \<Rightarrow> usize \<Rightarrow> 'f"
  f_rate :: "usize \<Rightarrow> Duration \<Rightarrow> 'f"

record 'f App =
  current_node :: UINode
  app_leader :: "NodeId option"
  leader_color :: Color
  current_role :: UIRole
  app_decided_idx :: usize
  ui_nodes :: "UINode list"
  active_peers :: "UINode list"
  last_update_time :: Duration
  throughput_data :: "(string \<times> usize) list"
  dps :: 'f
  followers_progress :: "'f list"
  followers_accepted_idx :: "usize list"

text \<open>
  \<open>with\<close>: the nodes are sorted and coloured by their position. The closure that builds them assigns the
  colour of the own node as a side effect.
\<close>

definition coloured_nodes :: "NodeId list \<Rightarrow> UINode list" where
  "coloured_nodes peers =
     map (\<lambda>(idx, pid). UINode_default\<lparr>un_pid := pid, un_color := COLORS ! (idx mod length COLORS)\<rparr>)
       (enumerate 0 peers)"

definition own_color :: "NodeId \<Rightarrow> UINode list \<Rightarrow> Color" where
  "own_color pid ns = foldl (\<lambda>c n. if un_pid n = pid then un_color n else c) Reset ns"

definition App_with :: "'f F64 \<Rightarrow> Duration \<Rightarrow> UIAppConfig \<Rightarrow> (unit, 'f App) result" where
  "App_with f now config =
     try_result (unwrap ''called Option::unwrap() on a None value'' (iter_max (\<le>) (ui_config_peers config)))
       (\<lambda>max_peer_pid.
          let max_pid = unat (max max_peer_pid (ui_config_pid config));
              peers = sort (ui_config_peers config @ [ui_config_pid config]);
              nodes = coloured_nodes peers
          in Inr \<lparr>current_node = UINode_default\<lparr>un_pid := ui_config_pid config,
                                   un_color := own_color (ui_config_pid config) nodes\<rparr>,
                  app_leader = None, leader_color = Reset, current_role = UIFollower, app_decided_idx = 0,
                  ui_nodes = nodes, active_peers = filter (\<lambda>x. un_pid x \<noteq> ui_config_pid config) nodes,
                  last_update_time = now, throughput_data = [], dps = f_zero f,
                  followers_progress = replicate (usize_add max_pid 1) (f_zero f),
                  followers_accepted_idx = replicate (usize_add max_pid 1) 0\<rparr>)"

definition App_set_decided_idx :: "'f F64 \<Rightarrow> Duration \<Rightarrow> 'f App \<Rightarrow> usize \<Rightarrow> 'f App" where
  "App_set_decided_idx f now app decided =
     (let period = now - last_update_time app;
          throughput = usize_sub decided (app_decided_idx app)
      in app\<lparr>throughput_data := (usize_to_string throughput, throughput) # throughput_data app,
             dps := f_rate f throughput period, last_update_time := now, app_decided_idx := decided\<rparr>)"

section \<open>The user interface\<close>

record 'f OmniPaxosUI =
  ui_app :: "'f App"
  ui_started :: bool
  drawn :: "'f App list"

datatype KeyCode = Esc | Char char | OtherKey

definition OmniPaxosUI_with :: "'f F64 \<Rightarrow> Duration \<Rightarrow> UIAppConfig \<Rightarrow> (unit, 'f OmniPaxosUI) result" where
  "OmniPaxosUI_with f now config =
     try_result (App_with f now config) (\<lambda>app. Inr \<lparr>ui_app = app, ui_started = False, drawn = []\<rparr>)"

definition OmniPaxosUI_stop :: "'f OmniPaxosUI \<Rightarrow> 'f OmniPaxosUI" where
  "OmniPaxosUI_stop ui = (if ui_started ui then ui\<lparr>ui_started := False\<rparr> else ui)"

definition update_ui :: "KeyCode option \<Rightarrow> 'f OmniPaxosUI \<Rightarrow> 'f OmniPaxosUI" where
  "update_ui key ui =
     (let ui = (case key of
            Some Esc \<Rightarrow> OmniPaxosUI_stop ui
          | Some (Char c) \<Rightarrow> (if c = CHR ''q'' then OmniPaxosUI_stop ui else ui)
          | _ \<Rightarrow> ui)
      in if ui_started ui then ui\<lparr>drawn := drawn ui @ [ui_app ui]\<rparr> else ui)"

definition OmniPaxosUI_start :: "KeyCode option \<Rightarrow> 'f OmniPaxosUI \<Rightarrow> 'f OmniPaxosUI" where
  "OmniPaxosUI_start key ui =
     (if \<not> ui_started ui then (update_ui key ui)\<lparr>ui_started := True\<rparr> else ui)"

text \<open>The loop of \<open>update_progress\<close> from index \<open>idx\<close> on.\<close>

fun set_progress :: "'f F64 \<Rightarrow> usize \<Rightarrow> usize \<Rightarrow> usize list \<Rightarrow> 'f App \<Rightarrow> (unit, 'f App) result" where
  "set_progress f leader_acc_idx idx [] app = Inr app"
| "set_progress f leader_acc_idx idx (acc # rest) app =
     (if idx < length (followers_progress app) \<and> idx < length (followers_accepted_idx app)
      then set_progress f leader_acc_idx (idx + 1) rest
             (app\<lparr>followers_progress := (followers_progress app)
                     [idx := if leader_acc_idx = 0 then f_zero f else f_ratio f acc leader_acc_idx],
                  followers_accepted_idx := (followers_accepted_idx app)[idx := acc]\<rparr>)
      else Inl (Panic ''index out of bounds''))"

definition update_progress :: "'f F64 \<Rightarrow> OmniPaxosStates \<Rightarrow> 'f App \<Rightarrow> (unit, 'f App) result" where
  "update_progress f st app =
     (case app_leader app of
        None \<Rightarrow> Inr app
      | Some leader_id \<Rightarrow>
          (if leader_id = un_pid (current_node app) then
             (let app = app\<lparr>current_role := UILeader\<rparr>;
                  indexes = accepted_indexes (cluster_state st)
              in if unat leader_id < length indexes
                 then set_progress f (indexes ! unat leader_id) 0 indexes app
                 else Inl (Panic ''index out of bounds''))
           else Inr (app\<lparr>current_role := UIFollower\<rparr>)))"

definition update_active_peers :: "OmniPaxosStates \<Rightarrow> 'f App \<Rightarrow> 'f App" where
  "update_active_peers st app = app\<lparr>active_peers := map (\<lambda>node.
     case find (\<lambda>x. b_pid (rep_ballot x) = un_pid node) (cs_heartbeats (cluster_state st)) of
       Some heartbeat \<Rightarrow> node\<lparr>un_ballot_number := b_n (rep_ballot heartbeat),
                               un_leader := b_pid (rep_leader heartbeat), un_connected := True\<rparr>
     | None \<Rightarrow> node\<lparr>un_connected := False\<rparr>) (active_peers app)\<rparr>"

definition ui_update_leader :: "OmniPaxosStates \<Rightarrow> 'f App \<Rightarrow> (unit, 'f App) result" where
  "ui_update_leader st app =
     (let app = app\<lparr>app_leader := st_current_leader st\<rparr>
      in case app_leader app of
           None \<Rightarrow> Inr (app\<lparr>leader_color := Reset\<rparr>)
         | Some leader_id \<Rightarrow>
             (if leader_id = un_pid (current_node app)
              then Inr (app\<lparr>leader_color := un_color (current_node app)\<rparr>)
              else try_result (unwrap ''called Option::unwrap() on a None value''
                                 (find (\<lambda>x. un_pid x = leader_id) (ui_nodes app)))
                     (\<lambda>leader. Inr (app\<lparr>leader_color := un_color leader\<rparr>))))"

definition OmniPaxosUI_tick ::
  "'f F64 \<Rightarrow> Duration \<Rightarrow> KeyCode option \<Rightarrow> OmniPaxosStates \<Rightarrow> 'f OmniPaxosUI \<Rightarrow> (unit, 'f OmniPaxosUI) result" where
  "OmniPaxosUI_tick f now key st ui =
     (if ui_started ui then
        (let app = ui_app ui;
             app = app\<lparr>current_node := (current_node app)\<lparr>un_ballot_number := b_n (st_current_ballot st)\<rparr>\<rparr>;
             app = App_set_decided_idx f now app (st_decided_idx st)
         in try_result (update_progress f st app) (\<lambda>app.
              try_result (ui_update_leader st (update_active_peers st app)) (\<lambda>app.
                Inr (update_ui key (ui\<lparr>ui_app := app\<rparr>)))))
      else Inr ui)"

section \<open>Tables\<close>

text \<open>A cell is text or a single Unicode symbol.\<close>

datatype Cell = Text string | Symbol nat

definition get_connected_symbol :: "bool \<Rightarrow> Cell" where
  "get_connected_symbol connected = (if connected then Symbol 0x2705 else Symbol 0x274C)"

definition get_ballot_and_leader_string :: "bool \<Rightarrow> u32 \<Rightarrow> u64 \<Rightarrow> Cell \<times> Cell" where
  "get_ballot_and_leader_string connected ballot leader =
     (if connected then (Text (usize_to_string (unat ballot)), Text (usize_to_string (unat leader)))
      else (Symbol 0x2753, Symbol 0x2753))"

definition follower_row :: "UINode \<Rightarrow> Cell list" where
  "follower_row peer =
     (case get_ballot_and_leader_string (un_connected peer) (un_ballot_number peer) (un_leader peer) of
        (ballot, leader) \<Rightarrow>
          [Text ('' '' @ usize_to_string (unat (un_pid peer)) @ '' ''),
           get_connected_symbol (un_connected peer), ballot, leader])"

definition draw_follower_table :: "'f App \<Rightarrow> Cell list list" where
  "draw_follower_table app = map follower_row (active_peers app)"

definition leader_row :: "'f App \<Rightarrow> UINode \<Rightarrow> (unit, Cell list) result" where
  "leader_row app peer =
     (if unat (un_pid peer) < length (followers_accepted_idx app)
      then Inr (follower_row peer @ [Text (usize_to_string (followers_accepted_idx app ! unat (un_pid peer)))])
      else Inl (Panic ''index out of bounds''))"

fun leader_rows :: "'f App \<Rightarrow> UINode list \<Rightarrow> (unit, Cell list list) result" where
  "leader_rows app [] = Inr []"
| "leader_rows app (peer # peers) =
     try_result (leader_row app peer) (\<lambda>row. try_result (leader_rows app peers) (\<lambda>rows. Inr (row # rows)))"

definition draw_leader_table :: "'f App \<Rightarrow> (unit, Cell list list) result" where
  "draw_leader_table app = leader_rows app (active_peers app)"

text \<open>The bars of the throughput chart: as many as fit, and no label for an empty one.\<close>

definition UI_BARCHART_WIDTH :: usize where
  "UI_BARCHART_WIDTH = 3"

definition UI_BARCHART_GAP :: usize where
  "UI_BARCHART_GAP = 1"

definition chart_bars :: "'f App \<Rightarrow> usize \<Rightarrow> (string \<times> u64) list" where
  "chart_bars app window_width =
     map (\<lambda>(s, num). if num > 0 then (s, of_nat num) else ([], 0))
       (take (window_width div (UI_BARCHART_WIDTH + UI_BARCHART_GAP)) (throughput_data app))"

section \<open>The shape of a dashboard\<close>

definition app_invar :: "UIAppConfig \<Rightarrow> 'f App \<Rightarrow> bool" where
  "app_invar config app \<longleftrightarrow>
     un_pid (current_node app) = ui_config_pid config \<and>
     ui_nodes app = coloured_nodes (sort (ui_config_peers config @ [ui_config_pid config])) \<and>
     map un_pid (active_peers app) =
       filter (\<lambda>p. p \<noteq> ui_config_pid config) (sort (ui_config_peers config @ [ui_config_pid config])) \<and>
     length (followers_accepted_idx app) = length (followers_progress app) \<and>
     (\<forall>p\<in>set (ui_config_pid config # ui_config_peers config). unat p < length (followers_progress app))"

lemma coloured_nodes_pids: "map un_pid (coloured_nodes ps) = ps"
proof -
  have "map un_pid (coloured_nodes ps) = map snd (enumerate 0 ps)"
    unfolding coloured_nodes_def map_map by (rule map_cong) auto
  then show ?thesis by simp
qed

lemma map_filter_pid: "map un_pid (filter (\<lambda>x. P (un_pid x)) ns) = filter P (map un_pid ns)"
  by (induction ns) auto

lemma App_with_invar:
  assumes "App_with f now config = Inr app"
    and "\<forall>p\<in>set (ui_config_pid config # ui_config_peers config). unat p + 1 < usize_limit"
  shows "app_invar config app"
proof -
  let ?pid = "ui_config_pid config" and ?peers = "ui_config_peers config"
  obtain m where m: "iter_max (\<le>) ?peers = Some m"
    using assms(1) by (cases "iter_max (\<le>) ?peers") (auto simp: App_with_def try_result_def)
  have le: "p \<le> m" if "p \<in> set ?peers" for p
    using m that by (rule iter_max_ge) (auto intro: order_trans)
  have "max m ?pid \<in> set (?pid # ?peers)" using iter_max_in [OF m] by (auto simp: max_def)
  then have cap: "usize_add (unat (max m ?pid)) 1 = unat (max m ?pid) + 1"
    using assms(2) by (intro usize_add_exact) blast
  have "unat p < unat (max m ?pid) + 1" if "p \<in> set (?pid # ?peers)" for p
  proof -
    have "p \<le> max m ?pid" using that le by (auto simp: le_max_iff_disj)
    then show ?thesis by (simp add: word_le_nat_alt less_Suc_eq_le)
  qed
  with assms(1) m show ?thesis
    by (auto simp: app_invar_def App_with_def try_result_def Let_def cap [unfolded One_nat_def] map_filter_pid [of "\<lambda>p. p \<noteq> ?pid"] coloured_nodes_pids UINode_default_def)
qed

lemma set_progress_effect:
  assumes "idx + length indexes \<le> length (followers_progress app)"
    and "length (followers_accepted_idx app) = length (followers_progress app)"
  shows "\<exists>fp fa. set_progress f la idx indexes app = Inr (app\<lparr>followers_progress := fp, followers_accepted_idx := fa\<rparr>) \<and>
    length fp = length (followers_progress app) \<and> length fa = length (followers_progress app) \<and>
    take idx fa = take idx (followers_accepted_idx app) \<and> take (length indexes) (drop idx fa) = indexes"
  using assms
proof (induction indexes arbitrary: idx app)
  case Nil
  show ?case
    by (intro exI [of _ "followers_progress app"] exI [of _ "followers_accepted_idx app"]) (use Nil in simp)
next
  case (Cons x indexes)
  let ?app = "app\<lparr>followers_progress := (followers_progress app)
      [idx := if la = 0 then f_zero f else f_ratio f x la],
      followers_accepted_idx := (followers_accepted_idx app)[idx := x]\<rparr>"
  have "(idx + 1) + length indexes \<le> length (followers_progress ?app)"
    "length (followers_accepted_idx ?app) = length (followers_progress ?app)"
    using Cons.prems by simp_all
  from Cons.IH [OF this] obtain fp fa where
    r: "set_progress f la (idx + 1) indexes ?app = Inr (?app\<lparr>followers_progress := fp, followers_accepted_idx := fa\<rparr>)"
    and l: "length fp = length (followers_progress app)" "length fa = length (followers_progress app)"
    and t: "take (idx + 1) fa = take (idx + 1) ((followers_accepted_idx app)[idx := x])"
    and d: "take (length indexes) (drop (idx + 1) fa) = indexes" by auto
  have in_range: "idx < length fa" "idx < length (followers_accepted_idx app)" using l Cons.prems by simp_all
  have "take idx fa = take idx (take (idx + 1) fa)" by simp
  also have "\<dots> = take idx (followers_accepted_idx app)" unfolding t by simp
  finally have pre: "take idx fa = take idx (followers_accepted_idx app)" .
  have "fa ! idx = take (idx + 1) fa ! idx" by simp
  also have "\<dots> = x" unfolding t using in_range by simp
  finally have "take (length (x # indexes)) (drop idx fa) = x # indexes"
    using d in_range by (simp add: Cons_nth_drop_Suc [symmetric])
  with r l pre Cons.prems in_range show ?case by (intro exI [of _ fp] exI [of _ fa]) simp
qed

lemma set_progress_invar:
  assumes "set_progress f la idx indexes app = Inr app'" and "app_invar config app"
  shows "app_invar config app' \<and> current_role app' = current_role app"
  using assms by (induction f la idx indexes app rule: set_progress.induct)
    (auto simp: app_invar_def split: if_splits)

lemma update_progress_invar:
  "update_progress f st app = Inr app' \<Longrightarrow> app_invar config app \<Longrightarrow> app_invar config app'"
  by (auto simp: update_progress_def Let_def app_invar_def split: option.splits if_splits
      dest!: set_progress_invar [of _ _ _ _ "_\<lparr>current_role := UILeader\<rparr>" _ config])

lemma update_active_peers_invar: "app_invar config app \<Longrightarrow> app_invar config (update_active_peers st app)"
proof -
  have "map un_pid (active_peers (update_active_peers st app)) = map un_pid (active_peers app)"
    by (simp add: update_active_peers_def split: option.split)
  then show "app_invar config app \<Longrightarrow> ?thesis" by (simp add: app_invar_def update_active_peers_def)
qed

lemma ui_update_leader_invar:
  "ui_update_leader st app = Inr app' \<Longrightarrow> app_invar config app \<Longrightarrow> app_invar config app'"
  by (auto simp: ui_update_leader_def Let_def app_invar_def try_result_Inr_iff split: option.splits if_splits)

lemma update_ui_app [simp]: "ui_app (update_ui key ui) = ui_app ui"
  by (auto simp: update_ui_def OmniPaxosUI_stop_def Let_def split: option.split KeyCode.split)

lemma tick_invar:
  assumes "OmniPaxosUI_tick f now key st ui = Inr ui'" and "app_invar config (ui_app ui)"
  shows "app_invar config (ui_app ui')"
proof (cases "ui_started ui")
  case True
  let ?app = "App_set_decided_idx f now
    (ui_app ui\<lparr>current_node := (current_node (ui_app ui))\<lparr>un_ballot_number := b_n (st_current_ballot st)\<rparr>\<rparr>) (st_decided_idx st)"
  have "app_invar config ?app" using assms(2) by (simp add: App_set_decided_idx_def Let_def app_invar_def)
  moreover obtain a1 a2 where "update_progress f st ?app = Inr a1"
    "ui_update_leader st (update_active_peers st a1) = Inr a2" "ui_app ui' = a2"
    using assms(1) True by (auto simp: OmniPaxosUI_tick_def Let_def try_result_Inr_iff)
  ultimately show ?thesis
    using update_progress_invar update_active_peers_invar ui_update_leader_invar by metis
qed (use assms in \<open>simp add: OmniPaxosUI_tick_def\<close>)

text \<open>A dashboard in use.\<close>

datatype UIEvent = UIStart "KeyCode option" | UIStop | UITick Duration "KeyCode option" OmniPaxosStates

fun ui_event :: "'f F64 \<Rightarrow> 'f OmniPaxosUI \<Rightarrow> UIEvent \<Rightarrow> (unit, 'f OmniPaxosUI) result" where
  "ui_event f ui (UIStart key) = Inr (OmniPaxosUI_start key ui)"
| "ui_event f ui UIStop = Inr (OmniPaxosUI_stop ui)"
| "ui_event f ui (UITick now key st) = OmniPaxosUI_tick f now key st ui"

fun ui_run :: "'f F64 \<Rightarrow> 'f OmniPaxosUI \<Rightarrow> UIEvent list \<Rightarrow> (unit, 'f OmniPaxosUI) result" where
  "ui_run f ui [] = Inr ui"
| "ui_run f ui (e # es) = try_result (ui_event f ui e) (\<lambda>ui. ui_run f ui es)"

lemma ui_run_invar:
  assumes "ui_run f ui es = Inr ui'" and "app_invar config (ui_app ui)"
  shows "app_invar config (ui_app ui')"
  using assms
proof (induction es arbitrary: ui)
  case (Cons e es)
  then obtain ui1 where u: "ui_event f ui e = Inr ui1" "ui_run f ui1 es = Inr ui'"
    by (auto simp: try_result_Inr_iff)
  have "app_invar config (ui_app ui1)"
    using u(1) Cons.prems(2) by (cases e) (auto simp: OmniPaxosUI_start_def OmniPaxosUI_stop_def intro: tick_invar)
  with Cons.IH u(2) show ?case by blast
qed simp

lemma leader_rows_total:
  assumes "\<And>n. n \<in> set ns \<Longrightarrow> unat (un_pid n) < length (followers_accepted_idx app)"
  shows "leader_rows app ns = Inr (map (\<lambda>n. follower_row n @ [Text (usize_to_string (followers_accepted_idx app ! unat (un_pid n)))]) ns)"
  using assms by (induction ns) (auto simp: leader_row_def try_result_def)

section \<open>A tick\<close>

lemma update_progress_total:
  assumes "app_invar config app" and "unat (ui_config_pid config) < length (accepted_indexes (cluster_state st))"
    and "length (accepted_indexes (cluster_state st)) \<le> length (followers_progress app)"
  shows "\<exists>app'. update_progress f st app = Inr app' \<and> app_decided_idx app' = app_decided_idx app \<and>
    current_role app' = (case app_leader app of None \<Rightarrow> current_role app
      | Some l \<Rightarrow> if l = ui_config_pid config then UILeader else UIFollower)"
proof (cases "app_leader app = Some (ui_config_pid config)")
  case True
  let ?app = "app\<lparr>current_role := UILeader\<rparr>" and ?idx = "accepted_indexes (cluster_state st)"
  have "0 + length ?idx \<le> length (followers_progress ?app)"
    "length (followers_accepted_idx ?app) = length (followers_progress ?app)"
    using assms by (simp_all add: app_invar_def)
  from set_progress_effect [OF this, of f "?idx ! unat (ui_config_pid config)"] True assms(1,2) show ?thesis
    by (auto simp: update_progress_def Let_def app_invar_def)
next
  case False
  with assms(1) show ?thesis by (auto simp: update_progress_def app_invar_def split: option.split)
qed

lemma ui_update_leader_total:
  assumes "app_invar config app"
    and "\<forall>l. st_current_leader st = Some l \<longrightarrow> l \<in> set (ui_config_pid config # ui_config_peers config)"
  shows "\<exists>col. ui_update_leader st app = Inr (app\<lparr>app_leader := st_current_leader st, leader_color := col\<rparr>)"
proof (cases "st_current_leader st")
  case (Some l)
  have "set (map un_pid (ui_nodes app)) = set (ui_config_pid config # ui_config_peers config)"
    using assms(1) by (auto simp: app_invar_def coloured_nodes_pids simp del: set_map)
  with assms(2) Some have "l \<in> un_pid ` set (ui_nodes app)" by simp
  then have "find (\<lambda>x. un_pid x = l) (ui_nodes app) \<noteq> None" by (auto simp: find_None_iff)
  then obtain n where "find (\<lambda>x. un_pid x = l) (ui_nodes app) = Some n" by blast
  with Some show ?thesis by (cases "l = un_pid (current_node app)") (auto simp: ui_update_leader_def Let_def)
qed (auto simp: ui_update_leader_def)

lemma active_peers_connected:
  "\<forall>n\<in>set (active_peers (update_active_peers st app)). un_connected n \<longleftrightarrow>
     un_pid n \<in> set (map (b_pid \<circ> rep_ballot) (cs_heartbeats (cluster_state st)))"
proof -
  let ?hbs = "cs_heartbeats (cluster_state st)"
  have "un_pid n' = un_pid n \<and> (un_connected n' \<longleftrightarrow> un_pid n \<in> set (map (b_pid \<circ> rep_ballot) ?hbs))"
    if "n' = (case find (\<lambda>x. b_pid (rep_ballot x) = un_pid n) ?hbs of
       Some heartbeat \<Rightarrow> n\<lparr>un_ballot_number := b_n (rep_ballot heartbeat),
                            un_leader := b_pid (rep_leader heartbeat), un_connected := True\<rparr>
     | None \<Rightarrow> n\<lparr>un_connected := False\<rparr>)" for n n'
  proof (cases "find (\<lambda>x. b_pid (rep_ballot x) = un_pid n) ?hbs")
    case None
    with that show ?thesis by (auto simp: find_None_iff)
  next
    case (Some x)
    then have "x \<in> set ?hbs" "b_pid (rep_ballot x) = un_pid n" by (auto simp: find_Some_iff)
    with that Some show ?thesis by (auto intro: rev_image_eqI)
  qed
  then show ?thesis by (fastforce simp: update_active_peers_def)
qed

section \<open>An example\<close>

text \<open>Natural numbers, rounded down, for the floating-point operations.\<close>

definition floor_arith :: "nat F64" where
  "floor_arith = \<lparr>f_zero = 0, f_ratio = (\<lambda>a b. a div b), f_rate = (\<lambda>a b. a div b)\<rparr>"

definition example_states :: "NodeId \<Rightarrow> OmniPaxosStates" where
  "example_states leader = \<lparr>st_current_ballot = Ballot_with 1 4 0 leader, st_current_leader = Some leader,
     st_decided_idx = 7, st_heartbeats = [],
     cluster_state = \<lparr>accepted_indexes = [0, 9, 8, 0],
       cs_heartbeats = [\<lparr>rep_round = 1, rep_ballot = Ballot_with 1 3 0 2, rep_leader = Ballot_with 1 4 0 leader, rep_happy = True\<rparr>]\<rparr>\<rparr>"

abbreviation three_nodes :: UIAppConfig where
  "three_nodes \<equiv> \<lparr>ui_config_pid = 1, ui_config_peers = [3, 2]\<rparr>"

text \<open>
  C28. A dashboard keeps its shape. Whatever is done with it, as long as it has not panicked, its nodes
  are those of the configuration, the peers in its tables are the other nodes, in order, and every node has a
  slot in the progress and accepted-index vectors, so that the table of the leader finds all its indexes.
\<close>

theorem dashboard_well_formed:
  assumes "OmniPaxosUI_with f now config = Inr ui0" and "ui_run f ui0 es = Inr ui"
    and "\<forall>p\<in>set (ui_config_pid config # ui_config_peers config). unat p + 1 < usize_limit"
  shows "app_invar config (ui_app ui) \<and>
    (\<exists>rows. draw_leader_table (ui_app ui) = Inr rows \<and> length rows = length (active_peers (ui_app ui)))"
proof -
  have "app_invar config (ui_app ui0)"
    using assms(1) App_with_invar [OF _ assms(3)] by (auto simp: OmniPaxosUI_with_def try_result_Inr_iff)
  from ui_run_invar [OF assms(2) this] have inv: "app_invar config (ui_app ui)" .
  have "unat (un_pid n) < length (followers_accepted_idx (ui_app ui))" if "n \<in> set (active_peers (ui_app ui))" for n
  proof -
    have "un_pid n \<in> set (map un_pid (active_peers (ui_app ui)))" using that by simp
    then have "un_pid n \<in> set (ui_config_pid config # ui_config_peers config)"
      using inv by (auto simp: app_invar_def simp del: set_map)
    then show ?thesis using inv by (auto simp: app_invar_def)
  qed
  with inv show ?thesis by (auto simp: draw_leader_table_def leader_rows_total)
qed

lemma three_nodes_app:
  "\<exists>app. App_with floor_arith 0 three_nodes = Inr app \<and> current_node app = UINode_default\<lparr>un_pid := 1, un_color := Green\<rparr> \<and>
     app_leader app = None \<and> current_role app = UIFollower \<and> app_decided_idx app = 0 \<and>
     active_peers app = [UINode_default\<lparr>un_pid := 2, un_color := Blue\<rparr>, UINode_default\<lparr>un_pid := 3, un_color := Red\<rparr>] \<and>
     followers_progress app = [0, 0, 0, 0] \<and> followers_accepted_idx app = [0, 0, 0, 0]"
proof -
  have "\<not> (2 :: NodeId) \<le> 1" "\<not> (3 :: NodeId) \<le> 1" "replicate 4 (0 :: nat) = [0, 0, 0, 0]"
    by (simp add: word_le_nat_alt, simp add: word_le_nat_alt, code_simp)
  then show ?thesis
    by (simp add: App_with_def Let_def coloured_nodes_def own_color_def COLORS_def usize_add_def floor_arith_def
        UINode_default_def max_def)
qed

text \<open>
  A tick shows the states it is given. If the leader is one of the nodes and the accepted indexes fit
  the cluster, a started dashboard does not panic, draws the new state, and that shows the leader, the
  decided index and which peers answered the last heartbeat. The role it shows, however, is the one of the
  leader shown by the tick before.
\<close>

theorem tick_shows_states:
  assumes "app_invar config (ui_app ui)" and "ui_started ui"
    and "\<forall>l. st_current_leader st = Some l \<longrightarrow> l \<in> set (ui_config_pid config # ui_config_peers config)"
    and "unat (ui_config_pid config) < length (accepted_indexes (cluster_state st))"
    and "length (accepted_indexes (cluster_state st)) \<le> length (followers_progress (ui_app ui))"
    and "key = None \<or> key = Some OtherKey"
  shows "\<exists>ui'. OmniPaxosUI_tick f now key st ui = Inr ui' \<and> drawn ui' = drawn ui @ [ui_app ui'] \<and>
    app_leader (ui_app ui') = st_current_leader st \<and> app_decided_idx (ui_app ui') = st_decided_idx st \<and>
    (\<forall>n\<in>set (active_peers (ui_app ui')). un_connected n \<longleftrightarrow>
       un_pid n \<in> set (map (b_pid \<circ> rep_ballot) (cs_heartbeats (cluster_state st)))) \<and>
    current_role (ui_app ui') = (case app_leader (ui_app ui) of None \<Rightarrow> current_role (ui_app ui)
      | Some l \<Rightarrow> if l = ui_config_pid config then UILeader else UIFollower)"
proof -
  let ?app = "App_set_decided_idx f now
    (ui_app ui\<lparr>current_node := (current_node (ui_app ui))\<lparr>un_ballot_number := b_n (st_current_ballot st)\<rparr>\<rparr>) (st_decided_idx st)"
  have inv: "app_invar config ?app" using assms(1) by (simp add: App_set_decided_idx_def Let_def app_invar_def)
  have same: "app_leader ?app = app_leader (ui_app ui)" "current_role ?app = current_role (ui_app ui)"
    "app_decided_idx ?app = st_decided_idx st" "followers_progress ?app = followers_progress (ui_app ui)"
    "un_pid (current_node ?app) = ui_config_pid config"
    using assms(1) by (simp_all add: App_set_decided_idx_def Let_def app_invar_def)
  obtain a1 where a1: "update_progress f st ?app = Inr a1" "app_decided_idx a1 = st_decided_idx st"
    "current_role a1 = (case app_leader (ui_app ui) of None \<Rightarrow> current_role (ui_app ui)
      | Some l \<Rightarrow> if l = ui_config_pid config then UILeader else UIFollower)"
    using update_progress_total [OF inv assms(4), of f] assms(5) unfolding same by blast
  have inv1: "app_invar config (update_active_peers st a1)"
    by (rule update_active_peers_invar [OF update_progress_invar [OF a1(1) inv]])
  obtain col where a2: "ui_update_leader st (update_active_peers st a1) =
      Inr ((update_active_peers st a1)\<lparr>app_leader := st_current_leader st, leader_color := col\<rparr>)"
    using ui_update_leader_total [OF inv1 assms(3)] by blast
  let ?ui = "ui\<lparr>ui_app := (update_active_peers st a1)\<lparr>app_leader := st_current_leader st, leader_color := col\<rparr>\<rparr>"
  have "OmniPaxosUI_tick f now key st ui = Inr (update_ui key ?ui)"
    using assms(2) a1(1) a2 by (simp add: OmniPaxosUI_tick_def Let_def try_result_def)
  moreover have "drawn (update_ui key ?ui) = drawn ui @ [ui_app ?ui]"
    using assms(2,6) by (auto simp: update_ui_def)
  ultimately show ?thesis
    using a1(2,3) active_peers_connected [of st a1] by (intro exI [of _ "update_ui key ?ui"]) (simp add: update_active_peers_def)
qed

lemma three_nodes_ui:
  obtains ui where "OmniPaxosUI_with floor_arith 0 three_nodes = Inr ui" and "app_invar three_nodes (ui_app ui)"
    and "\<not> ui_started ui" and "drawn ui = []" and "app_leader (ui_app ui) = None" and "current_role (ui_app ui) = UIFollower"
    and "length (followers_progress (ui_app ui)) = 4"
proof -
  obtain app where app: "App_with floor_arith 0 three_nodes = Inr app" "app_leader app = None" "current_role app = UIFollower"
    "followers_progress app = [0, 0, 0, 0]"
    using three_nodes_app by blast
  have "app_invar three_nodes app" by (rule App_with_invar [OF app(1)]) simp
  with app that [of "\<lparr>ui_app = app, ui_started = False, drawn = []\<rparr>"] show ?thesis
    by (simp add: OmniPaxosUI_with_def)
qed

text \<open>The first tick, with the node itself as the leader.\<close>

theorem tick_shows_states_witness:
  "\<exists>ui ui'. OmniPaxosUI_with floor_arith 0 three_nodes = Inr ui \<and>
     OmniPaxosUI_tick floor_arith 5 None (example_states 1) (OmniPaxosUI_start None ui) = Inr ui' \<and>
     map app_leader (drawn ui') = [Some 1] \<and> map current_role (drawn ui') = [UIFollower]"
proof -
  obtain ui where ui: "OmniPaxosUI_with floor_arith 0 three_nodes = Inr ui" "app_invar three_nodes (ui_app ui)"
    "\<not> ui_started ui" "drawn ui = []" "app_leader (ui_app ui) = None" "current_role (ui_app ui) = UIFollower"
    "length (followers_progress (ui_app ui)) = 4"
    by (rule three_nodes_ui)
  let ?ui = "OmniPaxosUI_start None ui"
  have s: "ui_app ?ui = ui_app ui" "drawn ?ui = []" "ui_started ?ui"
    using ui(3,4) by (simp_all add: OmniPaxosUI_start_def update_ui_def)
  have st: "st_current_leader (example_states 1) = Some 1" "length (accepted_indexes (cluster_state (example_states 1))) = 4"
    by (simp_all add: example_states_def)
  have "\<exists>ui'. OmniPaxosUI_tick floor_arith 5 None (example_states 1) ?ui = Inr ui' \<and> drawn ui' = drawn ?ui @ [ui_app ui'] \<and>
    app_leader (ui_app ui') = Some 1 \<and> current_role (ui_app ui') = UIFollower"
    using tick_shows_states [of three_nodes ?ui "example_states 1" None floor_arith 5] ui(2,5-7) by (auto simp: s st)
  with ui(1) s(2) show ?thesis by fastforce
qed

theorem dashboard_well_formed_witness:
  "\<exists>ui0 ui. OmniPaxosUI_with floor_arith 0 three_nodes = Inr ui0 \<and>
     ui_run floor_arith ui0 [UIStart None, UITick 5 None (example_states 1), UIStop] = Inr ui \<and>
     length (drawn ui) = 1 \<and> map un_pid (active_peers (ui_app ui)) = [2, 3]"
proof -
  obtain ui where ui: "OmniPaxosUI_with floor_arith 0 three_nodes = Inr ui" "app_invar three_nodes (ui_app ui)"
    "\<not> ui_started ui" "drawn ui = []" "app_leader (ui_app ui) = None"
    by (rule three_nodes_ui)
  have pid: "un_pid (current_node (ui_app ui)) = 1" using ui(2) by (simp add: app_invar_def)
  obtain ui' where r: "ui_run floor_arith ui [UIStart None, UITick 5 None (example_states 1), UIStop] = Inr ui'"
    "length (drawn ui') = 1"
    using ui(3-5) pid
    by (auto simp: OmniPaxosUI_start_def update_ui_def OmniPaxosUI_tick_def Let_def App_set_decided_idx_def
        update_progress_def update_active_peers_def ui_update_leader_def example_states_def try_result_def OmniPaxosUI_stop_def)
  have "app_invar three_nodes (ui_app ui')"
    using dashboard_well_formed [OF ui(1) r(1)] by simp
  moreover have "\<not> (2 :: NodeId) \<le> 1" "\<not> (3 :: NodeId) \<le> 1"
    by (simp add: word_le_nat_alt, simp add: word_le_nat_alt)
  ultimately have "map un_pid (active_peers (ui_app ui')) = [2, 3]" by (simp add: app_invar_def)
  with ui(1) r show ?thesis by (intro exI [of _ ui] exI [of _ ui'] conjI)
qed

end
