(* ===== verification/Unicache.thy ===== *)
theory Unicache
  imports Prelude
begin

text \<open>
  The UniCache of a field (\<^verbatim>\<open>omnipaxos/src/unicache/mod.rs\<close>): a node that sends entries replaces
  a field it has sent before by a short encoding, and the receiving nodes look the encoding up in
  a cache of their own. Nothing but the encoded fields is exchanged, so both caches must evolve in
  step. The interface is the locale \<open>field_cache\<close>, whose lemma \<open>round_trip\<close> says that a sequence
  of encoded fields is decoded to the fields that were sent; the two caches of the crate, with
  least-recently-used and least-frequently-used eviction, are its instances.
\<close>

datatype ('k, 'v) MaybeEncoded = Encoded 'v | NotEncoded 'k

text \<open>
  Encoding a batch of entries (\<open>StateCache::append_entries\<close>), and \<open>decode_entries\<close>, with the
  \<open>try_encode\<close> and \<open>decode\<close> of the cache.
\<close>

fun encode_entries ::
  "('u \<Rightarrow> 'k \<Rightarrow> 'u \<times> (unit, 'm) result) \<Rightarrow> 'u \<Rightarrow> 'k list \<Rightarrow> 'u \<times> (unit, 'm list) result" where
  "encode_entries enc u [] = (u, Inr [])"
| "encode_entries enc u (f # fs) =
     try_state (enc u f) (\<lambda>u m. try_state (encode_entries enc u fs) (\<lambda>u ms. (u, Inr (m # ms))))"

fun decode_entries ::
  "('d \<Rightarrow> 'm \<Rightarrow> 'd \<times> (unit, 'k) result) \<Rightarrow> 'd \<Rightarrow> 'm list \<Rightarrow> 'd \<times> (unit, 'k list) result" where
  "decode_entries dec d [] = (d, Inr [])"
| "decode_entries dec d (m # ms) =
     try_state (dec d m) (\<lambda>d f. try_state (decode_entries dec d ms) (\<lambda>d fs. (d, Inr (f # fs))))"

text \<open>If single entries survive encoding and decoding, so do batches of them.\<close>

lemma entries_round_trip:
  assumes step: "\<And>u d f. synced u d \<Longrightarrow> valid f \<Longrightarrow>
      \<exists>u' m d'. enc u f = (u', Inr m) \<and> dec d m = (d', Inr f) \<and> synced u' d'"
    and "synced u d" and "list_all valid fs"
  shows "\<exists>u' ms d'. encode_entries enc u fs = (u', Inr ms) \<and> decode_entries dec d ms = (d', Inr fs) \<and> synced u' d'"
  using assms(2,3)
proof (induction fs arbitrary: u d)
  case (Cons f fs)
  then have "valid f" "list_all valid fs" by simp_all
  with step Cons.prems(1) obtain u1 m d1 where e: "enc u f = (u1, Inr m)" "dec d m = (d1, Inr f)" "synced u1 d1"
    by meson
  from Cons.IH [OF e(3) \<open>list_all valid fs\<close>] obtain u' ms d' where
    "encode_entries enc u1 fs = (u', Inr ms)" "decode_entries dec d1 ms = (d', Inr fs)" "synced u' d'"
    by blast
  with e have "encode_entries enc u (f # fs) = (u', Inr (m # ms))"
    and "decode_entries dec d (m # ms) = (d', Inr (f # fs))"
    by (simp_all add: result_simps)
  with \<open>synced u' d'\<close> show ?case by blast
qed auto

section \<open>The contract of a field cache\<close>

locale field_cache =
  fixes try_encode :: "'u \<Rightarrow> 'k \<Rightarrow> 'u \<times> (unit, 'm) result"
    and decode :: "'d \<Rightarrow> 'm \<Rightarrow> 'd \<times> (unit, 'k) result"
    and synced :: "'u \<Rightarrow> 'd \<Rightarrow> bool"
  assumes encode_decode:
    "synced u d \<Longrightarrow> \<exists>u' m d'. try_encode u f = (u', Inr m) \<and> decode d m = (d', Inr f) \<and> synced u' d'"
begin

lemma round_trip:
  assumes "synced u d"
  shows "\<exists>u' ms d'. encode_entries try_encode u fs = (u', Inr ms) \<and>
           decode_entries decode d ms = (d', Inr fs) \<and> synced u' d'"
  by (rule entries_round_trip [where valid = "\<lambda>_. True"]) (use assms encode_decode in \<open>auto simp: list_all_iff\<close>)

end

section \<open>Lists that pair fields with encodings\<close>

lemma map_swap_filter:
  assumes "distinct (map fst xs)" and "distinct (map snd xs)" and "(k, v) \<in> set xs"
  shows "map prod.swap (filter (\<lambda>p. fst p \<noteq> k) xs) = filter (\<lambda>p. fst p \<noteq> v) (map prod.swap xs)"
proof -
  have "inj_on fst (set xs)" "inj_on snd (set xs)"
    using assms(1,2) by (simp_all add: distinct_map)
  with assms(3) have "fst p = k \<longleftrightarrow> snd p = v" if "p \<in> set xs" for p
    using that by (metis fst_conv inj_onD snd_conv)
  then have "filter (\<lambda>p. fst p \<noteq> k) xs = filter (\<lambda>p. snd p \<noteq> v) xs"
    by (intro filter_cong) auto
  then show ?thesis by (simp add: filter_map o_def)
qed

lemma filter_key_remove1:
  assumes "distinct (map fst xs)" and "(k, v) \<in> set xs"
  shows "filter (\<lambda>p. fst p \<noteq> k) xs = remove1 (k, v) xs"
proof -
  have "fst p = k \<longleftrightarrow> p = (k, v)" if "p \<in> set xs" for p
    using that assms by (metis distinct_map fst_conv inj_onD)
  then have "filter (\<lambda>p. fst p \<noteq> k) xs = filter (\<lambda>p. p \<noteq> (k, v)) xs"
    by (intro filter_cong) auto
  also have "\<dots> = removeAll (k, v) xs"
    by (simp add: removeAll_filter_not_eq eq_commute)
  also have "\<dots> = remove1 (k, v) xs"
    using assms(1) by (simp add: distinct_map distinct_remove1_removeAll)
  finally show ?thesis .
qed

lemma move_to_front:
  assumes "distinct (map fst xs)" and "(k, v) \<in> set xs"
  shows "mset ((k, v) # filter (\<lambda>p. fst p \<noteq> k) xs) = mset xs"
  using assms by (simp add: filter_key_remove1)

lemma mset_distinct_map: "mset xs = mset ys \<Longrightarrow> distinct (map f xs) \<longleftrightarrow> distinct (map f ys)"
  by (metis mset_eq_imp_distinct_iff mset_map)

lemma map_of_swap:
  assumes "distinct (map fst xs)" and "distinct (map snd xs)" and "map_of xs k = Some v"
  shows "map_of (map prod.swap xs) v = Some k"
proof -
  have "(v, k) \<in> set (map prod.swap xs)"
    using map_of_SomeD [OF assms(3)] by force
  moreover have "distinct (map fst (map prod.swap xs))"
    using assms(2) by (simp add: o_def)
  ultimately show ?thesis by (rule map_of_is_SomeI [rotated])
qed

lemma word_of_nat_inj:
  assumes "n \<le> 2 ^ LENGTH('w::len)" and "i \<in> {1..n}" and "j \<in> {1..n}"
    and "(word_of_nat i :: 'w word) = word_of_nat j"
  shows "i = j"
proof -
  have m: "i mod 2 ^ LENGTH('w) = j mod 2 ^ LENGTH('w)"
    using assms(4) by (simp add: word_of_nat_eq_iff take_bit_eq_mod)
  show ?thesis
  proof (cases "i = 2 ^ LENGTH('w) \<or> j = 2 ^ LENGTH('w)")
    case True
    with m assms(1-3) show ?thesis
      by (metis atLeastAtMost_iff le_neq_implies_less less_one mod_less mod_self not_less order_trans)
  next
    case False
    with assms(1-3) have "i < 2 ^ LENGTH('w)" "j < 2 ^ LENGTH('w)" by auto
    with m show ?thesis by simp
  qed
qed

lemma fresh_number:
  assumes "m < n" and "n \<le> 2 ^ LENGTH('w::len)"
  shows "(word_of_nat m + 1 :: 'w word) \<notin> word_of_nat ` {1..m}"
proof
  assume "(word_of_nat m + 1 :: 'w word) \<in> word_of_nat ` {1..m}"
  then obtain i where "i \<in> {1..m}" "(word_of_nat (Suc m) :: 'w word) = word_of_nat i"
    by (auto simp: add.commute)
  with word_of_nat_inj [of n "Suc m" i, where 'w = 'w] assms show False
    by auto
qed

end
