(* ===== verification/Lru_Unicache.thy ===== *)
theory Lru_Unicache
  imports Unicache
begin

text \<open>
  The UniCache with least-recently-used eviction (\<^verbatim>\<open>omnipaxos/src/unicache/lru_cache.rs\<close>): an
  encoder from fields to encodings and a decoder from encodings to fields, both on the
  \<open>LruCache\<close> of the \<^verbatim>\<open>lru\<close> crate. That crate is the parameter \<open>L\<close> of the definitions, and its
  documented behaviour is the locale \<open>lru_cache\<close>. An \<open>Encoded\<close> type is an integer type: its
  default is 0 and the increment wraps.
\<close>

section \<open>The cache of the \<^verbatim>\<open>lru\<close> crate\<close>

text \<open>
  \<open>get\<close> and \<open>push\<close> move the entry to the front; \<open>push\<close> on a full cache drops the least recently
  used entry. \<open>iter\<close> visits the most recently used entry first.
\<close>

record ('c, 'k, 'v) LruCache =
  lru_new :: "usize \<Rightarrow> 'c"
  lru_get :: "'c \<Rightarrow> 'k \<Rightarrow> 'c \<times> 'v option"
  lru_len :: "'c \<Rightarrow> usize"
  lru_push :: "'c \<Rightarrow> 'k \<Rightarrow> 'v \<Rightarrow> 'c"
  lru_pop_lru :: "'c \<Rightarrow> 'c \<times> ('k \<times> 'v) option"
  lru_iter :: "'c \<Rightarrow> ('k \<times> 'v) list"

text \<open>
  The wire format of a cache is the sequence of its entries, least recently used first. The
  capacity of the restored cache is the length hint of the deserialiser, 255 without a hint.
\<close>

definition LruWrapper_serialize :: "('c, 'k, 'v) LruCache \<Rightarrow> 'c \<Rightarrow> ('k \<times> 'v) list" where
  "LruWrapper_serialize L c = rev (lru_iter L c)"

definition LruWrapper_visit_seq ::
  "('c, 'k, 'v) LruCache \<Rightarrow> usize option \<Rightarrow> ('k \<times> 'v) list \<Rightarrow> (unit, 'c) result" where
  "LruWrapper_visit_seq L size_hint items =
     (let sz = unwrap_or size_hint 255
      in if sz = 0 then Inl (Panic ''called Option::unwrap() on a None value'')
         else Inr (foldl (\<lambda>c (k, v). lru_push L c k v) (lru_new L sz) items))"

locale lru_cache =
  fixes L :: "('c, 'k, 'v) LruCache"
    and cap :: "'c \<Rightarrow> nat"
  assumes new_law: "lru_iter L (lru_new L n) = []" "cap (lru_new L n) = n"
    and get_law:
      "fst (lru_get L c k) = c' \<Longrightarrow> lru_iter L c' =
         (case map_of (lru_iter L c) k of
            None \<Rightarrow> lru_iter L c
          | Some v \<Rightarrow> (k, v) # filter (\<lambda>p. fst p \<noteq> k) (lru_iter L c))"
      "snd (lru_get L c k) = map_of (lru_iter L c) k"
      "cap (fst (lru_get L c k)) = cap c"
    and len_law: "lru_len L c = length (lru_iter L c)"
    and push_law:
      "k \<notin> fst ` set (lru_iter L c) \<Longrightarrow> lru_iter L (lru_push L c k v) =
         (k, v) # (if length (lru_iter L c) < cap c then lru_iter L c else butlast (lru_iter L c))"
      "cap (lru_push L c k v) = cap c"
    and pop_law:
      "lru_iter L c \<noteq> [] \<Longrightarrow> snd (lru_pop_lru L c) = Some (last (lru_iter L c))"
      "lru_iter L (fst (lru_pop_lru L c)) = butlast (lru_iter L c)"
      "cap (fst (lru_pop_lru L c)) = cap c"
begin

text \<open>Refilling a cache from the least recently used entry on rebuilds it.\<close>

lemma push_all:
  assumes "distinct (map fst xs)" and "length xs \<le> cap c" and "lru_iter L c = []"
  shows "lru_iter L (foldl (\<lambda>c (k, v). lru_push L c k v) c (rev xs)) = xs \<and>
         cap (foldl (\<lambda>c (k, v). lru_push L c k v) c (rev xs)) = cap c"
  using assms
proof (induction xs)
  case (Cons x xs)
  then show ?case by (cases x) (auto simp: push_law image_iff)
qed simp

lemma visit_seq_serialize:
  assumes "distinct (map fst (lru_iter L c))" and "length (lru_iter L c) \<le> unwrap_or hint 255"
    and "0 < unwrap_or hint 255"
  shows "\<exists>c'. LruWrapper_visit_seq L hint (LruWrapper_serialize L c) = Inr c' \<and>
           lru_iter L c' = lru_iter L c \<and> cap c' = unwrap_or hint 255"
  using assms push_all [of "lru_iter L c" "lru_new L (unwrap_or hint 255)"]
  by (auto simp: LruWrapper_visit_seq_def LruWrapper_serialize_def Let_def new_law)

end

section \<open>Encoding and decoding\<close>

record ('ce, 'cd, 'v) LRUniCache =
  lru_cache_encoder :: 'ce
  lru_cache_decoder :: 'cd
  lru_encoding :: 'v
  lru_size :: usize

definition LRUniCache_new ::
  "('ce, 'k, 'w word) LruCache \<Rightarrow> ('cd, 'w word, 'k) LruCache \<Rightarrow> usize \<Rightarrow>
   (unit, ('ce, 'cd, 'w :: len word) LRUniCache) result" where
  "LRUniCache_new E D sz =
     (if sz = 0 then Inl (Panic ''called Option::unwrap() on a None value'')
      else Inr \<lparr>lru_cache_encoder = lru_new E sz, lru_cache_decoder = lru_new D sz,
                lru_encoding = 0, lru_size = sz\<rparr>)"

definition LRUniCache_try_encode ::
  "('ce, 'k, 'w word) LruCache \<Rightarrow> ('ce, 'cd, 'w :: len word) LRUniCache \<Rightarrow> 'k \<Rightarrow>
   ('ce, 'cd, 'w word) LRUniCache \<times> (unit, ('k, 'w word) MaybeEncoded) result" where
  "LRUniCache_try_encode E u field =
     (let (e, hit) = lru_get E (lru_cache_encoder u) field;
          u = u\<lparr>lru_cache_encoder := e\<rparr>
      in case hit of
           Some enc \<Rightarrow> (u, Inr (Encoded enc))
         | None \<Rightarrow>
             if lru_len E e = lru_size u then
               (case lru_pop_lru E e of
                  (e, None) \<Rightarrow> (u\<lparr>lru_cache_encoder := e\<rparr>,
                                Inl (Panic ''called Option::unwrap() on a None value''))
                | (e, Some (_, popped_encoding)) \<Rightarrow>
                    (u\<lparr>lru_cache_encoder := lru_push E e field popped_encoding\<rparr>, Inr (NotEncoded field)))
             else
               (let added = lru_encoding u + 1
                in (u\<lparr>lru_cache_encoder := lru_push E e field added, lru_encoding := added\<rparr>,
                    Inr (NotEncoded field))))"

definition LRUniCache_decode ::
  "('cd, 'w word, 'k) LruCache \<Rightarrow> ('ce, 'cd, 'w :: len word) LRUniCache \<Rightarrow> ('k, 'w word) MaybeEncoded \<Rightarrow>
   ('ce, 'cd, 'w word) LRUniCache \<times> (unit, 'k) result" where
  "LRUniCache_decode D u res =
     (case res of
        Encoded enc \<Rightarrow>
          (let (d, hit) = lru_get D (lru_cache_decoder u) enc
           in (u\<lparr>lru_cache_decoder := d\<rparr>, unwrap ''called Option::unwrap() on a None value'' hit))
      | NotEncoded field \<Rightarrow>
          if lru_len D (lru_cache_decoder u) = lru_size u then
            (case lru_pop_lru D (lru_cache_decoder u) of
               (d, None) \<Rightarrow> (u\<lparr>lru_cache_decoder := d\<rparr>,
                             Inl (Panic ''called Option::unwrap() on a None value''))
             | (d, Some (popped_encoded, _)) \<Rightarrow>
                 (u\<lparr>lru_cache_decoder := lru_push D d popped_encoded field\<rparr>, Inr field))
          else
            (let added = lru_encoding u + 1
             in (u\<lparr>lru_cache_decoder := lru_push D (lru_cache_decoder u) added field,
                   lru_encoding := added\<rparr>, Inr field)))"

text \<open>\<open>clone\<close>: the decoder for a follower, filled from the encoder, least recently used entry first.\<close>

definition LRUniCache_clone ::
  "('ce, 'k, 'w word) LruCache \<Rightarrow> ('cd, 'w word, 'k) LruCache \<Rightarrow> ('ce, 'cd, 'w :: len word) LRUniCache \<Rightarrow>
   ('ce, 'cd, 'w word) LRUniCache" where
  "LRUniCache_clone E D u =
     \<lparr>lru_cache_encoder = lru_new E 1,
      lru_cache_decoder =
        foldl (\<lambda>d (field, enc). lru_push D d enc field) (lru_new D (lru_size u))
          (rev (lru_iter E (lru_cache_encoder u))),
      lru_encoding = lru_encoding u, lru_size = lru_size u\<rparr>"

text \<open>
  Sending a cache to another node: serialising it (the derived implementation, field by field) and
  deserialising it there. \<open>hint\<close> is the length hint the format gives for a sequence of a length:
  the exact length for a binary format, none for a textual one.
\<close>

definition LRUniCache_transfer ::
  "('ce, 'k, 'v) LruCache \<Rightarrow> ('cd, 'v, 'k) LruCache \<Rightarrow> (usize \<Rightarrow> usize option) \<Rightarrow>
   ('ce, 'cd, 'v) LRUniCache \<Rightarrow> (unit, ('ce, 'cd, 'v) LRUniCache) result" where
  "LRUniCache_transfer E D hint u =
     (let es = LruWrapper_serialize E (lru_cache_encoder u);
          ds = LruWrapper_serialize D (lru_cache_decoder u)
      in try_result (LruWrapper_visit_seq E (hint (length es)) es) (\<lambda>e.
         try_result (LruWrapper_visit_seq D (hint (length ds)) ds) (\<lambda>d.
           Inr (u\<lparr>lru_cache_encoder := e, lru_cache_decoder := d\<rparr>))))"

section \<open>Encoder and decoder in step\<close>

text \<open>
  What the encoder keeps: no field and no encoding twice, and while it is not full the encodings
  are the numbers from 1 to its length.
\<close>

definition lru_encoder_ok ::
  "('ce, 'k, 'w word) LruCache \<Rightarrow> ('ce \<Rightarrow> nat) \<Rightarrow> ('ce, 'cd, 'w :: len word) LRUniCache \<Rightarrow> bool" where
  "lru_encoder_ok E cap u \<longleftrightarrow>
     (let xs = lru_iter E (lru_cache_encoder u); n = lru_size u
      in 0 < n \<and> n \<le> 2 ^ LENGTH('w) \<and> cap (lru_cache_encoder u) = n \<and> length xs \<le> n \<and>
         distinct (map fst xs) \<and> distinct (map snd xs) \<and>
         (length xs < n \<longrightarrow> snd ` set xs = word_of_nat ` {1..length xs} \<and>
                              lru_encoding u = word_of_nat (length xs)))"

definition lru_synced ::
  "('ce, 'k, 'w word) LruCache \<Rightarrow> ('ce \<Rightarrow> nat) \<Rightarrow> ('cd, 'w word, 'k) LruCache \<Rightarrow> ('cd \<Rightarrow> nat) \<Rightarrow>
   ('ce, 'cd, 'w :: len word) LRUniCache \<Rightarrow> ('ce, 'cd, 'w word) LRUniCache \<Rightarrow> bool" where
  "lru_synced E ecap D dcap u d \<longleftrightarrow>
     lru_encoder_ok E ecap u \<and>
     lru_iter D (lru_cache_decoder d) = map prod.swap (lru_iter E (lru_cache_encoder u)) \<and>
     lru_size u \<le> dcap (lru_cache_decoder d) \<and> lru_size d = lru_size u \<and>
     (length (lru_iter E (lru_cache_encoder u)) < lru_size u \<longrightarrow> lru_encoding d = lru_encoding u)"

locale lru_pair = enc: lru_cache E ecap + dec: lru_cache D dcap
  for E :: "('ce, 'k, 'w :: len word) LruCache" and ecap
    and D :: "('cd, 'w word, 'k) LruCache" and dcap
begin

abbreviation synced :: "('ce, 'cd, 'w word) LRUniCache \<Rightarrow> ('ce, 'cd, 'w word) LRUniCache \<Rightarrow> bool" where
  "synced \<equiv> lru_synced E ecap D dcap"

lemma encode_hit:
  assumes "synced u d" and "map_of (lru_iter E (lru_cache_encoder u)) f = Some w"
  shows "\<exists>u' m d'. LRUniCache_try_encode E u f = (u', Inr m) \<and> LRUniCache_decode D d m = (d', Inr f) \<and>
           synced u' d'"
proof -
  let ?xs = "lru_iter E (lru_cache_encoder u)"
  let ?e = "fst (lru_get E (lru_cache_encoder u) f)" and ?d = "fst (lru_get D (lru_cache_decoder d) w)"
  have dist: "distinct (map fst ?xs)" "distinct (map snd ?xs)" and mem: "(f, w) \<in> set ?xs"
    using assms map_of_SomeD [OF assms(2)] by (auto simp: lru_synced_def lru_encoder_ok_def Let_def)
  have dw: "map_of (lru_iter D (lru_cache_decoder d)) w = Some f"
    using assms(1) map_of_swap [OF dist assms(2)] by (simp add: lru_synced_def)
  have e: "lru_iter E ?e = (f, w) # filter (\<lambda>p. fst p \<noteq> f) ?xs"
    using enc.get_law(1) [OF refl, of "lru_cache_encoder u" f] assms(2) by simp
  have "lru_iter D ?d = map prod.swap (lru_iter E ?e)"
    using dec.get_law(1) [OF refl, of "lru_cache_decoder d" w] dw e map_swap_filter [OF dist mem] assms(1)
    by (simp add: lru_synced_def)
  moreover have "set (lru_iter E ?e) = set ?xs" and "length (lru_iter E ?e) = length ?xs"
    and "distinct (map fst (lru_iter E ?e))" and "distinct (map snd (lru_iter E ?e))"
    using dist mem move_to_front [OF dist(1) mem]
    by (metis e mset_eq_setD mset_eq_length mset_distinct_map)+
  ultimately have "synced (u\<lparr>lru_cache_encoder := ?e\<rparr>) (d\<lparr>lru_cache_decoder := ?d\<rparr>)"
    using assms(1) by (simp add: lru_synced_def lru_encoder_ok_def Let_def enc.get_law(3) dec.get_law(3))
  moreover have "LRUniCache_try_encode E u f = (u\<lparr>lru_cache_encoder := ?e\<rparr>, Inr (Encoded w))"
    using assms(2) by (simp add: LRUniCache_try_encode_def split_beta enc.get_law(2))
  moreover have "LRUniCache_decode D d (Encoded w) = (d\<lparr>lru_cache_decoder := ?d\<rparr>, Inr f)"
    using dw by (simp add: LRUniCache_decode_def split_beta dec.get_law(2))
  ultimately show ?thesis by blast
qed

lemma encode_miss_full:
  assumes "synced u d" and "map_of (lru_iter E (lru_cache_encoder u)) f = None"
    and "length (lru_iter E (lru_cache_encoder u)) = lru_size u"
  shows "\<exists>u' m d'. LRUniCache_try_encode E u f = (u', Inr m) \<and> LRUniCache_decode D d m = (d', Inr f) \<and>
           synced u' d'"
proof -
  let ?xs = "lru_iter E (lru_cache_encoder u)" and ?ds = "lru_iter D (lru_cache_decoder d)"
  let ?e = "fst (lru_get E (lru_cache_encoder u) f)"
  have ds: "?ds = map prod.swap ?xs" and dist: "distinct (map fst ?xs)" "distinct (map snd ?xs)"
    and size: "lru_size d = lru_size u" "ecap (lru_cache_encoder u) = lru_size u"
      "lru_size u \<le> dcap (lru_cache_decoder d)"
    and ne: "?xs \<noteq> []"
    using assms(1,3) by (auto simp: lru_synced_def lru_encoder_ok_def Let_def)
  have e: "lru_iter E ?e = ?xs"
    using enc.get_law(1) [OF refl, of "lru_cache_encoder u" f] assms(2) by simp
  obtain ys k w where xs: "?xs = ys @ [(k, w)]"
    using ne by (metis append_butlast_last_id prod.collapse)
  then have lst: "last ?xs = (k, w)" by simp
  let ?e' = "lru_push E (fst (lru_pop_lru E ?e)) f w"
  let ?d' = "lru_push D (fst (lru_pop_lru D (lru_cache_decoder d))) w f"
  have notin: "f \<notin> fst ` set ys" "w \<notin> snd ` set ys"
    using assms(2) dist unfolding xs by (auto simp: map_of_eq_None_iff)
  have e': "lru_iter E ?e' = (f, w) # ys"
    using notin assms(3) xs size enc.pop_law [of ?e] e
    by (simp add: enc.push_law enc.get_law(3))
  have d': "lru_iter D ?d' = (w, f) # map prod.swap ys"
    using notin assms(3) xs size dec.pop_law [of "lru_cache_decoder d"] ds
    by (simp add: dec.push_law image_image)
  have "LRUniCache_try_encode E u f = (u\<lparr>lru_cache_encoder := ?e'\<rparr>, Inr (NotEncoded f))"
    using assms(2,3) ne lst enc.pop_law(1) [of ?e] e
    by (simp add: LRUniCache_try_encode_def split_beta enc.get_law(2) enc.len_law split: option.splits)
  moreover have "LRUniCache_decode D d (NotEncoded f) = (d\<lparr>lru_cache_decoder := ?d'\<rparr>, Inr f)"
    using assms(3) ne lst ds size dec.pop_law(1) [of "lru_cache_decoder d"]
    by (simp add: LRUniCache_decode_def split_beta dec.len_law last_map split: option.splits)
  moreover have "synced (u\<lparr>lru_cache_encoder := ?e'\<rparr>) (d\<lparr>lru_cache_decoder := ?d'\<rparr>)"
    using assms(1,3) e' d' notin dist xs size
    by (simp add: lru_synced_def lru_encoder_ok_def Let_def enc.push_law(2) dec.push_law(2)
        enc.pop_law(3) dec.pop_law(3) enc.get_law(3))
  ultimately show ?thesis by blast
qed

lemma encode_miss_room:
  assumes "synced u d" and "map_of (lru_iter E (lru_cache_encoder u)) f = None"
    and "length (lru_iter E (lru_cache_encoder u)) < lru_size u"
  shows "\<exists>u' m d'. LRUniCache_try_encode E u f = (u', Inr m) \<and> LRUniCache_decode D d m = (d', Inr f) \<and>
           synced u' d'"
proof -
  let ?xs = "lru_iter E (lru_cache_encoder u)" and ?ds = "lru_iter D (lru_cache_decoder d)"
  let ?e = "fst (lru_get E (lru_cache_encoder u) f)"
  let ?w = "lru_encoding u + 1"
  let ?e' = "lru_push E ?e f ?w" and ?d' = "lru_push D (lru_cache_decoder d) ?w f"
  have ds: "?ds = map prod.swap ?xs" and dist: "distinct (map fst ?xs)" "distinct (map snd ?xs)"
    and size: "lru_size d = lru_size u" "ecap (lru_cache_encoder u) = lru_size u"
      "lru_size u \<le> dcap (lru_cache_decoder d)" "lru_size u \<le> 2 ^ LENGTH('w)"
    and encs: "snd ` set ?xs = word_of_nat ` {1..length ?xs}" "lru_encoding u = word_of_nat (length ?xs)"
      "lru_encoding d = lru_encoding u"
    using assms(1,3) by (auto simp: lru_synced_def lru_encoder_ok_def Let_def)
  have e: "lru_iter E ?e = ?xs"
    using enc.get_law(1) [OF refl, of "lru_cache_encoder u" f] assms(2) by simp
  have notin: "f \<notin> fst ` set ?xs" "?w \<notin> snd ` set ?xs"
    using assms(2) fresh_number [OF assms(3) size(4)] encs(1,2)
    by (auto simp: map_of_eq_None_iff)
  have e': "lru_iter E ?e' = (f, ?w) # ?xs"
    using notin assms(3) size e by (simp add: enc.push_law enc.get_law(3))
  have d': "lru_iter D ?d' = (?w, f) # map prod.swap ?xs"
    using notin assms(3) size ds by (simp add: dec.push_law image_image)
  have "LRUniCache_try_encode E u f =
      (u\<lparr>lru_cache_encoder := ?e', lru_encoding := ?w\<rparr>, Inr (NotEncoded f))"
    using assms(2,3) e
    by (simp add: LRUniCache_try_encode_def split_beta enc.get_law(2) enc.len_law Let_def)
  moreover have "LRUniCache_decode D d (NotEncoded f) =
      (d\<lparr>lru_cache_decoder := ?d', lru_encoding := ?w\<rparr>, Inr f)"
    using assms(3) ds size encs(3)
    by (simp add: LRUniCache_decode_def dec.len_law Let_def)
  moreover have "synced (u\<lparr>lru_cache_encoder := ?e', lru_encoding := ?w\<rparr>)
      (d\<lparr>lru_cache_decoder := ?d', lru_encoding := ?w\<rparr>)"
    using assms(1,3) e' d' notin dist size encs
    by (simp add: lru_synced_def lru_encoder_ok_def Let_def enc.push_law(2) dec.push_law(2)
        enc.get_law(3) atLeastAtMostSuc_conv add.commute)
  ultimately show ?thesis by blast
qed

lemma encode_step:
  assumes "synced u d"
  shows "\<exists>u' m d'. LRUniCache_try_encode E u f = (u', Inr m) \<and> LRUniCache_decode D d m = (d', Inr f) \<and>
           synced u' d'"
proof -
  have "length (lru_iter E (lru_cache_encoder u)) \<le> lru_size u"
    using assms by (simp add: lru_synced_def lru_encoder_ok_def Let_def)
  then show ?thesis
    using assms encode_hit encode_miss_full encode_miss_room
    by (cases "map_of (lru_iter E (lru_cache_encoder u)) f") (auto simp: le_less)
qed

lemma new_synced:
  assumes "LRUniCache_new E D n = Inr u" and "n \<le> 2 ^ LENGTH('w)"
  shows "synced u u"
  using assms
  by (auto simp: LRUniCache_new_def lru_synced_def lru_encoder_ok_def Let_def enc.new_law dec.new_law
      split: if_splits)

lemma clone_synced:
  assumes "lru_encoder_ok E ecap u"
  shows "synced u (LRUniCache_clone E D u)"
proof -
  let ?xs = "lru_iter E (lru_cache_encoder u)"
  have "distinct (map fst (map prod.swap ?xs))" "length (map prod.swap ?xs) \<le> dcap (lru_new D (lru_size u))"
    using assms by (simp_all add: lru_encoder_ok_def Let_def o_def dec.new_law)
  from dec.push_all [OF this dec.new_law(1)]
  have "lru_iter D (lru_cache_decoder (LRUniCache_clone E D u)) = map prod.swap ?xs"
    and "dcap (lru_cache_decoder (LRUniCache_clone E D u)) = lru_size u"
    by (simp_all add: LRUniCache_clone_def rev_map foldl_map case_prod_unfold dec.new_law)
  with assms show ?thesis
    by (simp add: lru_synced_def LRUniCache_clone_def)
qed

lemma transfer_synced:
  assumes "synced u d" and "lru_size u \<le> 255"
    and "distinct (map fst (lru_iter E (lru_cache_encoder d)))"
    and "length (lru_iter E (lru_cache_encoder d)) \<le> 255"
  shows "\<exists>d'. LRUniCache_transfer E D (\<lambda>_. None) d = Inr d' \<and> synced u d'"
proof -
  have "distinct (map fst (lru_iter D (lru_cache_decoder d)))"
    "length (lru_iter D (lru_cache_decoder d)) \<le> unwrap_or None 255"
    using assms(1,2) by (auto simp: lru_synced_def lru_encoder_ok_def Let_def o_def unwrap_or_def)
  from dec.visit_seq_serialize [OF this] obtain c' where
    "LruWrapper_visit_seq D None (LruWrapper_serialize D (lru_cache_decoder d)) = Inr c'"
    "lru_iter D c' = lru_iter D (lru_cache_decoder d)" "dcap c' = 255"
    by (auto simp: unwrap_or_def)
  moreover obtain e' where
    "LruWrapper_visit_seq E None (LruWrapper_serialize E (lru_cache_encoder d)) = Inr e'"
    using enc.visit_seq_serialize [of "lru_cache_encoder d" None] assms(3,4) by (auto simp: unwrap_or_def)
  ultimately show ?thesis
    using assms(1,2) by (auto simp: LRUniCache_transfer_def Let_def result_simps lru_synced_def)
qed

end

sublocale lru_pair \<subseteq> lru: field_cache "LRUniCache_try_encode E" "LRUniCache_decode D" "lru_synced E ecap D dcap"
  by unfold_locales (rule encode_step)

context lru_pair
begin

lemma entries_size:
  "encode_entries (LRUniCache_try_encode E) u fs = (u', r) \<Longrightarrow> lru_size u' = lru_size u"
proof (induction fs arbitrary: u r)
  case (Cons f fs)
  have "lru_size (fst (LRUniCache_try_encode E u f)) = lru_size u"
    by (simp add: LRUniCache_try_encode_def split_beta Let_def split: option.splits)
  with Cons show ?case
    by (cases "LRUniCache_try_encode E u f")
      (auto simp: try_state_def split: prod.splits sum.splits)
qed simp

lemma round_trip_all:
  assumes "LRUniCache_new E D n = Inr u" and "n \<le> 2 ^ LENGTH('w)"
  shows "\<exists>u1 ms1 u2 ms2 d1 d2 d3.
    encode_entries (LRUniCache_try_encode E) u before = (u1, Inr ms1) \<and>
    decode_entries (LRUniCache_decode D) u ms1 = (d1, Inr before) \<and>
    encode_entries (LRUniCache_try_encode E) u1 later = (u2, Inr ms2) \<and>
    decode_entries (LRUniCache_decode D) d1 ms2 = (d2, Inr later) \<and>
    decode_entries (LRUniCache_decode D) (LRUniCache_clone E D u1) ms2 = (d3, Inr later) \<and>
    (n \<le> 255 \<longrightarrow> (\<exists>c d4. LRUniCache_transfer E D (\<lambda>_. None) (LRUniCache_clone E D u1) = Inr c \<and>
                       decode_entries (LRUniCache_decode D) c ms2 = (d4, Inr later)))"
proof -
  obtain u1 ms1 d1 where 1: "encode_entries (LRUniCache_try_encode E) u before = (u1, Inr ms1)"
      "decode_entries (LRUniCache_decode D) u ms1 = (d1, Inr before)" "synced u1 d1"
    using lru.round_trip [OF new_synced [OF assms]] by blast
  have ok: "lru_encoder_ok E ecap u1" and size: "lru_size u1 = n"
    using 1(3) entries_size [OF 1(1)] assms(1)
    by (auto simp: lru_synced_def LRUniCache_new_def split: if_splits)
  obtain u2 ms2 d2 where 2: "encode_entries (LRUniCache_try_encode E) u1 later = (u2, Inr ms2)"
      "decode_entries (LRUniCache_decode D) d1 ms2 = (d2, Inr later)"
    using lru.round_trip [OF 1(3)] by blast
  have dec: "\<exists>d'. decode_entries (LRUniCache_decode D) c ms2 = (d', Inr later)" if "synced u1 c" for c
    using lru.round_trip [OF that, of later] 2(1) by auto
  have "\<exists>c d4. LRUniCache_transfer E D (\<lambda>_. None) (LRUniCache_clone E D u1) = Inr c \<and>
      decode_entries (LRUniCache_decode D) c ms2 = (d4, Inr later)" if "n \<le> 255"
    using transfer_synced [OF clone_synced [OF ok]] dec that size
    by (force simp: LRUniCache_clone_def enc.new_law)
  with 1 2 dec [OF clone_synced [OF ok]] show ?thesis by blast
qed

end

section \<open>The caches on lists\<close>

text \<open>A cache as the list of its entries, most recently used first, with its capacity.\<close>

definition list_lru :: "(nat \<times> ('k \<times> 'v) list, 'k, 'v) LruCache" where
  "list_lru =
     \<lparr>lru_new = (\<lambda>n. (n, [])),
      lru_get = (\<lambda>(n, xs) k. case map_of xs k of
                   None \<Rightarrow> ((n, xs), None)
                 | Some v \<Rightarrow> ((n, (k, v) # filter (\<lambda>p. fst p \<noteq> k) xs), Some v)),
      lru_len = (\<lambda>(n, xs). length xs),
      lru_push = (\<lambda>(n, xs) k v. let ys = filter (\<lambda>p. fst p \<noteq> k) xs
                    in (n, (k, v) # (if length ys < n then ys else butlast ys))),
      lru_pop_lru = (\<lambda>(n, xs). ((n, butlast xs), if xs = [] then None else Some (last xs))),
      lru_iter = snd\<rparr>"

lemma filter_absent_key: "k \<notin> fst ` set xs \<Longrightarrow> filter (\<lambda>p. fst p \<noteq> k) xs = xs"
  by (auto simp: filter_id_conv)

interpretation list_lru: lru_cache list_lru fst
  by unfold_locales
    (auto simp: list_lru_def filter_absent_key Let_def split: prod.splits option.splits)

interpretation lru_lists: lru_pair list_lru fst list_lru fst ..

section \<open>Properties\<close>

text \<open>
  C17. What the leader encodes the followers decode: whatever was sent before, a follower that
  decodes from the start, one that starts from a clone of the leader's cache, and (up to a cache
  of 255 entries) one that got that clone in a textual format all decode the fields the leader
  sends next to exactly these fields, without panicking, also after encodings were evicted and
  reused; the cache may have as many entries as there are encodings.
\<close>

theorem lru_round_trip:
  fixes E :: "('ce, 'k, 'w :: len word) LruCache"
  assumes "lru_cache E ecap" and "lru_cache D dcap"
    and "LRUniCache_new E D n = Inr u" and "n \<le> 2 ^ LENGTH('w)"
  shows "\<exists>u1 ms1 u2 ms2 d1 d2 d3.
    encode_entries (LRUniCache_try_encode E) u before = (u1, Inr ms1) \<and>
    decode_entries (LRUniCache_decode D) u ms1 = (d1, Inr before) \<and>
    encode_entries (LRUniCache_try_encode E) u1 later = (u2, Inr ms2) \<and>
    decode_entries (LRUniCache_decode D) d1 ms2 = (d2, Inr later) \<and>
    decode_entries (LRUniCache_decode D) (LRUniCache_clone E D u1) ms2 = (d3, Inr later) \<and>
    (n \<le> 255 \<longrightarrow> (\<exists>c d4. LRUniCache_transfer E D (\<lambda>_. None) (LRUniCache_clone E D u1) = Inr c \<and>
                       decode_entries (LRUniCache_decode D) c ms2 = (d4, Inr later)))"
  using lru_pair.round_trip_all [OF lru_pair.intro [OF assms(1,2)] assms(3,4)] .

definition example_lru ::
  "(nat \<times> (nat \<times> 8 word) list, nat \<times> (8 word \<times> nat) list, 8 word) LRUniCache" where
  "example_lru = \<lparr>lru_cache_encoder = (2, []), lru_cache_decoder = (2, []), lru_encoding = 0, lru_size = 2\<rparr>"

lemma example_lru_new: "LRUniCache_new list_lru list_lru 2 = Inr example_lru"
  by (simp add: LRUniCache_new_def example_lru_def list_lru_def)

theorem lru_round_trip_witness:
  "\<exists>u1 ms1 u2 ms2 d3.
     encode_entries (LRUniCache_try_encode list_lru) example_lru [5, 6, 5] = (u1, Inr ms1) \<and>
     encode_entries (LRUniCache_try_encode list_lru) u1 [7, 5, 6] = (u2, Inr ms2) \<and>
     decode_entries (LRUniCache_decode list_lru) (LRUniCache_clone list_lru list_lru u1) ms2 =
       (d3, Inr [7, 5, 6])"
  using lru_round_trip [OF list_lru.lru_cache_axioms list_lru.lru_cache_axioms example_lru_new,
      of "[5, 6, 5]" "[7, 5, 6]"]
  by force

text \<open>
  With a format that knows the length of a sequence, a cloned cache cannot be received: its
  encoder is empty, and the empty sequence is read into a cache of capacity 0, which panics.
\<close>

theorem lru_exact_hint_panics:
  assumes "lru_cache E ecap"
  shows "LRUniCache_transfer E D Some (LRUniCache_clone E D u) =
           Inl (Panic ''called Option::unwrap() on a None value'')"
  using lru_cache.new_law(1) [OF assms]
  by (simp add: LRUniCache_transfer_def LRUniCache_clone_def LruWrapper_serialize_def
      LruWrapper_visit_seq_def unwrap_or_def result_simps Let_def)

theorem lru_exact_hint_panics_witness:
  "LRUniCache_transfer list_lru list_lru Some (LRUniCache_clone list_lru list_lru example_lru) =
     Inl (Panic ''called Option::unwrap() on a None value'')"
  by (rule lru_exact_hint_panics [OF list_lru.lru_cache_axioms])

end
