(* ===== verification/Lfu_Unicache.thy ===== *)
theory Lfu_Unicache
  imports Unicache
begin

text \<open>
  The cache with least-frequently-used eviction (\<^verbatim>\<open>omnipaxos/src/unicache/lfu/mod.rs\<close>) and the
  UniCache on it (\<^verbatim>\<open>lfu_cache.rs\<close>). A bin per frequency holds the keys used that often, the
  least recently used one first; the bins are the insertion-ordered sets of the
  \<^verbatim>\<open>linked_hash_set\<close> crate, the parameter \<open>H\<close> of the definitions with its documented behaviour in
  the locale \<open>linked_hash_set\<close>.
\<close>

section \<open>The sets of the \<^verbatim>\<open>linked_hash_set\<close> crate\<close>

record ('h, 'k) LinkedHashSet =
  lhs_default :: 'h
  lhs_insert :: "'h \<Rightarrow> 'k \<Rightarrow> 'h"
  lhs_remove :: "'h \<Rightarrow> 'k \<Rightarrow> 'h"
  lhs_pop_front :: "'h \<Rightarrow> 'h \<times> 'k option"
  lhs_is_empty :: "'h \<Rightarrow> bool"
  lhs_iter :: "'h \<Rightarrow> 'k list"

locale linked_hash_set =
  fixes H :: "('h, 'k) LinkedHashSet"
  assumes default_law: "lhs_iter H (lhs_default H) = []"
    and insert_law: "k \<notin> set (lhs_iter H h) \<Longrightarrow> lhs_iter H (lhs_insert H h k) = lhs_iter H h @ [k]"
    and remove_law: "lhs_iter H (lhs_remove H h k) = filter (\<lambda>x. x \<noteq> k) (lhs_iter H h)"
    and is_empty_law: "lhs_is_empty H h \<longleftrightarrow> lhs_iter H h = []"
    and pop_law:
      "snd (lhs_pop_front H h) = (case lhs_iter H h of [] \<Rightarrow> None | k # _ \<Rightarrow> Some k)"
      "lhs_iter H (fst (lhs_pop_front H h)) = tl (lhs_iter H h)"

section \<open>The cache\<close>

record 'v ValueCounter =
  vc_value :: 'v
  vc_count :: usize

definition ValueCounter_inc :: "'v ValueCounter \<Rightarrow> 'v ValueCounter" where
  "ValueCounter_inc vc = vc\<lparr>vc_count := usize_add (vc_count vc) 1\<rparr>"

record ('k, 'v, 'h) LFUCache =
  lfu_values :: "'k \<rightharpoonup> 'v ValueCounter"
  frequency_bin :: "usize \<rightharpoonup> 'h"
  capacity :: usize
  min_frequency :: usize

definition LFUCache_with_capacity :: "usize \<Rightarrow> (unit, ('k, 'v, 'h) LFUCache) result" where
  "LFUCache_with_capacity cap =
     (if cap = 0 then Inl (Panic ''Unable to create cache'')
      else Inr \<lparr>lfu_values = Map.empty, frequency_bin = Map.empty, capacity = cap, min_frequency = 0\<rparr>)"

definition LFUCache_len :: "('k, 'v, 'h) LFUCache \<Rightarrow> usize" where
  "LFUCache_len c = card (dom (lfu_values c))"

definition LFUCache_contains :: "('k, 'v, 'h) LFUCache \<Rightarrow> 'k \<Rightarrow> bool" where
  "LFUCache_contains c key \<longleftrightarrow> lfu_values c key \<noteq> None"

definition LFUCache_is_empty :: "('k, 'v, 'h) LFUCache \<Rightarrow> bool" where
  "LFUCache_is_empty c \<longleftrightarrow> dom (lfu_values c) = {}"

definition LFUCache_index :: "('k, 'v, 'h) LFUCache \<Rightarrow> 'k \<Rightarrow> (unit, 'v) result" where
  "LFUCache_index c key = unwrap ''called Option::unwrap() on a None value'' (map_option vc_value (lfu_values c key))"

text \<open>The iterators visit the hash map in some order \<open>order\<close> of its keys.\<close>

definition LFUCache_iter :: "'k list \<Rightarrow> ('k, 'v, 'h) LFUCache \<Rightarrow> ('k \<times> 'v) list" where
  "LFUCache_iter order c = map (\<lambda>k. (k, vc_value (the (lfu_values c k)))) order"

definition LFUCache_remove ::
  "('h, 'k) LinkedHashSet \<Rightarrow> ('k, 'v, 'h) LFUCache \<Rightarrow> 'k \<Rightarrow> ('k, 'v, 'h) LFUCache \<times> 'v option" where
  "LFUCache_remove H c key =
     (case lfu_values c key of
        Some vc \<Rightarrow>
          (c\<lparr>frequency_bin := (frequency_bin c)
               (vc_count vc \<mapsto> lhs_remove H (unwrap_or (frequency_bin c (vc_count vc)) (lhs_default H)) key),
             lfu_values := (lfu_values c)(key := None)\<rparr>, Some (vc_value vc))
      | None \<Rightarrow> (c, None))"

definition update_frequency_bin ::
  "('h, 'k) LinkedHashSet \<Rightarrow> ('k, 'v, 'h) LFUCache \<Rightarrow> 'k \<Rightarrow> ('k, 'v, 'h) LFUCache \<times> (unit, unit) result" where
  "update_frequency_bin H c key =
     (case lfu_values c key of
        None \<Rightarrow> (c, Inr ())
      | Some vc \<Rightarrow>
          (case frequency_bin c (vc_count vc) of
             None \<Rightarrow> (c, Inl (Panic ''called Option::unwrap() on a None value''))
           | Some bin \<Rightarrow>
               (let bin = lhs_remove H bin key;
                    cnt = vc_count vc;
                    c = c\<lparr>lfu_values := (lfu_values c)(key \<mapsto> ValueCounter_inc vc),
                          frequency_bin := (frequency_bin c)(cnt \<mapsto> bin)\<rparr>;
                    c = (if cnt = min_frequency c \<and> lhs_is_empty H bin
                         then c\<lparr>min_frequency := usize_add (min_frequency c) 1\<rparr> else c);
                    next_bin = unwrap_or (frequency_bin c (usize_add cnt 1)) (lhs_default H)
                in (c\<lparr>frequency_bin := (frequency_bin c)(usize_add cnt 1 \<mapsto> lhs_insert H next_bin key)\<rparr>,
                    Inr ()))))"

definition LFUCache_get ::
  "('h, 'k) LinkedHashSet \<Rightarrow> ('k, 'v, 'h) LFUCache \<Rightarrow> 'k \<Rightarrow> ('k, 'v, 'h) LFUCache \<times> (unit, 'v option) result"
  where
  "LFUCache_get H c key =
     try_state (update_frequency_bin H c key) (\<lambda>c _. (c, Inr (map_option vc_value (lfu_values c key))))"

text \<open>\<open>get_mut\<close>, with the change \<open>f\<close> its caller makes through the reference.\<close>

definition LFUCache_get_mut ::
  "('h, 'k) LinkedHashSet \<Rightarrow> ('k, 'v, 'h) LFUCache \<Rightarrow> 'k \<Rightarrow> ('v \<Rightarrow> 'v) \<Rightarrow>
   ('k, 'v, 'h) LFUCache \<times> (unit, 'v option) result" where
  "LFUCache_get_mut H c key f =
     try_state (update_frequency_bin H c key) (\<lambda>c _.
       case lfu_values c key of
         None \<Rightarrow> (c, Inr None)
       | Some vc \<Rightarrow> (c\<lparr>lfu_values := (lfu_values c)(key \<mapsto> vc\<lparr>vc_value := f (vc_value vc)\<rparr>)\<rparr>, Inr (Some (vc_value vc))))"

definition LFUCache_evict ::
  "('h, 'k) LinkedHashSet \<Rightarrow> ('k, 'v, 'h) LFUCache \<Rightarrow> ('k, 'v, 'h) LFUCache \<times> (unit, unit) result" where
  "LFUCache_evict H c =
     (case frequency_bin c (min_frequency c) of
        None \<Rightarrow> (c, Inl (Panic ''called Option::unwrap() on a None value''))
      | Some bin \<Rightarrow>
          (case lhs_pop_front H bin of
             (bin, None) \<Rightarrow> (c\<lparr>frequency_bin := (frequency_bin c)(min_frequency c \<mapsto> bin)\<rparr>,
                             Inl (Panic ''called Option::unwrap() on a None value''))
           | (bin, Some least_recently_used) \<Rightarrow>
               (c\<lparr>frequency_bin := (frequency_bin c)(min_frequency c \<mapsto> bin),
                  lfu_values := (lfu_values c)(least_recently_used := None)\<rparr>, Inr ())))"

definition evict_and_return_key ::
  "('h, 'k) LinkedHashSet \<Rightarrow> ('k, 'v, 'h) LFUCache \<Rightarrow> ('k, 'v, 'h) LFUCache \<times> (unit, 'k option) result" where
  "evict_and_return_key H c =
     (case frequency_bin c (min_frequency c) of
        None \<Rightarrow> (c, Inr None)
      | Some bin \<Rightarrow>
          (case lhs_pop_front H bin of
             (bin, None) \<Rightarrow> (c\<lparr>frequency_bin := (frequency_bin c)(min_frequency c \<mapsto> bin)\<rparr>,
                             Inl (Panic ''called Option::unwrap() on a None value''))
           | (bin, Some least_recently_used) \<Rightarrow>
               (c\<lparr>frequency_bin := (frequency_bin c)(min_frequency c \<mapsto> bin),
                  lfu_values := (lfu_values c)(least_recently_used := None)\<rparr>,
                Inr (Some least_recently_used))))"

definition evict_and_return_value ::
  "('h, 'k) LinkedHashSet \<Rightarrow> ('k, 'v, 'h) LFUCache \<Rightarrow> ('k, 'v, 'h) LFUCache \<times> (unit, 'v option) result" where
  "evict_and_return_value H c =
     (case frequency_bin c (min_frequency c) of
        None \<Rightarrow> (c, Inr None)
      | Some bin \<Rightarrow>
          (case lhs_pop_front H bin of
             (bin, None) \<Rightarrow> (c\<lparr>frequency_bin := (frequency_bin c)(min_frequency c \<mapsto> bin)\<rparr>,
                             Inl (Panic ''called Option::unwrap() on a None value''))
           | (bin, Some least_recently_used) \<Rightarrow>
               (c\<lparr>frequency_bin := (frequency_bin c)(min_frequency c \<mapsto> bin),
                  lfu_values := (lfu_values c)(least_recently_used := None)\<rparr>,
                Inr (map_option vc_value (lfu_values c least_recently_used)))))"

definition LFUCache_set ::
  "('h, 'k) LinkedHashSet \<Rightarrow> ('k, 'v, 'h) LFUCache \<Rightarrow> 'k \<Rightarrow> 'v \<Rightarrow>
   ('k, 'v, 'h) LFUCache \<times> (unit, unit) result" where
  "LFUCache_set H c key v =
     (case lfu_values c key of
        Some vc \<Rightarrow>
          update_frequency_bin H (c\<lparr>lfu_values := (lfu_values c)(key \<mapsto> vc\<lparr>vc_value := v\<rparr>)\<rparr>) key
      | None \<Rightarrow>
          try_state (if capacity c \<le> LFUCache_len c then LFUCache_evict H c else (c, Inr ())) (\<lambda>c _.
            let c = c\<lparr>lfu_values := (lfu_values c)(key \<mapsto> \<lparr>vc_value = v, vc_count = 1\<rparr>), min_frequency := 1\<rparr>;
                bin = unwrap_or (frequency_bin c (min_frequency c)) (lhs_default H)
            in (c\<lparr>frequency_bin := (frequency_bin c)(min_frequency c \<mapsto> lhs_insert H bin key)\<rparr>, Inr ())))"

text \<open>
  The wire format of a bin (\<^verbatim>\<open>lfu/serialization.rs\<close>) is the sequence of its keys, least recently
  used first; a received cache is rebuilt bin by bin. The hash maps around them are the
  serialiser's own.
\<close>

definition LinkedHashSetWrapper_serialize :: "('h, 'k) LinkedHashSet \<Rightarrow> 'h \<Rightarrow> 'k list" where
  "LinkedHashSetWrapper_serialize H h = lhs_iter H h"

definition LinkedHashSetWrapper_visit_seq :: "('h, 'k) LinkedHashSet \<Rightarrow> 'k list \<Rightarrow> 'h" where
  "LinkedHashSetWrapper_visit_seq H items = foldl (lhs_insert H) (lhs_default H) items"

definition LFUCache_transfer ::
  "('h, 'k) LinkedHashSet \<Rightarrow> ('k, 'v, 'h) LFUCache \<Rightarrow> ('k, 'v, 'h) LFUCache" where
  "LFUCache_transfer H c =
     c\<lparr>frequency_bin :=
         map_option (LinkedHashSetWrapper_visit_seq H \<circ> LinkedHashSetWrapper_serialize H) \<circ> frequency_bin c\<rparr>"

section \<open>The invariant\<close>

text \<open>
  The bins hold exactly the keys with their count, each once, and a full cache has a key in the
  bin it evicts from.
\<close>

definition lfu_bin :: "('h, 'k) LinkedHashSet \<Rightarrow> ('k, 'v, 'h) LFUCache \<Rightarrow> usize \<Rightarrow> 'k list" where
  "lfu_bin H c f = (case frequency_bin c f of None \<Rightarrow> [] | Some h \<Rightarrow> lhs_iter H h)"

definition lfu_invar :: "('h, 'k) LinkedHashSet \<Rightarrow> ('k, 'v, 'h) LFUCache \<Rightarrow> bool" where
  "lfu_invar H c \<longleftrightarrow>
     0 < capacity c \<and> finite (dom (lfu_values c)) \<and> LFUCache_len c \<le> capacity c \<and>
     (\<forall>f. distinct (lfu_bin H c f)) \<and>
     (\<forall>f k. k \<in> set (lfu_bin H c f) \<longleftrightarrow> (\<exists>vc. lfu_values c k = Some vc \<and> vc_count vc = f)) \<and>
     (LFUCache_len c = capacity c \<longrightarrow> lfu_bin H c (min_frequency c) \<noteq> [])"

lemma lfu_invarI:
  assumes "0 < capacity c" and "finite (dom (lfu_values c))" and "LFUCache_len c \<le> capacity c"
    and "\<And>f. distinct (lfu_bin H c f)"
    and "\<And>f k. k \<in> set (lfu_bin H c f) \<longleftrightarrow> (\<exists>vc. lfu_values c k = Some vc \<and> vc_count vc = f)"
    and "LFUCache_len c = capacity c \<Longrightarrow> lfu_bin H c (min_frequency c) \<noteq> []"
  shows "lfu_invar H c"
  using assms by (simp add: lfu_invar_def)

lemma lfu_invarD:
  assumes "lfu_invar H c"
  shows "0 < capacity c" "finite (dom (lfu_values c))" "LFUCache_len c \<le> capacity c"
    "distinct (lfu_bin H c f)"
    "k \<in> set (lfu_bin H c f) \<longleftrightarrow> (\<exists>vc. lfu_values c k = Some vc \<and> vc_count vc = f)"
    "LFUCache_len c = capacity c \<Longrightarrow> lfu_bin H c (min_frequency c) \<noteq> []"
  using assms by (simp_all add: lfu_invar_def)

text \<open>The entries of a bin with their values.\<close>

definition lfu_view :: "('h, 'k) LinkedHashSet \<Rightarrow> ('k, 'v, 'h) LFUCache \<Rightarrow> usize \<Rightarrow> ('k \<times> 'v) list" where
  "lfu_view H c f = map (\<lambda>k. (k, vc_value (the (lfu_values c k)))) (lfu_bin H c f)"

lemma usize_add_one_neq [simp]:
  "usize_add n 1 \<noteq> n" "n \<noteq> usize_add n 1" "usize_add n (Suc 0) \<noteq> n" "n \<noteq> usize_add n (Suc 0)"
proof -
  show "usize_add n 1 \<noteq> n"
  proof (cases "n + 1 < usize_limit")
    case False
    then have "n = usize_add n 1 \<Longrightarrow> n = usize_limit - 1"
      using usize_add_lt [of n 1] by linarith
    then show ?thesis by (auto simp: usize_add_def)
  qed (simp add: usize_add_def)
  then show "n \<noteq> usize_add n 1" "usize_add n (Suc 0) \<noteq> n" "n \<noteq> usize_add n (Suc 0)" by auto
qed

lemma lfu_view_mem:
  assumes "lfu_invar H c"
  shows "(k, v) \<in> set (lfu_view H c f) \<longleftrightarrow> lfu_values c k = Some \<lparr>vc_value = v, vc_count = f\<rparr>"
  using assms by (force simp: lfu_view_def lfu_invar_def)

lemma lfu_view_distinct:
  assumes "lfu_invar H c"
  shows "distinct (map fst (lfu_view H c f))"
  using assms by (simp add: lfu_view_def lfu_invar_def o_def)

lemma lfu_view_filter:
  "map (\<lambda>k. (k, vc_value (the (lfu_values c k)))) (filter (\<lambda>x. x \<noteq> k) (lfu_bin H c f)) =
   filter (\<lambda>p. fst p \<noteq> k) (lfu_view H c f)"
  by (simp add: lfu_view_def filter_map o_def)

context linked_hash_set
begin

lemma visit_seq_items:
  assumes "distinct (xs @ lhs_iter H h)"
  shows "lhs_iter H (foldl (lhs_insert H) h xs) = lhs_iter H h @ xs"
  using assms by (induction xs arbitrary: h) (auto simp: insert_law)

lemma transfer_bin:
  assumes "lfu_invar H c"
  shows "lfu_bin H (LFUCache_transfer H c) = lfu_bin H c"
proof
  fix f
  have "distinct (lfu_bin H c f)" using assms by (rule lfu_invarD(4))
  then show "lfu_bin H (LFUCache_transfer H c) f = lfu_bin H c f"
    by (auto simp: lfu_bin_def LFUCache_transfer_def LinkedHashSetWrapper_serialize_def
        LinkedHashSetWrapper_visit_seq_def visit_seq_items default_law split: option.splits)
qed

lemma transfer_invar:
  assumes "lfu_invar H c"
  shows "lfu_invar H (LFUCache_transfer H c)" "lfu_view H (LFUCache_transfer H c) = lfu_view H c"
proof -
  have same: "lfu_values (LFUCache_transfer H c) = lfu_values c"
      "capacity (LFUCache_transfer H c) = capacity c" "min_frequency (LFUCache_transfer H c) = min_frequency c"
    by (simp_all add: LFUCache_transfer_def)
  show "lfu_invar H (LFUCache_transfer H c)"
    using assms transfer_bin [OF assms] same by (simp add: lfu_invar_def LFUCache_len_def)
  show "lfu_view H (LFUCache_transfer H c) = lfu_view H c"
    using transfer_bin [OF assms] same by (simp add: lfu_view_def fun_eq_iff)
qed

lemma bin_default: "lhs_iter H (unwrap_or (frequency_bin c f) (lhs_default H)) = lfu_bin H c f"
  by (simp add: lfu_bin_def unwrap_or_def default_law split: option.splits)

lemma update_hit:
  assumes "lfu_invar H c" and "lfu_values c k = Some vc" and "n = vc_count vc"
  obtains c' where "update_frequency_bin H c k = (c', Inr ())"
    and "lfu_values c' = (lfu_values c)(k \<mapsto> ValueCounter_inc vc)" and "capacity c' = capacity c"
    and "lfu_bin H c' = (lfu_bin H c)(n := filter (\<lambda>x. x \<noteq> k) (lfu_bin H c n),
                                     usize_add n 1 := lfu_bin H c (usize_add n 1) @ [k])"
    and "min_frequency c' =
           (if n = min_frequency c \<and> filter (\<lambda>x. x \<noteq> k) (lfu_bin H c n) = [] then usize_add n 1
            else min_frequency c)"
proof -
  have bins: "k \<in> set (lfu_bin H c n)" "k \<notin> set (lfu_bin H c (usize_add n 1))"
    using assms by (auto simp: lfu_invar_def)
  from bins(1) obtain bin where bin: "frequency_bin c n = Some bin" "lhs_iter H bin = lfu_bin H c n"
    by (cases "frequency_bin c n") (auto simp: lfu_bin_def)
  let ?low = "filter (\<lambda>x. x \<noteq> k) (lfu_bin H c n)"
  let ?next = "lhs_insert H (unwrap_or (frequency_bin c (usize_add n 1)) (lhs_default H)) k"
  let ?c = "c\<lparr>lfu_values := (lfu_values c)(k \<mapsto> ValueCounter_inc vc),
              frequency_bin := (frequency_bin c)(n \<mapsto> lhs_remove H bin k, usize_add n 1 \<mapsto> ?next),
              min_frequency := (if n = min_frequency c \<and> ?low = [] then usize_add n 1 else min_frequency c)\<rparr>"
  have "update_frequency_bin H c k = (?c, Inr ())"
    using assms(2,3) bin by (auto simp: update_frequency_bin_def Let_def is_empty_law remove_law)
  moreover have "lhs_iter H ?next = lfu_bin H c (usize_add n 1) @ [k]"
    using bins(2) by (simp add: insert_law bin_default)
  then have "lfu_bin H ?c = (lfu_bin H c)(n := ?low, usize_add n 1 := lfu_bin H c (usize_add n 1) @ [k])"
    using bin by (auto simp: lfu_bin_def remove_law fun_eq_iff)
  ultimately show thesis
    using that [of ?c] by simp
qed

lemma update_hit_view:
  assumes "lfu_invar H c" and "lfu_values c k = Some vc" and "n = vc_count vc"
  obtains c' where "update_frequency_bin H c k = (c', Inr ())" and "lfu_invar H c'"
    and "lfu_values c' = (lfu_values c)(k \<mapsto> ValueCounter_inc vc)" and "capacity c' = capacity c"
    and "LFUCache_len c' = LFUCache_len c"
    and "lfu_view H c' = (lfu_view H c)(n := filter (\<lambda>p. fst p \<noteq> k) (lfu_view H c n),
                                       usize_add n 1 := lfu_view H c (usize_add n 1) @ [(k, vc_value vc)])"
    and "min_frequency c' =
           (if n = min_frequency c \<and> filter (\<lambda>p. fst p \<noteq> k) (lfu_view H c n) = [] then usize_add n 1
            else min_frequency c)"
proof -
  obtain c' where c': "update_frequency_bin H c k = (c', Inr ())"
    "lfu_values c' = (lfu_values c)(k \<mapsto> ValueCounter_inc vc)" "capacity c' = capacity c"
    "lfu_bin H c' = (lfu_bin H c)(n := filter (\<lambda>x. x \<noteq> k) (lfu_bin H c n),
                                 usize_add n 1 := lfu_bin H c (usize_add n 1) @ [k])"
    "min_frequency c' =
       (if n = min_frequency c \<and> filter (\<lambda>x. x \<noteq> k) (lfu_bin H c n) = [] then usize_add n 1
        else min_frequency c)"
    using update_hit [OF assms] by metis
  have dom: "dom (lfu_values c') = dom (lfu_values c)" "LFUCache_len c' = LFUCache_len c"
    using assms(2) c'(2) by (auto simp: LFUCache_len_def insert_absorb domI)
  have empty: "filter (\<lambda>x. x \<noteq> k) (lfu_bin H c n) = [] \<longleftrightarrow> filter (\<lambda>p. fst p \<noteq> k) (lfu_view H c n) = []"
    by (simp flip: lfu_view_filter)
  have "lfu_invar H c'"
  proof (rule lfu_invarI)
    show "0 < capacity c'" "finite (dom (lfu_values c'))" "LFUCache_len c' \<le> capacity c'"
      using lfu_invarD(1-3) [OF assms(1)] dom c'(3) by simp_all
    show "distinct (lfu_bin H c' f)" for f
      using lfu_invarD(4,5) [OF assms(1)] assms(2,3) by (simp add: c'(4))
    show "x \<in> set (lfu_bin H c' f) \<longleftrightarrow> (\<exists>vc. lfu_values c' x = Some vc \<and> vc_count vc = f)" for f x
    proof (cases "x = k")
      case True
      have "k \<in> set (lfu_bin H c f) \<longleftrightarrow> f = n"
        using lfu_invarD(5) [OF assms(1), of k f] assms(2,3) by simp blast
      moreover have "lfu_values c' k = Some (ValueCounter_inc vc)"
        by (simp add: c'(2))
      ultimately show ?thesis
        using True assms(3) by (simp add: c'(4) ValueCounter_inc_def)
    next
      case False
      then show ?thesis
        using lfu_invarD(5) [OF assms(1), of x f] by (auto simp: c'(2,4))
    qed
    show "lfu_bin H c' (min_frequency c') \<noteq> []" if "LFUCache_len c' = capacity c'"
      using lfu_invarD(6) [OF assms(1)] that dom(2) by (auto simp: c'(3-5))
  qed
  moreover have "vc_value (the (lfu_values c' x)) = vc_value (the (lfu_values c x))" for x
    using assms(2) c'(2) by (simp add: ValueCounter_inc_def)
  then have "lfu_view H c' = (lfu_view H c)(n := filter (\<lambda>p. fst p \<noteq> k) (lfu_view H c n),
      usize_add n 1 := lfu_view H c (usize_add n 1) @ [(k, vc_value vc)])"
    using c'(4) assms(2) lfu_view_filter [of c k H n] by (auto simp: lfu_view_def fun_eq_iff)
  ultimately show thesis
    using that c' dom empty by simp
qed

lemma set_new_view:
  assumes "lfu_invar H c" and "lfu_values c k = None" and "LFUCache_len c < capacity c"
  obtains c' where "LFUCache_set H c k v = (c', Inr ())" and "lfu_invar H c'"
    and "lfu_values c' = (lfu_values c)(k \<mapsto> \<lparr>vc_value = v, vc_count = 1\<rparr>)"
    and "capacity c' = capacity c" and "LFUCache_len c' = LFUCache_len c + 1"
    and "lfu_view H c' = (lfu_view H c)(1 := lfu_view H c 1 @ [(k, v)])" and "min_frequency c' = 1"
proof -
  let ?next = "lhs_insert H (unwrap_or (frequency_bin c 1) (lhs_default H)) k"
  let ?c = "c\<lparr>lfu_values := (lfu_values c)(k \<mapsto> \<lparr>vc_value = v, vc_count = 1\<rparr>), min_frequency := 1,
              frequency_bin := (frequency_bin c)(1 \<mapsto> ?next)\<rparr>"
  have notin: "k \<notin> set (lfu_bin H c f)" for f
    using assms(1,2) by (simp add: lfu_invar_def)
  have run: "LFUCache_set H c k v = (?c, Inr ())"
    using assms(2,3) by (simp add: LFUCache_set_def Let_def result_simps)
  have bin: "lfu_bin H ?c = (lfu_bin H c)(1 := lfu_bin H c 1 @ [k])"
    using notin by (auto simp: lfu_bin_def insert_law bin_default fun_eq_iff)
  have len: "LFUCache_len ?c = LFUCache_len c + 1"
    using assms(1,2) by (simp add: LFUCache_len_def lfu_invar_def domIff)
  have "lfu_invar H ?c"
    using assms notin bin len by (auto simp: lfu_invar_def)
  moreover have "lfu_view H ?c = (lfu_view H c)(1 := lfu_view H c 1 @ [(k, v)])"
    using notin bin by (auto simp: lfu_view_def fun_eq_iff)
  ultimately show thesis
    using that [of ?c] run len by simp
qed

lemma evict_view:
  assumes "lfu_invar H c" and "lfu_view H c (min_frequency c) = (k, v) # rest"
  obtains c' where "LFUCache_evict H c = (c', Inr ())" and "evict_and_return_key H c = (c', Inr (Some k))"
    and "evict_and_return_value H c = (c', Inr (Some v))" and "lfu_invar H c'"
    and "lfu_values c' = (lfu_values c)(k := None)"
    and "capacity c' = capacity c" and "LFUCache_len c = LFUCache_len c' + 1"
    and "lfu_view H c' = (lfu_view H c)(min_frequency c := rest)" and "min_frequency c' = min_frequency c"
proof -
  from assms(2) obtain ks where ks: "lfu_bin H c (min_frequency c) = k # ks"
    and v: "v = vc_value (the (lfu_values c k))"
    and rest: "rest = map (\<lambda>k. (k, vc_value (the (lfu_values c k)))) ks"
    by (auto simp: lfu_view_def)
  then obtain bin where bin: "frequency_bin c (min_frequency c) = Some bin" "lhs_iter H bin = k # ks"
    by (cases "frequency_bin c (min_frequency c)") (auto simp: lfu_bin_def)
  obtain bin' where pop: "lhs_pop_front H bin = (bin', Some k)" "lhs_iter H bin' = ks"
    using pop_law [of bin] bin(2) by (cases "lhs_pop_front H bin") auto
  let ?c = "c\<lparr>frequency_bin := (frequency_bin c)(min_frequency c \<mapsto> bin'),
              lfu_values := (lfu_values c)(k := None)\<rparr>"
  obtain vc where vc: "lfu_values c k = Some vc" "vc_count vc = min_frequency c"
    using assms(1) ks by (metis lfu_invar_def list.set_intros(1))
  have notin: "k \<notin> set (lfu_bin H c f)" if "f \<noteq> min_frequency c" for f
    using assms(1) vc that by (auto simp: lfu_invar_def)
  have kks: "k \<notin> set ks"
    using assms(1) ks by (metis distinct.simps(2) lfu_invar_def)
  have binc: "lfu_bin H ?c = (lfu_bin H c)(min_frequency c := ks)"
    using pop by (auto simp: lfu_bin_def fun_eq_iff)
  have len: "LFUCache_len c = LFUCache_len ?c + 1"
    using lfu_invarD(2) [OF assms(1)] vc card.remove [of "dom (lfu_values c)" k]
    by (simp add: LFUCache_len_def domI)
  have "lfu_invar H ?c"
  proof (rule lfu_invarI)
    show "0 < capacity ?c" "finite (dom (lfu_values ?c))" "LFUCache_len ?c \<le> capacity ?c"
      using lfu_invarD(1-3) [OF assms(1)] len by simp_all
    show "distinct (lfu_bin H ?c f)" for f
      using lfu_invarD(4) [OF assms(1), of f] ks by (auto simp: binc)
    show "x \<in> set (lfu_bin H ?c f) \<longleftrightarrow> (\<exists>vc. lfu_values ?c x = Some vc \<and> vc_count vc = f)" for f x
      using lfu_invarD(5) [OF assms(1), of x f] ks notin [of f] kks vc
      by (cases "x = k") (auto simp: binc)
    show "lfu_bin H ?c (min_frequency ?c) \<noteq> []" if "LFUCache_len ?c = capacity ?c"
      using lfu_invarD(3) [OF assms(1)] len that by simp
  qed
  moreover have "lfu_view H ?c = (lfu_view H c)(min_frequency c := rest)"
    using notin kks binc rest by (auto simp: lfu_view_def fun_eq_iff)
  ultimately show thesis
    using that [of ?c] bin(1) pop vc v len
    by (simp add: LFUCache_evict_def evict_and_return_key_def evict_and_return_value_def)
qed

end

section \<open>The UniCache\<close>

record ('k, 'v, 'he, 'hd) LFUniCache =
  lfu_cache_encoder :: "('k, 'v, 'he) LFUCache"
  lfu_cache_decoder :: "('v, 'k, 'hd) LFUCache"
  lfu_encoding :: 'v
  lfu_size :: usize

definition LFUniCache_new :: "usize \<Rightarrow> (unit, ('k, 'w :: len word, 'he, 'hd) LFUniCache) result" where
  "LFUniCache_new sz =
     try_result (LFUCache_with_capacity sz) (\<lambda>e.
     try_result (LFUCache_with_capacity sz) (\<lambda>d.
       Inr \<lparr>lfu_cache_encoder = e, lfu_cache_decoder = d, lfu_encoding = 0, lfu_size = sz\<rparr>))"

definition LFUniCache_try_encode ::
  "('he, 'k) LinkedHashSet \<Rightarrow> ('k, 'w :: len word, 'he, 'hd) LFUniCache \<Rightarrow> 'k \<Rightarrow>
   ('k, 'w word, 'he, 'hd) LFUniCache \<times> (unit, ('k, 'w word) MaybeEncoded) result" where
  "LFUniCache_try_encode H u field =
     (let (e, r) = LFUCache_get H (lfu_cache_encoder u) field
      in try_state (u\<lparr>lfu_cache_encoder := e\<rparr>, r) (\<lambda>u hit. case hit of
           Some enc \<Rightarrow> (u, Inr (Encoded enc))
         | None \<Rightarrow>
             if LFUCache_len (lfu_cache_encoder u) = lfu_size u then
               (let (e, r) = evict_and_return_value H (lfu_cache_encoder u)
                in try_state (u\<lparr>lfu_cache_encoder := e\<rparr>,
                     try_result r (unwrap ''called Option::unwrap() on a None value'')) (\<lambda>u popped_encoding.
                     let (e, r) = LFUCache_set H (lfu_cache_encoder u) field popped_encoding
                     in try_state (u\<lparr>lfu_cache_encoder := e\<rparr>, r) (\<lambda>u _. (u, Inr (NotEncoded field)))))
             else
               (let added = lfu_encoding u + 1;
                    (e, r) = LFUCache_set H (lfu_cache_encoder u) field added
                in try_state (u\<lparr>lfu_cache_encoder := e\<rparr>, r) (\<lambda>u _.
                     (u\<lparr>lfu_encoding := added\<rparr>, Inr (NotEncoded field))))))"

definition LFUniCache_decode ::
  "('hd, 'w word) LinkedHashSet \<Rightarrow> ('k, 'w :: len word, 'he, 'hd) LFUniCache \<Rightarrow> ('k, 'w word) MaybeEncoded \<Rightarrow>
   ('k, 'w word, 'he, 'hd) LFUniCache \<times> (unit, 'k) result" where
  "LFUniCache_decode H u res =
     (case res of
        Encoded enc \<Rightarrow>
          (let (d, r) = LFUCache_get H (lfu_cache_decoder u) enc
           in (u\<lparr>lfu_cache_decoder := d\<rparr>,
               try_result r (unwrap ''called Option::unwrap() on a None value'')))
      | NotEncoded field \<Rightarrow>
          if LFUCache_len (lfu_cache_decoder u) = lfu_size u then
            (let (d, r) = evict_and_return_key H (lfu_cache_decoder u)
             in try_state (u\<lparr>lfu_cache_decoder := d\<rparr>,
                  try_result r (unwrap ''called Option::unwrap() on a None value'')) (\<lambda>u popped_encoded.
                  let (d, r) = LFUCache_set H (lfu_cache_decoder u) popped_encoded field
                  in try_state (u\<lparr>lfu_cache_decoder := d\<rparr>, r) (\<lambda>u _. (u, Inr field))))
          else
            (let added = lfu_encoding u + 1;
                 (d, r) = LFUCache_set H (lfu_cache_decoder u) added field
             in try_state (u\<lparr>lfu_cache_decoder := d\<rparr>, r) (\<lambda>u _.
                  (u\<lparr>lfu_encoding := added\<rparr>, Inr field))))"

definition LFUniCache_transfer ::
  "('he, 'k) LinkedHashSet \<Rightarrow> ('hd, 'v) LinkedHashSet \<Rightarrow> ('k, 'v, 'he, 'hd) LFUniCache \<Rightarrow>
   ('k, 'v, 'he, 'hd) LFUniCache" where
  "LFUniCache_transfer HE HD u =
     u\<lparr>lfu_cache_encoder := LFUCache_transfer HE (lfu_cache_encoder u),
       lfu_cache_decoder := LFUCache_transfer HD (lfu_cache_decoder u)\<rparr>"

text \<open>
  \<open>clone\<close>: the decoder for a follower, filled by visiting the hash map of the encoder in the
  order \<open>order\<close> of its keys.
\<close>

fun set_all ::
  "('hd, 'v) LinkedHashSet \<Rightarrow> ('v, 'k, 'hd) LFUCache \<Rightarrow> ('v \<times> 'k) list \<Rightarrow>
   ('v, 'k, 'hd) LFUCache \<times> (unit, unit) result" where
  "set_all H c [] = (c, Inr ())"
| "set_all H c ((k, v) # xs) = try_state (LFUCache_set H c k v) (\<lambda>c _. set_all H c xs)"

definition LFUniCache_clone ::
  "('hd, 'v) LinkedHashSet \<Rightarrow> 'k list \<Rightarrow> ('k, 'v, 'he, 'hd) LFUniCache \<Rightarrow>
   (unit, ('k, 'v, 'he, 'hd) LFUniCache) result" where
  "LFUniCache_clone H order u =
     try_result (LFUCache_with_capacity (lfu_size u)) (\<lambda>d.
       let (d, r) = set_all H d
             (map (\<lambda>k. (vc_value (the (lfu_values (lfu_cache_encoder u) k)), k)) order)
       in try_result r (\<lambda>_.
          try_result (LFUCache_with_capacity 1) (\<lambda>e.
            Inr \<lparr>lfu_cache_encoder = e, lfu_cache_decoder = d,
                 lfu_encoding = lfu_encoding u, lfu_size = lfu_size u\<rparr>)))"

section \<open>Encoder and decoder in step\<close>

definition lfu_synced ::
  "('he, 'k) LinkedHashSet \<Rightarrow> ('hd, 'w word) LinkedHashSet \<Rightarrow> ('k, 'w :: len word, 'he, 'hd) LFUniCache \<Rightarrow>
   ('k, 'w word, 'he, 'hd) LFUniCache \<Rightarrow> bool" where
  "lfu_synced HE HD u d \<longleftrightarrow>
     (let e = lfu_cache_encoder u; c = lfu_cache_decoder d; n = lfu_size u
      in lfu_invar HE e \<and> lfu_invar HD c \<and> n \<le> 2 ^ LENGTH('w) \<and>
         capacity e = n \<and> capacity c = n \<and> lfu_size d = n \<and> min_frequency c = min_frequency e \<and>
         LFUCache_len c = LFUCache_len e \<and> lfu_view HD c = map prod.swap \<circ> lfu_view HE e \<and>
         (LFUCache_len e < n \<longrightarrow>
            dom (lfu_values c) = word_of_nat ` {1..LFUCache_len e} \<and>
            lfu_encoding u = word_of_nat (LFUCache_len e) \<and> lfu_encoding d = lfu_encoding u))"

locale lfu_pair = enc: linked_hash_set HE + dec: linked_hash_set HD
  for HE :: "('he, 'k) LinkedHashSet" and HD :: "('hd, 'w :: len word) LinkedHashSet"
begin

lemma encode_hit:
  assumes "lfu_synced HE HD u d" and "lfu_values (lfu_cache_encoder u) f = Some vc"
  shows "\<exists>u' m d'. LFUniCache_try_encode HE u f = (u', Inr m) \<and> LFUniCache_decode HD d m = (d', Inr f) \<and>
           lfu_synced HE HD u' d'"
proof -
  let ?e = "lfu_cache_encoder u" and ?c = "lfu_cache_decoder d" and ?n = "vc_count vc"
  let ?w = "vc_value vc"
  have inv: "lfu_invar HE ?e" "lfu_invar HD ?c"
    and view: "lfu_view HD ?c = map prod.swap \<circ> lfu_view HE ?e"
    using assms(1) by (simp_all add: lfu_synced_def Let_def)
  have mem: "(f, ?w) \<in> set (lfu_view HE ?e ?n)"
    using lfu_view_mem [OF inv(1)] assms(2) by simp
  then have dvc: "lfu_values ?c ?w = Some \<lparr>vc_value = f, vc_count = ?n\<rparr>"
    using lfu_view_mem [OF inv(2)] view by force
  have "distinct (map snd (lfu_view HE ?e ?n))"
    using lfu_view_distinct [OF inv(2), of ?n] view by (simp add: o_def)
  note swap = map_swap_filter [OF lfu_view_distinct [OF inv(1)] this mem]
  obtain e' where e': "update_frequency_bin HE ?e f = (e', Inr ())" "lfu_invar HE e'"
    "lfu_values e' = (lfu_values ?e)(f \<mapsto> ValueCounter_inc vc)" "capacity e' = capacity ?e"
    "LFUCache_len e' = LFUCache_len ?e"
    "lfu_view HE e' = (lfu_view HE ?e)(?n := filter (\<lambda>p. fst p \<noteq> f) (lfu_view HE ?e ?n),
        usize_add ?n 1 := lfu_view HE ?e (usize_add ?n 1) @ [(f, ?w)])"
    "min_frequency e' =
        (if ?n = min_frequency ?e \<and> filter (\<lambda>p. fst p \<noteq> f) (lfu_view HE ?e ?n) = [] then usize_add ?n 1
         else min_frequency ?e)"
    using enc.update_hit_view [OF inv(1) assms(2) refl] by metis
  obtain c' where c': "update_frequency_bin HD ?c ?w = (c', Inr ())" "lfu_invar HD c'"
    "lfu_values c' = (lfu_values ?c)(?w \<mapsto> ValueCounter_inc \<lparr>vc_value = f, vc_count = ?n\<rparr>)"
    "capacity c' = capacity ?c" "LFUCache_len c' = LFUCache_len ?c"
    "lfu_view HD c' = (lfu_view HD ?c)(?n := filter (\<lambda>p. fst p \<noteq> ?w) (lfu_view HD ?c ?n),
        usize_add ?n 1 := lfu_view HD ?c (usize_add ?n 1) @ [(?w, f)])"
    "min_frequency c' =
        (if ?n = min_frequency ?c \<and> filter (\<lambda>p. fst p \<noteq> ?w) (lfu_view HD ?c ?n) = [] then usize_add ?n 1
         else min_frequency ?c)"
    using dec.update_hit_view [OF inv(2) dvc, of ?n] by auto
  have "lfu_view HD c' = map prod.swap \<circ> lfu_view HE e'"
    unfolding c'(6) e'(6) view using swap by (auto simp: fun_eq_iff)
  moreover have empty: "filter (\<lambda>p. fst p \<noteq> ?w) (lfu_view HD ?c ?n) = [] \<longleftrightarrow>
      filter (\<lambda>p. fst p \<noteq> f) (lfu_view HE ?e ?n) = []"
    using swap view by (metis comp_apply map_is_Nil_conv)
  have "min_frequency ?c = min_frequency ?e"
    using assms(1) by (simp add: lfu_synced_def Let_def)
  then have "min_frequency c' = min_frequency e'"
    unfolding e'(7) c'(7) empty by (simp only:)
  moreover have "dom (lfu_values c') = dom (lfu_values ?c)"
    using c'(3) dvc by auto
  ultimately have "lfu_synced HE HD (u\<lparr>lfu_cache_encoder := e'\<rparr>) (d\<lparr>lfu_cache_decoder := c'\<rparr>)"
    using assms(1) e'(2,4,5) c'(2,4,5) by (simp add: lfu_synced_def Let_def)
  moreover have "LFUniCache_try_encode HE u f = (u\<lparr>lfu_cache_encoder := e'\<rparr>, Inr (Encoded ?w))"
    using e'(1,3) by (simp add: LFUniCache_try_encode_def LFUCache_get_def result_simps ValueCounter_inc_def)
  moreover have "LFUniCache_decode HD d (Encoded ?w) = (d\<lparr>lfu_cache_decoder := c'\<rparr>, Inr f)"
    using c'(1,3) by (simp add: LFUniCache_decode_def LFUCache_get_def result_simps ValueCounter_inc_def)
  ultimately show ?thesis by blast
qed

lemma encode_miss_full:
  assumes "lfu_synced HE HD u d" and "lfu_values (lfu_cache_encoder u) f = None"
    and "LFUCache_len (lfu_cache_encoder u) = lfu_size u"
  shows "\<exists>u' m d'. LFUniCache_try_encode HE u f = (u', Inr m) \<and> LFUniCache_decode HD d m = (d', Inr f) \<and>
           lfu_synced HE HD u' d'"
proof -
  let ?e = "lfu_cache_encoder u" and ?c = "lfu_cache_decoder d"
  let ?i = "min_frequency ?e"
  have inv: "lfu_invar HE ?e" "lfu_invar HD ?c"
    and view: "lfu_view HD ?c = map prod.swap \<circ> lfu_view HE ?e"
    and size: "lfu_size d = lfu_size u" "capacity ?e = lfu_size u" "capacity ?c = lfu_size u"
      "LFUCache_len ?c = LFUCache_len ?e" "min_frequency ?c = ?i"
    using assms(1) by (simp_all add: lfu_synced_def Let_def)
  have "lfu_bin HE ?e ?i \<noteq> []"
    using lfu_invarD(6) [OF inv(1)] assms(3) size(2) by simp
  then obtain k w rest where ev: "lfu_view HE ?e ?i = (k, w) # rest"
    by (cases "lfu_view HE ?e ?i") (auto simp: lfu_view_def)
  then have dv: "lfu_view HD ?c (min_frequency ?c) = (w, k) # map prod.swap rest"
    using view size(5) by simp
  obtain e1 where e1: "evict_and_return_value HE ?e = (e1, Inr (Some w))" "lfu_invar HE e1"
    "lfu_values e1 = (lfu_values ?e)(k := None)" "capacity e1 = capacity ?e"
    "LFUCache_len ?e = LFUCache_len e1 + 1" "lfu_view HE e1 = (lfu_view HE ?e)(?i := rest)"
    using enc.evict_view [OF inv(1) ev] by metis
  obtain c1 where c1: "evict_and_return_key HD ?c = (c1, Inr (Some w))" "lfu_invar HD c1"
    "lfu_values c1 = (lfu_values ?c)(w := None)" "capacity c1 = capacity ?c"
    "LFUCache_len ?c = LFUCache_len c1 + 1"
    "lfu_view HD c1 = (lfu_view HD ?c)(?i := map prod.swap rest)"
    using dec.evict_view [OF inv(2) dv] size(5) by metis
  have none: "lfu_values e1 f = None" "lfu_values c1 w = None"
    using assms(2) e1(3) c1(3) by simp_all
  have room: "LFUCache_len e1 < capacity e1" "LFUCache_len c1 < capacity c1"
    using e1(4,5) c1(4,5) assms(3) size by simp_all
  obtain e2 where e2: "LFUCache_set HE e1 f w = (e2, Inr ())" "lfu_invar HE e2" "capacity e2 = capacity e1"
    "LFUCache_len e2 = LFUCache_len e1 + 1" "lfu_view HE e2 = (lfu_view HE e1)(1 := lfu_view HE e1 1 @ [(f, w)])"
    "min_frequency e2 = 1"
    using enc.set_new_view [OF e1(2) none(1) room(1)] by metis
  obtain c2 where c2: "LFUCache_set HD c1 w f = (c2, Inr ())" "lfu_invar HD c2" "capacity c2 = capacity c1"
    "LFUCache_len c2 = LFUCache_len c1 + 1" "lfu_view HD c2 = (lfu_view HD c1)(1 := lfu_view HD c1 1 @ [(w, f)])"
    "min_frequency c2 = 1"
    using dec.set_new_view [OF c1(2) none(2) room(2)] by metis
  have "lfu_view HD c2 = map prod.swap \<circ> lfu_view HE e2"
    unfolding c2(5) e2(5) c1(6) e1(6) view by (auto simp: fun_eq_iff)
  then have "lfu_synced HE HD (u\<lparr>lfu_cache_encoder := e2\<rparr>) (d\<lparr>lfu_cache_decoder := c2\<rparr>)"
    using assms(1,3) e1(4,5) c1(4,5) e2(2,3,4,6) c2(2,3,4,6) size
    by (simp add: lfu_synced_def Let_def)
  moreover have "LFUniCache_try_encode HE u f = (u\<lparr>lfu_cache_encoder := e2\<rparr>, Inr (NotEncoded f))"
    using assms(2,3) e1(1) e2(1)
    by (simp add: LFUniCache_try_encode_def LFUCache_get_def update_frequency_bin_def result_simps)
  moreover have "LFUniCache_decode HD d (NotEncoded f) = (d\<lparr>lfu_cache_decoder := c2\<rparr>, Inr f)"
    using assms(3) size(1,4) c1(1) c2(1) by (simp add: LFUniCache_decode_def result_simps)
  ultimately show ?thesis by blast
qed

lemma encode_miss_room:
  assumes "lfu_synced HE HD u d" and "lfu_values (lfu_cache_encoder u) f = None"
    and "LFUCache_len (lfu_cache_encoder u) < lfu_size u"
  shows "\<exists>u' m d'. LFUniCache_try_encode HE u f = (u', Inr m) \<and> LFUniCache_decode HD d m = (d', Inr f) \<and>
           lfu_synced HE HD u' d'"
proof -
  let ?e = "lfu_cache_encoder u" and ?c = "lfu_cache_decoder d" and ?w = "lfu_encoding u + 1"
  have inv: "lfu_invar HE ?e" "lfu_invar HD ?c"
    and view: "lfu_view HD ?c = map prod.swap \<circ> lfu_view HE ?e"
    and size: "lfu_size d = lfu_size u" "capacity ?e = lfu_size u" "capacity ?c = lfu_size u"
      "LFUCache_len ?c = LFUCache_len ?e" "lfu_size u \<le> 2 ^ LENGTH('w)"
    and encs: "dom (lfu_values ?c) = word_of_nat ` {1..LFUCache_len ?e}"
      "lfu_encoding u = word_of_nat (LFUCache_len ?e)" "lfu_encoding d = lfu_encoding u"
    using assms(1,3) by (simp_all add: lfu_synced_def Let_def)
  have fresh: "lfu_values ?c ?w = None"
    using fresh_number [OF assms(3) size(5)] encs(1,2) by (auto simp: domIff)
  obtain e2 where e2: "LFUCache_set HE ?e f ?w = (e2, Inr ())" "lfu_invar HE e2" "capacity e2 = capacity ?e"
    "LFUCache_len e2 = LFUCache_len ?e + 1" "lfu_view HE e2 = (lfu_view HE ?e)(1 := lfu_view HE ?e 1 @ [(f, ?w)])"
    "min_frequency e2 = 1"
    using enc.set_new_view [OF inv(1) assms(2)] assms(3) size(2) by metis
  obtain c2 where c2: "LFUCache_set HD ?c ?w f = (c2, Inr ())" "lfu_invar HD c2" "capacity c2 = capacity ?c"
    "lfu_values c2 = (lfu_values ?c)(?w \<mapsto> \<lparr>vc_value = f, vc_count = 1\<rparr>)"
    "LFUCache_len c2 = LFUCache_len ?c + 1" "lfu_view HD c2 = (lfu_view HD ?c)(1 := lfu_view HD ?c 1 @ [(?w, f)])"
    "min_frequency c2 = 1"
    using dec.set_new_view [OF inv(2) fresh] assms(3) size(3,4) by metis
  have "lfu_view HD c2 = map prod.swap \<circ> lfu_view HE e2"
    unfolding c2(6) e2(5) view by (auto simp: fun_eq_iff)
  moreover have "dom (lfu_values c2) = word_of_nat ` {1..LFUCache_len e2}"
    using c2(4) e2(4) encs(1,2) by (simp add: atLeastAtMostSuc_conv add.commute)
  ultimately have "lfu_synced HE HD (u\<lparr>lfu_cache_encoder := e2, lfu_encoding := ?w\<rparr>)
      (d\<lparr>lfu_cache_decoder := c2, lfu_encoding := ?w\<rparr>)"
    using e2(2,3,4,6) c2(2,3,5,7) size encs(2) by (simp add: lfu_synced_def Let_def add.commute)
  moreover have "LFUniCache_try_encode HE u f =
      (u\<lparr>lfu_cache_encoder := e2, lfu_encoding := ?w\<rparr>, Inr (NotEncoded f))"
    using assms(2,3) e2(1)
    by (simp add: LFUniCache_try_encode_def LFUCache_get_def update_frequency_bin_def result_simps Let_def)
  moreover have "LFUniCache_decode HD d (NotEncoded f) =
      (d\<lparr>lfu_cache_decoder := c2, lfu_encoding := ?w\<rparr>, Inr f)"
    using assms(3) size(1,4) c2(1) encs(3) by (simp add: LFUniCache_decode_def result_simps Let_def)
  ultimately show ?thesis by blast
qed

lemma encode_step:
  assumes "lfu_synced HE HD u d"
  shows "\<exists>u' m d'. LFUniCache_try_encode HE u f = (u', Inr m) \<and> LFUniCache_decode HD d m = (d', Inr f) \<and>
           lfu_synced HE HD u' d'"
proof -
  have "LFUCache_len (lfu_cache_encoder u) \<le> lfu_size u"
    using assms by (auto simp: lfu_synced_def Let_def lfu_invar_def)
  then show ?thesis
    using assms encode_hit encode_miss_full encode_miss_room
    by (cases "lfu_values (lfu_cache_encoder u) f") (auto simp: le_less)
qed

lemma new_synced:
  assumes "LFUniCache_new n = Inr u" and "n \<le> 2 ^ LENGTH('w)"
  shows "lfu_synced HE HD u u"
  using assms
  by (auto simp: LFUniCache_new_def LFUCache_with_capacity_def lfu_synced_def lfu_invar_def lfu_view_def
      lfu_bin_def LFUCache_len_def fun_eq_iff result_simps split: if_splits)

end

sublocale lfu_pair \<subseteq> lfu: field_cache "LFUniCache_try_encode HE" "LFUniCache_decode HD" "lfu_synced HE HD"
  by unfold_locales (rule encode_step)

context lfu_pair
begin

lemma transfer_synced:
  assumes "lfu_synced HE HD u d"
  shows "lfu_synced HE HD u (LFUniCache_transfer HE HD d)"
proof -
  let ?c = "lfu_cache_decoder d"
  have inv: "lfu_invar HD ?c" using assms by (simp add: lfu_synced_def Let_def)
  have "lfu_values (LFUCache_transfer HD ?c) = lfu_values ?c"
      "capacity (LFUCache_transfer HD ?c) = capacity ?c" "min_frequency (LFUCache_transfer HD ?c) = min_frequency ?c"
    by (simp_all add: LFUCache_transfer_def)
  then show ?thesis
    using assms dec.transfer_invar [OF inv]
    by (simp add: lfu_synced_def Let_def LFUniCache_transfer_def LFUCache_len_def)
qed

lemma round_trip_new:
  assumes "LFUniCache_new n = Inr u" and "n \<le> 2 ^ LENGTH('w)"
  shows "\<exists>u1 ms1 d1 u2 ms2 d2 d3.
    encode_entries (LFUniCache_try_encode HE) u before = (u1, Inr ms1) \<and>
    decode_entries (LFUniCache_decode HD) u ms1 = (d1, Inr before) \<and>
    encode_entries (LFUniCache_try_encode HE) u1 later = (u2, Inr ms2) \<and>
    decode_entries (LFUniCache_decode HD) d1 ms2 = (d2, Inr later) \<and>
    decode_entries (LFUniCache_decode HD) (LFUniCache_transfer HE HD d1) ms2 = (d3, Inr later)"
proof -
  obtain u1 ms1 d1 where 1: "encode_entries (LFUniCache_try_encode HE) u before = (u1, Inr ms1)"
      "decode_entries (LFUniCache_decode HD) u ms1 = (d1, Inr before)" "lfu_synced HE HD u1 d1"
    using lfu.round_trip [OF new_synced [OF assms]] by blast
  obtain u2 ms2 d2 where 2: "encode_entries (LFUniCache_try_encode HE) u1 later = (u2, Inr ms2)"
      "decode_entries (LFUniCache_decode HD) d1 ms2 = (d2, Inr later)"
    using lfu.round_trip [OF 1(3)] by blast
  moreover have "\<exists>d3. decode_entries (LFUniCache_decode HD) (LFUniCache_transfer HE HD d1) ms2 = (d3, Inr later)"
    using lfu.round_trip [OF transfer_synced [OF 1(3)], of later] 2(1) by auto
  ultimately show ?thesis using 1 by blast
qed

end

section \<open>Reading the cache\<close>

text \<open>A value that was set is there, under its key, and iterating finds each key with its value.\<close>

theorem lfu_set_index:
  assumes "LFUCache_set H c key v = (c', Inr ())"
  shows "LFUCache_contains c' key \<and> LFUCache_index c' key = Inr v \<and> \<not> LFUCache_is_empty c'"
proof -
  have "\<exists>vc. lfu_values c' key = Some vc \<and> vc_value vc = v"
  proof (cases "lfu_values c key")
    case None
    with assms show ?thesis
      by (auto simp: LFUCache_set_def try_state_def Let_def split: prod.splits sum.splits if_splits)
  next
    case (Some vc)
    with assms show ?thesis
      by (auto simp: LFUCache_set_def update_frequency_bin_def ValueCounter_inc_def Let_def split: option.splits)
  qed
  then show ?thesis by (auto simp: LFUCache_contains_def LFUCache_index_def LFUCache_is_empty_def dom_def)
qed

theorem lfu_iter_exact:
  assumes "set order = dom (lfu_values c)"
  shows "map_of (LFUCache_iter order c) k = map_option vc_value (lfu_values c k)"
proof -
  have "map_of (LFUCache_iter order c) k = (if k \<in> set order then Some (vc_value (the (lfu_values c k))) else None)"
    unfolding LFUCache_iter_def by (induction order) auto
  then show ?thesis using assms by (auto simp: dom_def)
qed

section \<open>Runs of the cache\<close>

datatype ('k, 'v) LFUOp = LfuSet 'k 'v | LfuGet 'k | LfuRemove 'k

fun lfu_step ::
  "('h, 'k) LinkedHashSet \<Rightarrow> ('k, 'v, 'h) LFUCache \<Rightarrow> ('k, 'v) LFUOp \<Rightarrow>
   ('k, 'v, 'h) LFUCache \<times> (unit, unit) result" where
  "lfu_step H c (LfuSet k v) = LFUCache_set H c k v"
| "lfu_step H c (LfuGet k) = try_state (LFUCache_get H c k) (\<lambda>c _. (c, Inr ()))"
| "lfu_step H c (LfuRemove k) = (fst (LFUCache_remove H c k), Inr ())"

fun lfu_run ::
  "('h, 'k) LinkedHashSet \<Rightarrow> ('k, 'v, 'h) LFUCache \<Rightarrow> ('k, 'v) LFUOp list \<Rightarrow>
   ('k, 'v, 'h) LFUCache \<times> (unit, unit) result" where
  "lfu_run H c [] = (c, Inr ())"
| "lfu_run H c (p # ps) = try_state (lfu_step H c p) (\<lambda>c _. lfu_run H c ps)"

text \<open>
  After \<open>m\<close> operations every count is between 1 and \<open>m\<close>, and a full cache evicts from the bin of
  the least count.
\<close>

definition lfu_least :: "('h, 'k) LinkedHashSet \<Rightarrow> nat \<Rightarrow> ('k, 'v, 'h) LFUCache \<Rightarrow> bool" where
  "lfu_least H m c \<longleftrightarrow> lfu_invar H c \<and>
     (\<forall>k vc. lfu_values c k = Some vc \<longrightarrow> 1 \<le> vc_count vc \<and> vc_count vc \<le> m) \<and>
     (LFUCache_len c = capacity c \<longrightarrow>
        (\<forall>k vc. lfu_values c k = Some vc \<longrightarrow> min_frequency c \<le> vc_count vc))"

context linked_hash_set
begin

lemma update_least:
  assumes "lfu_least H m c" and "m + 1 < usize_limit" and "lfu_values c k = Some vc"
  shows "\<exists>c'. update_frequency_bin H c k = (c', Inr ()) \<and> lfu_least H (m + 1) c' \<and> capacity c' = capacity c \<and>
           lfu_values c' = (lfu_values c)(k \<mapsto> ValueCounter_inc vc)"
proof -
  let ?n = "vc_count vc"
  have inv: "lfu_invar H c" and cnt: "\<And>k vc. lfu_values c k = Some vc \<Longrightarrow> 1 \<le> vc_count vc \<and> vc_count vc \<le> m"
    and least: "\<And>k vc. LFUCache_len c = capacity c \<Longrightarrow> lfu_values c k = Some vc \<Longrightarrow> min_frequency c \<le> vc_count vc"
    using assms(1) by (auto simp: lfu_least_def)
  have n: "usize_add ?n 1 = ?n + 1"
    using cnt [OF assms(3)] assms(2) by (simp add: usize_add_exact)
  obtain c' where c': "update_frequency_bin H c k = (c', Inr ())" "lfu_invar H c'"
    "lfu_values c' = (lfu_values c)(k \<mapsto> ValueCounter_inc vc)" "capacity c' = capacity c"
    "LFUCache_len c' = LFUCache_len c"
    "min_frequency c' =
       (if ?n = min_frequency c \<and> filter (\<lambda>p. fst p \<noteq> k) (lfu_view H c ?n) = [] then ?n + 1
        else min_frequency c)"
    using update_hit_view [OF inv assms(3) refl] n by metis
  have "min_frequency c' \<le> vc_count vx" if "LFUCache_len c = capacity c" "lfu_values c' x = Some vx" for x vx
  proof (cases "x = k")
    case True
    then show ?thesis
      using that c'(3,6) least [OF that(1) assms(3)] n by (auto simp: ValueCounter_inc_def)
  next
    case False
    then have x: "lfu_values c x = Some vx" using that(2) c'(3) by simp
    then have "(x, vc_value vx) \<in> set (lfu_view H c (vc_count vx))"
      using lfu_view_mem [OF inv] by simp
    then have "filter (\<lambda>p. fst p \<noteq> k) (lfu_view H c ?n) = [] \<Longrightarrow> vc_count vx \<noteq> ?n"
      using False by (fastforce simp: filter_empty_conv)
    then show ?thesis
      using c'(6) least [OF that(1) x] by auto
  qed
  moreover have "1 \<le> vc_count vx \<and> vc_count vx \<le> m + 1" if "lfu_values c' x = Some vx" for x vx
    using that c'(3) cnt [OF assms(3)] cnt [of x] n
    by (cases "x = k") (auto simp: ValueCounter_inc_def le_Suc_eq)
  ultimately have "lfu_least H (m + 1) c'"
    using c'(2,4,5) by (auto simp: lfu_least_def)
  with c' show ?thesis by blast
qed

text \<open>A new key in a full cache replaces one with the least count.\<close>

lemma set_full_least:
  assumes "lfu_least H m c" and "lfu_values c k = None" and "LFUCache_len c = capacity c"
  shows "\<exists>x vx c'. lfu_values c x = Some vx \<and>
           (\<forall>y vy. lfu_values c y = Some vy \<longrightarrow> vc_count vx \<le> vc_count vy) \<and>
           LFUCache_set H c k v = (c', Inr ()) \<and> lfu_invar H c' \<and> capacity c' = capacity c \<and>
           min_frequency c' = 1 \<and>
           lfu_values c' = (lfu_values c)(x := None, k \<mapsto> \<lparr>vc_value = v, vc_count = 1\<rparr>)"
proof -
  have inv: "lfu_invar H c"
    and least: "\<And>k vc. lfu_values c k = Some vc \<Longrightarrow> min_frequency c \<le> vc_count vc"
    using assms(1,3) by (auto simp: lfu_least_def)
  have "lfu_bin H c (min_frequency c) \<noteq> []"
    using lfu_invarD(6) [OF inv] assms(3) by simp
  then obtain x w rest where view: "lfu_view H c (min_frequency c) = (x, w) # rest"
    by (cases "lfu_view H c (min_frequency c)") (auto simp: lfu_view_def)
  then have x: "lfu_values c x = Some \<lparr>vc_value = w, vc_count = min_frequency c\<rparr>"
    using lfu_view_mem [OF inv, of x w "min_frequency c"] by simp
  obtain c1 where c1: "LFUCache_evict H c = (c1, Inr ())" "lfu_invar H c1"
    "lfu_values c1 = (lfu_values c)(x := None)" "capacity c1 = capacity c" "LFUCache_len c = LFUCache_len c1 + 1"
    using evict_view [OF inv view] by metis
  have none: "lfu_values c1 k = None" and room: "LFUCache_len c1 < capacity c1"
    using assms(2,3) c1(3-5) by simp_all
  obtain c2 where c2: "LFUCache_set H c1 k v = (c2, Inr ())" "lfu_invar H c2"
    "lfu_values c2 = (lfu_values c1)(k \<mapsto> \<lparr>vc_value = v, vc_count = 1\<rparr>)" "capacity c2 = capacity c1"
    "min_frequency c2 = 1"
    using set_new_view [OF c1(2) none room] by metis
  have "LFUCache_set H c k v = LFUCache_set H c1 k v"
    using assms(2,3) none room c1(1) by (simp add: LFUCache_set_def result_simps)
  then show ?thesis
    using c1(3,4) c2 x least
    by (intro exI [of _ x] exI [of _ "\<lparr>vc_value = w, vc_count = min_frequency c\<rparr>"] exI [of _ c2]) simp
qed

lemma set_new_least:
  assumes "lfu_least H m c" and "lfu_values c k = None"
  shows "\<exists>c'. LFUCache_set H c k v = (c', Inr ()) \<and> lfu_least H (m + 1) c' \<and> capacity c' = capacity c"
proof -
  have inv: "lfu_invar H c" and cnt: "\<And>k vc. lfu_values c k = Some vc \<Longrightarrow> 1 \<le> vc_count vc \<and> vc_count vc \<le> m"
    using assms(1) by (auto simp: lfu_least_def)
  obtain c' where c': "LFUCache_set H c k v = (c', Inr ())" "lfu_invar H c'" "capacity c' = capacity c"
    "min_frequency c' = 1"
    and vals: "\<And>y vy. lfu_values c' y = Some vy \<Longrightarrow> y \<noteq> k \<Longrightarrow> lfu_values c y = Some vy"
      "\<And>vk. lfu_values c' k = Some vk \<Longrightarrow> vc_count vk = 1"
  proof (cases "LFUCache_len c < capacity c")
    case True
    obtain c' where "LFUCache_set H c k v = (c', Inr ())" "lfu_invar H c'" "capacity c' = capacity c"
      "min_frequency c' = 1" "lfu_values c' = (lfu_values c)(k \<mapsto> \<lparr>vc_value = v, vc_count = 1\<rparr>)"
      using set_new_view [OF inv assms(2) True] by metis
    then show thesis by (intro that [of c']) auto
  next
    case False
    then have "LFUCache_len c = capacity c"
      using lfu_invarD(3) [OF inv] by simp
    from set_full_least [OF assms this, of v] obtain x c' where
      "LFUCache_set H c k v = (c', Inr ())" "lfu_invar H c'" "capacity c' = capacity c" "min_frequency c' = 1"
      "lfu_values c' = (lfu_values c)(x := None, k \<mapsto> \<lparr>vc_value = v, vc_count = 1\<rparr>)"
      by blast
    then show thesis by (intro that [of c']) (auto split: if_splits)
  qed
  have "1 \<le> vc_count vy \<and> vc_count vy \<le> m + 1" if "lfu_values c' y = Some vy" for y vy
    using that vals(1) [OF that] vals(2) cnt [of y vy] by (cases "y = k") auto
  then have "lfu_least H (m + 1) c'"
    using c' by (simp add: lfu_least_def)
  with c' show ?thesis by blast
qed

lemma remove_least:
  assumes "lfu_least H m c"
  shows "lfu_least H m (fst (LFUCache_remove H c k)) \<and> capacity (fst (LFUCache_remove H c k)) = capacity c"
proof (cases "lfu_values c k")
  case None
  then show ?thesis using assms by (simp add: LFUCache_remove_def)
next
  case (Some vc)
  let ?c = "fst (LFUCache_remove H c k)"
  have inv: "lfu_invar H c" using assms by (simp add: lfu_least_def)
  have c: "lfu_values ?c = (lfu_values c)(k := None)" "capacity ?c = capacity c"
    using Some by (simp_all add: LFUCache_remove_def)
  have bin: "lfu_bin H ?c = (lfu_bin H c)(vc_count vc := filter (\<lambda>x. x \<noteq> k) (lfu_bin H c (vc_count vc)))"
    using Some by (auto simp: LFUCache_remove_def lfu_bin_def fun_eq_iff remove_law unwrap_or_def default_law
        split: option.splits)
  have len: "LFUCache_len c = LFUCache_len ?c + 1"
    using lfu_invarD(2) [OF inv] Some card.remove [of "dom (lfu_values c)" k]
    by (simp add: LFUCache_len_def c(1) domI)
  have "lfu_invar H ?c"
  proof (rule lfu_invarI)
    show "0 < capacity ?c" "finite (dom (lfu_values ?c))" "LFUCache_len ?c \<le> capacity ?c"
      using lfu_invarD(1-3) [OF inv] len by (simp_all add: c)
    show "distinct (lfu_bin H ?c f)" for f
      using lfu_invarD(4) [OF inv] by (simp add: bin)
    show "x \<in> set (lfu_bin H ?c f) \<longleftrightarrow> (\<exists>vc. lfu_values ?c x = Some vc \<and> vc_count vc = f)" for f x
      using lfu_invarD(5) [OF inv, of x f] Some by (cases "x = k") (auto simp: bin c(1))
    show "lfu_bin H ?c (min_frequency ?c) \<noteq> []" if "LFUCache_len ?c = capacity ?c"
      using lfu_invarD(3) [OF inv] len that by (simp add: c(2))
  qed
  moreover have "LFUCache_len ?c \<noteq> capacity ?c"
    using lfu_invarD(3) [OF inv] len c(2) by simp
  ultimately show ?thesis
    using assms c by (simp add: lfu_least_def)
qed

lemma value_least:
  assumes "lfu_least H m c" and "lfu_values c k = Some vc"
  shows "lfu_least H m (c\<lparr>lfu_values := (lfu_values c)(k \<mapsto> vc\<lparr>vc_value := v\<rparr>)\<rparr>)"
proof -
  let ?c = "c\<lparr>lfu_values := (lfu_values c)(k \<mapsto> vc\<lparr>vc_value := v\<rparr>)\<rparr>"
  have inv: "lfu_invar H c" using assms(1) by (simp add: lfu_least_def)
  have bin: "lfu_bin H ?c = lfu_bin H c" by (simp add: lfu_bin_def fun_eq_iff)
  have len: "LFUCache_len ?c = LFUCache_len c"
    using assms(2) by (simp add: LFUCache_len_def insert_absorb domI)
  have "lfu_invar H ?c"
  proof (rule lfu_invarI)
    show "0 < capacity ?c" "finite (dom (lfu_values ?c))" "LFUCache_len ?c \<le> capacity ?c" "distinct (lfu_bin H ?c f)"
        for f
      using lfu_invarD(1-4) [OF inv] len bin by simp_all
    show "x \<in> set (lfu_bin H ?c f) \<longleftrightarrow> (\<exists>vc. lfu_values ?c x = Some vc \<and> vc_count vc = f)" for f x
      using lfu_invarD(5) [OF inv, of x f] assms(2) by (cases "x = k") (auto simp: bin)
    show "lfu_bin H ?c (min_frequency ?c) \<noteq> []" if "LFUCache_len ?c = capacity ?c"
      using lfu_invarD(6) [OF inv] len that by (simp add: bin)
  qed
  with assms len show ?thesis by (auto simp: lfu_least_def)
qed

lemma least_mono: "lfu_least H m c \<Longrightarrow> lfu_least H (m + 1) c"
  by (fastforce simp: lfu_least_def)

lemma step_least:
  assumes "lfu_least H m c" and "m + 1 < usize_limit"
  shows "\<exists>c'. lfu_step H c p = (c', Inr ()) \<and> lfu_least H (m + 1) c' \<and> capacity c' = capacity c"
proof -
  show ?thesis
  proof (cases p)
    case (LfuSet k v)
    show ?thesis
    proof (cases "lfu_values c k")
      case None
      then show ?thesis using set_new_least [OF assms(1)] LfuSet by simp
    next
      case (Some vc)
      let ?c = "c\<lparr>lfu_values := (lfu_values c)(k \<mapsto> vc\<lparr>vc_value := v\<rparr>)\<rparr>"
      from assms(1) Some have "lfu_least H m ?c" by (rule value_least)
      from update_least [OF this assms(2), of k "vc\<lparr>vc_value := v\<rparr>"] Some LfuSet show ?thesis
        by (auto simp: LFUCache_set_def)
    qed
  next
    case (LfuGet k)
    show ?thesis
    proof (cases "lfu_values c k")
      case None
      then show ?thesis
        using LfuGet least_mono [OF assms(1)] by (simp add: LFUCache_get_def update_frequency_bin_def result_simps)
    next
      case (Some vc)
      from update_least [OF assms this] LfuGet show ?thesis
        by (auto simp: LFUCache_get_def result_simps)
    qed
  next
    case (LfuRemove k)
    then show ?thesis using remove_least [OF assms(1), of k] least_mono [of m "fst (LFUCache_remove H c k)"] by simp
  qed
qed

lemma run_least:
  assumes "lfu_least H m c" and "m + length ps < usize_limit"
  shows "\<exists>c'. lfu_run H c ps = (c', Inr ()) \<and> lfu_least H (m + length ps) c' \<and> capacity c' = capacity c"
  using assms
proof (induction ps arbitrary: m c)
  case (Cons p ps)
  from Cons.prems have "m + 1 < usize_limit" by simp
  from step_least [OF Cons.prems(1) this, of p] obtain c1 where
    c1: "lfu_step H c p = (c1, Inr ())" "lfu_least H (m + 1) c1" "capacity c1 = capacity c" by blast
  have "m + 1 + length ps < usize_limit" using Cons.prems(2) by simp
  from Cons.IH [OF c1(2) this] c1(1,3) show ?case by (auto simp: result_simps)
qed simp

lemma new_least:
  assumes "LFUCache_with_capacity n = Inr c"
  shows "lfu_least H 0 c \<and> capacity c = n"
  using assms
  by (auto simp: LFUCache_with_capacity_def lfu_least_def lfu_invar_def LFUCache_len_def lfu_bin_def
      split: if_splits)

end

section \<open>The caches on lists\<close>

definition list_hash_set :: "('k list, 'k) LinkedHashSet" where
  "list_hash_set =
     \<lparr>lhs_default = [],
      lhs_insert = (\<lambda>xs k. filter (\<lambda>x. x \<noteq> k) xs @ [k]),
      lhs_remove = (\<lambda>xs k. filter (\<lambda>x. x \<noteq> k) xs),
      lhs_pop_front = (\<lambda>xs. (tl xs, case xs of [] \<Rightarrow> None | k # _ \<Rightarrow> Some k)),
      lhs_is_empty = (\<lambda>xs. xs = []),
      lhs_iter = (\<lambda>xs. xs)\<rparr>"

interpretation list_set: linked_hash_set list_hash_set
  by unfold_locales (auto simp: list_hash_set_def filter_id_conv)

interpretation lfu_lists: lfu_pair list_hash_set list_hash_set ..

definition example_lfu :: "(nat, 8 word, nat list, 8 word list) LFUniCache" where
  "example_lfu =
     \<lparr>lfu_cache_encoder =
        \<lparr>lfu_values = Map.empty, frequency_bin = Map.empty, capacity = 2, min_frequency = 0\<rparr>,
      lfu_cache_decoder =
        \<lparr>lfu_values = Map.empty, frequency_bin = Map.empty, capacity = 2, min_frequency = 0\<rparr>,
      lfu_encoding = 0, lfu_size = 2\<rparr>"

lemma example_lfu_new: "LFUniCache_new 2 = Inr example_lfu"
  by (simp add: LFUniCache_new_def LFUCache_with_capacity_def example_lfu_def result_simps)

section \<open>Properties\<close>

text \<open>
  The cache keeps what it promises over every sequence of fewer than \<open>2 ^ 64\<close> insertions,
  look-ups and removals: no operation panics, there are never more entries than the capacity, and
  a new key in a full cache replaces exactly one key, one that was used least often.
\<close>

theorem lfu_evicts_least_frequent:
  assumes "linked_hash_set H" and "LFUCache_with_capacity n = Inr c" and "length ps < usize_limit"
  shows "\<exists>c'. lfu_run H c ps = (c', Inr ()) \<and> LFUCache_len c' \<le> n \<and>
    (lfu_values c' k = None \<and> LFUCache_len c' = n \<longrightarrow>
      (\<exists>x vx c''. lfu_values c' x = Some vx \<and>
         (\<forall>y vy. lfu_values c' y = Some vy \<longrightarrow> vc_count vx \<le> vc_count vy) \<and>
         LFUCache_set H c' k v = (c'', Inr ()) \<and>
         lfu_values c'' = (lfu_values c')(x := None, k \<mapsto> \<lparr>vc_value = v, vc_count = 1\<rparr>)))"
proof -
  from linked_hash_set.new_least [OF assms(1,2)] have "lfu_least H 0 c" "capacity c = n" by auto
  then obtain c' where c': "lfu_run H c ps = (c', Inr ())" "lfu_least H (length ps) c'" "capacity c' = n"
    using linked_hash_set.run_least [OF assms(1), of 0 c ps] assms(3) by auto
  moreover from c'(2,3) have "LFUCache_len c' \<le> n"
    by (auto simp: lfu_least_def lfu_invar_def)
  moreover have "\<exists>x vx c''. lfu_values c' x = Some vx \<and>
      (\<forall>y vy. lfu_values c' y = Some vy \<longrightarrow> vc_count vx \<le> vc_count vy) \<and>
      LFUCache_set H c' k v = (c'', Inr ()) \<and>
      lfu_values c'' = (lfu_values c')(x := None, k \<mapsto> \<lparr>vc_value = v, vc_count = 1\<rparr>)"
    if "lfu_values c' k = None" "LFUCache_len c' = n"
  proof -
    have "LFUCache_len c' = capacity c'" using that(2) c'(3) by simp
    from linked_hash_set.set_full_least [OF assms(1) c'(2) that(1) this, of v] show ?thesis
      by (elim exE conjE) (intro exI conjI)
  qed
  ultimately show ?thesis by simp
qed

definition example_lfu_cache :: "(nat, nat, nat list) LFUCache" where
  "example_lfu_cache = \<lparr>lfu_values = Map.empty, frequency_bin = Map.empty, capacity = 2, min_frequency = 0\<rparr>"

theorem lfu_evicts_least_frequent_witness:
  "\<exists>c'. lfu_run list_hash_set example_lfu_cache [LfuSet 1 10, LfuSet 2 20, LfuGet 1] = (c', Inr ()) \<and>
        LFUCache_len c' \<le> 2"
proof -
  have "LFUCache_with_capacity 2 = Inr example_lfu_cache"
    by (simp add: LFUCache_with_capacity_def example_lfu_cache_def)
  from lfu_evicts_least_frequent [OF list_set.linked_hash_set_axioms this,
      of "[LfuSet 1 10, LfuSet 2 20, LfuGet 1]" 3 30] show ?thesis by fastforce
qed

text \<open>
  A follower that decodes from the start decodes every sequence of fields the leader encodes
  to exactly these fields, without panicking, also when encodings are evicted and reused; and so
  does a node that receives the serialised cache of such a follower.
\<close>

theorem lfu_round_trip:
  fixes HD :: "('hd, 'w :: len word) LinkedHashSet"
  assumes "linked_hash_set HE" and "linked_hash_set HD"
    and "LFUniCache_new n = Inr u" and "n \<le> 2 ^ LENGTH('w)"
  shows "\<exists>u1 ms1 d1 u2 ms2 d2 d3.
    encode_entries (LFUniCache_try_encode HE) u before = (u1, Inr ms1) \<and>
    decode_entries (LFUniCache_decode HD) u ms1 = (d1, Inr before) \<and>
    encode_entries (LFUniCache_try_encode HE) u1 later = (u2, Inr ms2) \<and>
    decode_entries (LFUniCache_decode HD) d1 ms2 = (d2, Inr later) \<and>
    decode_entries (LFUniCache_decode HD) (LFUniCache_transfer HE HD d1) ms2 = (d3, Inr later)"
  using lfu_pair.round_trip_new [OF lfu_pair.intro [OF assms(1,2)] assms(3,4)] .

theorem lfu_round_trip_witness:
  "\<exists>u1 ms1 d1 u2 ms2 d2.
     encode_entries (LFUniCache_try_encode list_hash_set) example_lfu [5, 6, 5] = (u1, Inr ms1) \<and>
     decode_entries (LFUniCache_decode list_hash_set) example_lfu ms1 = (d1, Inr [5, 6, 5]) \<and>
     encode_entries (LFUniCache_try_encode list_hash_set) u1 [7, 6, 5] = (u2, Inr ms2) \<and>
     decode_entries (LFUniCache_decode list_hash_set) d1 ms2 = (d2, Inr [7, 6, 5])"
  using lfu_round_trip [OF list_set.linked_hash_set_axioms list_set.linked_hash_set_axioms example_lfu_new,
      of "[5, 6, 5]" "[7, 6, 5]"]
  by force

text \<open>
  A clone does not stay in step: it forgets how often an encoding was used. Here the leader
  has sent the fields 5 (three times) and 6; a follower starts from a clone of its cache, and the
  leader sends 7, 8 and 5 again. In whatever order the clone visits the leader's hash map, the
  follower decodes the last field to 8 (or 7) without noticing.
\<close>

theorem lfu_clone_diverges:
  "\<exists>u u' d1 d2.
     encode_entries (LFUniCache_try_encode list_hash_set) example_lfu [5, 5, 5, 6] =
       (u, Inr [NotEncoded 5, Encoded 1, Encoded 1, NotEncoded 6]) \<and>
     encode_entries (LFUniCache_try_encode list_hash_set) u [7, 8, 5] =
       (u', Inr [NotEncoded 7, NotEncoded 8, Encoded 1]) \<and>
     LFUniCache_clone list_hash_set [5, 6] u = Inr d1 \<and>
     snd (decode_entries (LFUniCache_decode list_hash_set) d1 [NotEncoded 7, NotEncoded 8, Encoded 1]) =
       Inr [7, 8, 7] \<and>
     LFUniCache_clone list_hash_set [6, 5] u = Inr d2 \<and>
     snd (decode_entries (LFUniCache_decode list_hash_set) d2 [NotEncoded 7, NotEncoded 8, Encoded 1]) =
       Inr [7, 8, 8]"
  by (simp add: example_lfu_def LFUniCache_try_encode_def LFUniCache_decode_def LFUniCache_clone_def
      LFUCache_get_def LFUCache_set_def LFUCache_len_def LFUCache_with_capacity_def LFUCache_evict_def
      update_frequency_bin_def evict_and_return_value_def evict_and_return_key_def ValueCounter_inc_def
      list_hash_set_def result_simps Let_def unwrap_or_def usize_add_def)

end
