(* ===== verification/Entry_Derive.thy ===== *)
theory Entry_Derive
  imports Lru_Unicache Lfu_Unicache
begin

text \<open>
  The derive macros of \<^verbatim>\<open>omnipaxos_macros/src/lib.rs\<close>. A macro is a function from the syntax of a type
  declaration, as \<^verbatim>\<open>syn\<close> parses it, to what it generates: the associated types, and for every field the cache
  that was chosen for it. The code generated for \<open>UniCacheEntry\<close> is an interpreter of that plan, which
  goes through the fields and calls the cache of each.

  Shown: entries encoded by the generated code are decoded to the entries that were sent, with any mixture
  of the two caches; and a field without a \<open>cache\<close> attribute gets the cache of the field before it, not the
  documented default.
\<close>

section \<open>Syntax\<close>

text \<open>
  The arguments of a \<open>unicache\<close> attribute, an attribute (with its arguments read as a type, if they are
  one), a field (without name in a tuple struct), and the declared type.
\<close>

datatype Meta = SizeMeta usize | CacheMeta string | EncodingMeta string | UnexpectedMeta string | InvalidMeta

record Attribute =
  attr_path :: string
  attr_metas :: "Meta list"
  attr_type :: "string option"

record Field =
  field_ident :: "string option"
  field_ty :: string
  field_attrs :: "Attribute list"

datatype Data = StructData "Field list" | EnumData | UnionData

record DeriveInput =
  di_ident :: string
  di_attrs :: "Attribute list"
  di_data :: Data

section \<open>The macros\<close>

definition get_snapshot_type :: "DeriveInput \<Rightarrow> (unit, string) result" where
  "get_snapshot_type ast =
     (case find (\<lambda>attr. attr_path attr = ''snapshot'') (di_attrs ast) of
        None \<Rightarrow> Inr ''::omnipaxos::storage::NoSnapshot''
      | Some attr \<Rightarrow> unwrap ''Expected type'' (attr_type attr))"

record EntryImpl =
  ei_name :: string
  ei_snapshot :: string

definition entry_derive :: "DeriveInput \<Rightarrow> (unit, EntryImpl) result" where
  "entry_derive ast =
     try_result (get_snapshot_type ast) (\<lambda>snapshot_type.
       Inr \<lparr>ei_name = di_ident ast, ei_snapshot = snapshot_type\<rparr>)"

datatype CacheKind = LRUniCacheKind | LFUniCacheKind

text \<open>
  The closure that reads the arguments of an attribute. The variable \<open>cache_type\<close> is declared before the loop
  over the fields, the other two for every field.
\<close>

record FieldOptions =
  cache_type :: "CacheKind option"
  encoding_type :: "string option"
  cache_size :: "usize option"

fun parse_nested_meta :: "FieldOptions \<Rightarrow> Meta list \<Rightarrow> (unit, FieldOptions) result" where
  "parse_nested_meta opts [] = Inr opts"
| "parse_nested_meta opts (SizeMeta n # metas) = parse_nested_meta (opts\<lparr>cache_size := Some n\<rparr>) metas"
| "parse_nested_meta opts (CacheMeta ty # metas) =
     (if ty = ''lru'' then parse_nested_meta (opts\<lparr>cache_type := Some LRUniCacheKind\<rparr>) metas
      else if ty = ''lfu'' then parse_nested_meta (opts\<lparr>cache_type := Some LFUniCacheKind\<rparr>) metas
      else Inl (Panic ''Invalid cache type''))"
| "parse_nested_meta opts (EncodingMeta ty # metas) = parse_nested_meta (opts\<lparr>encoding_type := Some ty\<rparr>) metas"
| "parse_nested_meta opts (UnexpectedMeta path # metas) = Inl (Panic ''Found unexpected attribute'')"
| "parse_nested_meta opts (InvalidMeta # metas) = Inl (Panic ''Expected a valid attribute'')"

text \<open>What the loop collects for a field: its name, type, and for an encodable one its encoding, size and cache.\<close>

record FieldPlan =
  fp_name :: string
  fp_ty :: string
  fp_cache :: "(string \<times> usize \<times> CacheKind) option"

fun plan_fields :: "CacheKind option \<Rightarrow> Field list \<Rightarrow> (unit, FieldPlan list) result" where
  "plan_fields ct [] = Inr []"
| "plan_fields ct (field # rest) =
     try_result (unwrap ''called Option::unwrap() on a None value'' (field_ident field)) (\<lambda>name.
       case find (\<lambda>attr. attr_path attr = ''unicache'') (field_attrs field) of
         None \<Rightarrow>
           try_result (plan_fields ct rest) (\<lambda>ps.
             Inr (\<lparr>fp_name = name, fp_ty = field_ty field, fp_cache = None\<rparr> # ps))
       | Some attr \<Rightarrow>
           try_result (parse_nested_meta \<lparr>cache_type = ct, encoding_type = None, cache_size = None\<rparr> (attr_metas attr))
             (\<lambda>opts.
                let enc = unwrap_or (encoding_type opts) ''u8'';
                    sz = unwrap_or (cache_size opts) 255;
                    ct = unwrap_or (cache_type opts) LRUniCacheKind
                in try_result (plan_fields (Some ct) rest) (\<lambda>ps.
                     Inr (\<lparr>fp_name = name, fp_ty = field_ty field, fp_cache = Some (enc, sz, ct)\<rparr> # ps))))"

definition suffix_name :: "string \<Rightarrow> string \<Rightarrow> string" where
  "suffix_name ident name = ident @ name"

record UniCacheImpl =
  ui_name :: string
  ui_snapshot :: string
  ui_cache_name :: string
  ui_fields :: "FieldPlan list"

definition unicache_entry_derive :: "DeriveInput \<Rightarrow> (unit, UniCacheImpl) result" where
  "unicache_entry_derive ast =
     try_result (get_snapshot_type ast) (\<lambda>snapshot_type.
       case di_data ast of
         StructData fs \<Rightarrow>
           try_result (plan_fields None fs) (\<lambda>plan.
             Inr \<lparr>ui_name = di_ident ast, ui_snapshot = snapshot_type,
                  ui_cache_name = suffix_name (di_ident ast) ''Cache'', ui_fields = plan\<rparr>)
       | EnumData \<Rightarrow> Inl (Panic ''not yet implemented'')
       | UnionData \<Rightarrow> Inl (Panic ''internal error: entered unreachable code''))"

text \<open>The associated types of the generated implementation, as lists of types.\<close>

definition Encoded_types :: "UniCacheImpl \<Rightarrow> string list" where
  "Encoded_types i = concat (map (\<lambda>p. case fp_cache p of Some (enc, _, _) \<Rightarrow> [enc] | None \<Rightarrow> []) (ui_fields i))"

definition Encodable_types :: "UniCacheImpl \<Rightarrow> string list" where
  "Encodable_types i = map fp_ty (filter (\<lambda>p. fp_cache p \<noteq> None) (ui_fields i))"

definition NotEncodable_types :: "UniCacheImpl \<Rightarrow> string list" where
  "NotEncodable_types i = map fp_ty (filter (\<lambda>p. fp_cache p = None) (ui_fields i))"

definition EncodeResult_types :: "UniCacheImpl \<Rightarrow> (string \<times> string option) list" where
  "EncodeResult_types i = map (\<lambda>p. (fp_ty p, map_option fst (fp_cache p))) (ui_fields i)"

section \<open>The generated code\<close>

text \<open>
  The caches of the encodable fields, in the order of the fields; an entry is the list of its field values
  and an encode result the tuple of what each field became. In Rust the types make the lengths agree; the
  equations for lists that do not fit are never used.
\<close>

datatype ('lru, 'lfu) FieldCacheState = LruField 'lru | LfuField 'lfu

datatype ('k, 'v) FieldResult = Cloned 'k | MaybeEnc "('k, 'v) MaybeEncoded"

record ('c, 'k, 'v) FieldCacheOps =
  fc_new :: "CacheKind \<Rightarrow> usize \<Rightarrow> (unit, 'c) result"
  fc_try_encode :: "'c \<Rightarrow> 'k \<Rightarrow> 'c \<times> (unit, ('k, 'v) MaybeEncoded) result"
  fc_decode :: "'c \<Rightarrow> ('k, 'v) MaybeEncoded \<Rightarrow> 'c \<times> (unit, 'k) result"

fun EntryCache_new :: "('c, 'k, 'v) FieldCacheOps \<Rightarrow> FieldPlan list \<Rightarrow> (unit, 'c list) result" where
  "EntryCache_new ops [] = Inr []"
| "EntryCache_new ops (p # ps) =
     (case fp_cache p of
        None \<Rightarrow> EntryCache_new ops ps
      | Some (_, sz, ct) \<Rightarrow>
          try_result (fc_new ops ct sz) (\<lambda>c. try_result (EntryCache_new ops ps) (\<lambda>cs. Inr (c # cs))))"

fun EntryCache_try_encode ::
  "('c, 'k, 'v) FieldCacheOps \<Rightarrow> FieldPlan list \<Rightarrow> 'c list \<Rightarrow> 'k list \<Rightarrow>
   'c list \<times> (unit, ('k, 'v) FieldResult list) result" where
  "EntryCache_try_encode ops (p # ps) cs (f # fs) =
     (case (fp_cache p, cs) of
        (Some _, c # cs) \<Rightarrow>
          (case fc_try_encode ops c f of
             (c, Inl e) \<Rightarrow> (c # cs, Inl e)
           | (c, Inr m) \<Rightarrow>
               (case EntryCache_try_encode ops ps cs fs of
                  (cs, r) \<Rightarrow> (c # cs, try_result r (\<lambda>ms. Inr (MaybeEnc m # ms)))))
      | _ \<Rightarrow>
          (case EntryCache_try_encode ops ps cs fs of
             (cs, r) \<Rightarrow> (cs, try_result r (\<lambda>ms. Inr (Cloned f # ms)))))"
| "EntryCache_try_encode ops _ cs _ = (cs, Inr [])"

fun EntryCache_decode ::
  "('c, 'k, 'v) FieldCacheOps \<Rightarrow> 'c list \<Rightarrow> ('k, 'v) FieldResult list \<Rightarrow> 'c list \<times> (unit, 'k list) result" where
  "EntryCache_decode ops cs [] = (cs, Inr [])"
| "EntryCache_decode ops cs (Cloned f # ms) =
     (case EntryCache_decode ops cs ms of (cs, r) \<Rightarrow> (cs, try_result r (\<lambda>fs. Inr (f # fs))))"
| "EntryCache_decode ops (c # cs) (MaybeEnc m # ms) =
     (case fc_decode ops c m of
        (c, Inl e) \<Rightarrow> (c # cs, Inl e)
      | (c, Inr f) \<Rightarrow>
          (case EntryCache_decode ops cs ms of (cs, r) \<Rightarrow> (c # cs, try_result r (\<lambda>fs. Inr (f # fs)))))"
| "EntryCache_decode ops [] (MaybeEnc m # ms) = ([], Inr [])"

text \<open>The two caches the macro can choose.\<close>

definition unicache_ops ::
  "('ce, 'k, 'w word) LruCache \<Rightarrow> ('cd, 'w word, 'k) LruCache \<Rightarrow> ('he, 'k) LinkedHashSet \<Rightarrow> ('hd, 'w word) LinkedHashSet \<Rightarrow>
   ((('ce, 'cd, 'w :: len word) LRUniCache, ('k, 'w word, 'he, 'hd) LFUniCache) FieldCacheState, 'k, 'w word) FieldCacheOps" where
  "unicache_ops E D HE HD =
     \<lparr>fc_new = (\<lambda>ct sz. case ct of
         LRUniCacheKind \<Rightarrow> try_result (LRUniCache_new E D sz) (\<lambda>u. Inr (LruField u))
       | LFUniCacheKind \<Rightarrow> try_result (LFUniCache_new sz) (\<lambda>u. Inr (LfuField u))),
      fc_try_encode = (\<lambda>c f. case c of
         LruField u \<Rightarrow> map_prod LruField id (LRUniCache_try_encode E u f)
       | LfuField u \<Rightarrow> map_prod LfuField id (LFUniCache_try_encode HE u f)),
      fc_decode = (\<lambda>c m. case c of
         LruField u \<Rightarrow> map_prod LruField id (LRUniCache_decode D u m)
       | LfuField u \<Rightarrow> map_prod LfuField id (LFUniCache_decode HD u m))\<rparr>"

section \<open>Encoding and decoding entries\<close>

text \<open>The number of encodable fields, which is the number of caches.\<close>

fun encodables :: "FieldPlan list \<Rightarrow> nat" where
  "encodables [] = 0"
| "encodables (p # ps) = (case fp_cache p of None \<Rightarrow> encodables ps | Some _ \<Rightarrow> Suc (encodables ps))"

locale entry_cache =
  fixes ops :: "('c, 'k, 'v) FieldCacheOps"
    and synced :: "'c \<Rightarrow> 'c \<Rightarrow> bool"
  assumes field: "field_cache (fc_try_encode ops) (fc_decode ops) synced"
begin

text \<open>An encodable field has its own cache, so the caches of the fields stay in step one by one.\<close>

lemma encode_entry:
  assumes "list_all2 synced cs ds" and "length cs = encodables ps" and "length fs = length ps"
  shows "\<exists>cs' ms ds'. EntryCache_try_encode ops ps cs fs = (cs', Inr ms) \<and> EntryCache_decode ops ds ms = (ds', Inr fs) \<and>
    list_all2 synced cs' ds' \<and> length cs' = length cs"
  using assms
proof (induction ps arbitrary: cs ds fs)
  case Nil
  then show ?case by auto
next
  case (Cons p ps)
  obtain f fs' where fs: "fs = f # fs'" "length fs' = length ps" using Cons.prems(3) by (cases fs) auto
  show ?case
  proof (cases "fp_cache p")
    case None
    with Cons.prems have "length cs = encodables ps" by simp
    from Cons.IH [OF Cons.prems(1) this fs(2)] None show ?thesis
      by (auto simp: fs(1) try_result_def split: list.split)
  next
    case (Some spec)
    with Cons.prems obtain c cs' d ds' where cs: "cs = c # cs'" "ds = d # ds'" "synced c d" "list_all2 synced cs' ds'"
      "length cs' = encodables ps"
      by (cases cs; cases ds) auto
    from field_cache.encode_decode [OF field cs(3)] obtain c1 m d1 where
      m: "fc_try_encode ops c f = (c1, Inr m)" "fc_decode ops d m = (d1, Inr f)" "synced c1 d1" by blast
    from Cons.IH [OF cs(4,5) fs(2)] m Some show ?thesis
      by (auto simp: fs(1) cs(1,2) try_result_def)
  qed
qed

lemma new_length:
  "EntryCache_new ops ps = Inr cs \<Longrightarrow> length cs = encodables ps"
  by (induction ps arbitrary: cs) (auto simp: try_result_Inr_iff split: option.splits)

lemma new_synced:
  assumes "EntryCache_new ops ps = Inr cs"
    and "\<And>p enc sz ct c. p \<in> set ps \<Longrightarrow> fp_cache p = Some (enc, sz, ct) \<Longrightarrow> fc_new ops ct sz = Inr c \<Longrightarrow> synced c c"
  shows "list_all2 synced cs cs"
  using assms
proof (induction ps arbitrary: cs)
  case (Cons p ps)
  show ?case
  proof (cases "fp_cache p")
    case None
    with Cons.prems(1) have "EntryCache_new ops ps = Inr cs" by simp
    then show ?thesis by (rule Cons.IH) (use Cons.prems(2) in force)
  next
    case (Some spec)
    obtain enc sz ct where spec: "fp_cache p = Some (enc, sz, ct)" using Some by (cases spec) auto
    with Cons.prems(1) obtain c cs' where "fc_new ops ct sz = Inr c" "EntryCache_new ops ps = Inr cs'" "cs = c # cs'"
      by (auto simp: try_result_Inr_iff)
    moreover from this(2) have "list_all2 synced cs' cs'" by (rule Cons.IH) (use Cons.prems(2) in force)
    ultimately show ?thesis using Cons.prems(2) [of p enc sz ct c] spec by simp
  qed
qed simp

lemma entries_of_plan:
  assumes "list_all2 synced cs ds" and "length cs = encodables ps"
    and "list_all (\<lambda>e. length e = length ps) es"
  shows "\<exists>cs' ms ds'. encode_entries (EntryCache_try_encode ops ps) cs es = (cs', Inr ms) \<and>
    decode_entries (EntryCache_decode ops) ds ms = (ds', Inr es)"
proof -
  let ?S = "\<lambda>cs ds. list_all2 synced cs ds \<and> length cs = encodables ps"
  have "\<exists>cs' ms ds'. EntryCache_try_encode ops ps cs f = (cs', Inr ms) \<and> EntryCache_decode ops ds ms = (ds', Inr f) \<and>
      ?S cs' ds'" if "?S cs ds" "length f = length ps" for cs ds f
    using encode_entry [of cs ds ps f] that by auto
  from entries_round_trip [where synced = ?S and valid = "\<lambda>e. length e = length ps"
      and enc = "EntryCache_try_encode ops ps" and dec = "EntryCache_decode ops", OF this] assms show ?thesis
    by blast
qed

end

fun unicache_synced ::
  "('ce, 'k, 'w word) LruCache \<Rightarrow> ('ce \<Rightarrow> nat) \<Rightarrow> ('cd, 'w word, 'k) LruCache \<Rightarrow> ('cd \<Rightarrow> nat) \<Rightarrow>
   ('he, 'k) LinkedHashSet \<Rightarrow> ('hd, 'w word) LinkedHashSet \<Rightarrow>
   (('ce, 'cd, 'w :: len word) LRUniCache, ('k, 'w word, 'he, 'hd) LFUniCache) FieldCacheState \<Rightarrow>
   (('ce, 'cd, 'w word) LRUniCache, ('k, 'w word, 'he, 'hd) LFUniCache) FieldCacheState \<Rightarrow> bool" where
  "unicache_synced E ecap D dcap HE HD (LruField u) (LruField d) = lru_synced E ecap D dcap u d"
| "unicache_synced E ecap D dcap HE HD (LfuField u) (LfuField d) = lfu_synced HE HD u d"
| "unicache_synced E ecap D dcap HE HD _ _ = False"

text \<open>Both caches together, over any implementation of the crates they are built on.\<close>

locale unicaches = lruc: lru_pair E ecap D dcap + lfuc: lfu_pair HE HD
  for E :: "('ce, 'k, 'w :: len word) LruCache" and ecap and D :: "('cd, 'w word, 'k) LruCache" and dcap
    and HE :: "('he, 'k) LinkedHashSet" and HD :: "('hd, 'w word) LinkedHashSet"

context unicaches
begin

lemma unicache_step:
  assumes "unicache_synced E ecap D dcap HE HD c d"
  shows "\<exists>c' m d'. fc_try_encode (unicache_ops E D HE HD) c f = (c', Inr m) \<and>
    fc_decode (unicache_ops E D HE HD) d m = (d', Inr f) \<and> unicache_synced E ecap D dcap HE HD c' d'"
proof (cases "(E, ecap, D, dcap, HE, HD, c, d)" rule: unicache_synced.cases)
  case (1 _ _ _ _ _ _ u v)
  with assms lruc.encode_step [of u v f] show ?thesis by (fastforce simp: unicache_ops_def)
next
  case (2 _ _ _ _ _ _ u v)
  with assms lfuc.encode_step [of u v f] show ?thesis by (fastforce simp: unicache_ops_def)
qed (use assms in auto)

lemma unicache_new_synced:
  assumes "fc_new (unicache_ops E D HE HD) ct sz = Inr c" and "sz \<le> 2 ^ LENGTH('w)"
  shows "unicache_synced E ecap D dcap HE HD c c"
proof (cases ct)
  case LRUniCacheKind
  with assms obtain u where "LRUniCache_new E D sz = Inr u" "c = LruField u"
    by (auto simp: unicache_ops_def try_result_Inr_iff)
  with assms(2) lruc.new_synced show ?thesis by simp
next
  case LFUniCacheKind
  with assms obtain u where "LFUniCache_new sz = Inr u" "c = LfuField u"
    by (auto simp: unicache_ops_def try_result_Inr_iff)
  with assms(2) lfuc.new_synced show ?thesis by simp
qed

end

sublocale unicaches \<subseteq> entry: entry_cache "unicache_ops E D HE HD" "unicache_synced E ecap D dcap HE HD"
  by unfold_locales (rule unicache_step)

interpretation list_unicaches: unicaches list_lru fst list_lru fst list_hash_set list_hash_set ..

section \<open>Properties\<close>

lemma plan_fields_length: "plan_fields ct fs = Inr ps \<Longrightarrow> length ps = length fs"
  by (induction fs arbitrary: ct ps) (auto simp: try_result_Inr_iff Let_def split: option.splits)


text \<open>A person with an identifier that is not encoded, a first name with the attribute \<open>cache(lfu)\<close>, and a last name.\<close>

definition person :: DeriveInput where
  "person = \<lparr>di_ident = ''Person'', di_attrs = [], di_data = StructData
     [\<lparr>field_ident = Some ''id'', field_ty = ''u64'', field_attrs = []\<rparr>,
      \<lparr>field_ident = Some ''first_name'', field_ty = ''String'', field_attrs =
         [\<lparr>attr_path = ''unicache'', attr_metas = [EncodingMeta ''u8'', SizeMeta 2, CacheMeta ''lfu''], attr_type = None\<rparr>]\<rparr>,
      \<lparr>field_ident = Some ''last_name'', field_ty = ''String'', field_attrs =
         [\<lparr>attr_path = ''unicache'', attr_metas = [SizeMeta 2], attr_type = None\<rparr>]\<rparr>]\<rparr>"

definition person_impl :: UniCacheImpl where
  "person_impl = \<lparr>ui_name = ''Person'', ui_snapshot = ''::omnipaxos::storage::NoSnapshot'', ui_cache_name = ''PersonCache'',
     ui_fields = [\<lparr>fp_name = ''id'', fp_ty = ''u64'', fp_cache = None\<rparr>,
       \<lparr>fp_name = ''first_name'', fp_ty = ''String'', fp_cache = Some (''u8'', 2, LFUniCacheKind)\<rparr>,
       \<lparr>fp_name = ''last_name'', fp_ty = ''String'', fp_cache = Some (''u8'', 2, LFUniCacheKind)\<rparr>]\<rparr>"

lemma person_derived: "unicache_entry_derive person = Inr person_impl"
  by (simp add: unicache_entry_derive_def person_def person_impl_def get_snapshot_type_def suffix_name_def unwrap_or_def)

abbreviation list_ops ::
  "(((nat \<times> (string \<times> 8 word) list, nat \<times> (8 word \<times> string) list, 8 word) LRUniCache,
     (string, 8 word, string list, 8 word list) LFUniCache) FieldCacheState, string, 8 word) FieldCacheOps" where
  "list_ops \<equiv> unicache_ops list_lru list_lru list_hash_set list_hash_set"


text \<open>
  The attribute \<open>cache\<close> carries over to the fields that follow. The documentation promises
  least-recently-used eviction for a field without the attribute; the macro gives it the cache of the last
  encodable field before it, and the default only when there is none.
\<close>

theorem cache_attribute_carries_over:
  assumes "find (\<lambda>attr. attr_path attr = ''unicache'') (field_attrs f1) = Some a1"
    and "attr_metas a1 = [CacheMeta ''lfu'']" and "field_ident f1 = Some n1"
    and "find (\<lambda>attr. attr_path attr = ''unicache'') (field_attrs f2) = Some a2"
    and "attr_metas a2 = []" and "field_ident f2 = Some n2"
  shows "plan_fields None [f1, f2] =
      Inr [\<lparr>fp_name = n1, fp_ty = field_ty f1, fp_cache = Some (''u8'', 255, LFUniCacheKind)\<rparr>,
           \<lparr>fp_name = n2, fp_ty = field_ty f2, fp_cache = Some (''u8'', 255, LFUniCacheKind)\<rparr>] \<and>
    plan_fields None [f2, f1] =
      Inr [\<lparr>fp_name = n2, fp_ty = field_ty f2, fp_cache = Some (''u8'', 255, LRUniCacheKind)\<rparr>,
           \<lparr>fp_name = n1, fp_ty = field_ty f1, fp_cache = Some (''u8'', 255, LFUniCacheKind)\<rparr>]"
  using assms by (simp_all add: unwrap_or_def)

theorem cache_attribute_carries_over_witness:
  "plan_fields None
     [\<lparr>field_ident = Some ''a'', field_ty = ''String'', field_attrs =
        [\<lparr>attr_path = ''unicache'', attr_metas = [CacheMeta ''lfu''], attr_type = None\<rparr>]\<rparr>,
      \<lparr>field_ident = Some ''b'', field_ty = ''String'', field_attrs =
        [\<lparr>attr_path = ''unicache'', attr_metas = [], attr_type = None\<rparr>]\<rparr>] =
   Inr [\<lparr>fp_name = ''a'', fp_ty = ''String'', fp_cache = Some (''u8'', 255, LFUniCacheKind)\<rparr>,
        \<lparr>fp_name = ''b'', fp_ty = ''String'', fp_cache = Some (''u8'', 255, LFUniCacheKind)\<rparr>]"
  using cache_attribute_carries_over [of "\<lparr>field_ident = Some ''a'', field_ty = ''String'', field_attrs =
      [\<lparr>attr_path = ''unicache'', attr_metas = [CacheMeta ''lfu''], attr_type = None\<rparr>]\<rparr>"
      "\<lparr>attr_path = ''unicache'', attr_metas = [CacheMeta ''lfu''], attr_type = None\<rparr>" "''a''"
      "\<lparr>field_ident = Some ''b'', field_ty = ''String'', field_attrs =
      [\<lparr>attr_path = ''unicache'', attr_metas = [], attr_type = None\<rparr>]\<rparr>"
      "\<lparr>attr_path = ''unicache'', attr_metas = [], attr_type = None\<rparr>" "''b''"]
  by simp

end
