(* ===== verification/Persistent_Storage.thy ===== *)
theory Persistent_Storage
  imports Storage_Api "HOL-Library.List_Lexorder"
begin

text \<open>
  \<open>PersistentStorage\<close> of \<^verbatim>\<open>omnipaxos_storage/src/persistent_storage.rs\<close>: a log storage on a RocksDB
  database, one column family for the log and the default one for the scalar values. RocksDB is the
  parameter \<open>DB\<close> of the definitions, with its documented behaviour in the locale \<open>rocksdb\<close>; the
  serialisers of \<^verbatim>\<open>bincode\<close> and \<^verbatim>\<open>zerocopy\<close> are the parameter \<open>C\<close>, with the round trips in the
  locale \<open>codec\<close>. Log keys are the big-endian bytes of the index (\<open>to_be_bytes\<close> of the standard
  library), so that the order of the keys is the order of the log. The storage trait has a method
  \<open>history_hash\<close> this file does not implement.
\<close>

section \<open>Big-endian keys\<close>

type_synonym bytes = "8 word list"

fun be_bytes :: "nat \<Rightarrow> nat \<Rightarrow> bytes" where
  "be_bytes 0 n = []"
| "be_bytes (Suc k) n = word_of_nat (n div 256 ^ k) # be_bytes k (n mod 256 ^ k)"

definition to_be_bytes :: "usize \<Rightarrow> bytes" where
  "to_be_bytes n = be_bytes 8 n"

definition from_be_bytes :: "bytes \<Rightarrow> usize" where
  "from_be_bytes bs = foldl (\<lambda>acc b. 256 * acc + unat b) 0 bs"

lemma length_be_bytes [simp]: "length (be_bytes k n) = k"
  by (induction k arbitrary: n) auto

lemma unat_byte: "n < 256 \<Longrightarrow> unat (word_of_nat n :: 8 word) = n"
  by (simp add: unat_of_nat take_bit_nat_eq_self)

lemma div_256: "n < 256 ^ Suc k \<Longrightarrow> n div 256 ^ k < 256" for n :: nat
  by (simp add: less_mult_imp_div_less mult.commute)

lemma div_mod_less: "m div p < n div p \<or> m div p = n div p \<and> m mod p < n mod p \<longleftrightarrow> m < n"
  for m n p :: nat
proof (cases "m div p" "n div p" rule: linorder_cases)
  case less
  then have "m < n" by (metis div_le_mono leD leI)
  with less show ?thesis by simp
next
  case equal
  then have "m < n \<longleftrightarrow> m mod p < n mod p"
    using div_mult_mod_eq [of m p] div_mult_mod_eq [of n p] by (metis nat_add_left_cancel_less)
  with equal show ?thesis by simp
next
  case greater
  then have "\<not> m < n" by (metis div_le_mono leD less_or_eq_imp_le)
  with greater show ?thesis by simp
qed

lemma be_bytes_less:
  assumes "m < 256 ^ k" and "n < 256 ^ k"
  shows "be_bytes k m < be_bytes k n \<longleftrightarrow> m < n"
  using assms
proof (induction k arbitrary: m n)
  case (Suc k)
  let ?m = "m div 256 ^ k" and ?n = "n div 256 ^ k"
  have word: "(word_of_nat ?m :: 8 word) < word_of_nat ?n \<longleftrightarrow> ?m < ?n"
    "(word_of_nat ?m :: 8 word) = word_of_nat ?n \<longleftrightarrow> ?m = ?n"
    using unat_byte [OF div_256 [OF Suc.prems(1)]] unat_byte [OF div_256 [OF Suc.prems(2)]]
    by (metis word_less_nat_alt, metis)
  have rest: "be_bytes k (m mod 256 ^ k) < be_bytes k (n mod 256 ^ k) \<longleftrightarrow> m mod 256 ^ k < n mod 256 ^ k"
    by (intro Suc.IH) simp_all
  with word div_mod_less [of m "256 ^ k" n] show ?case by simp
qed simp

lemma from_be_bytes_append:
  "foldl (\<lambda>acc b. 256 * acc + unat b) a bs = 256 ^ length bs * a + foldl (\<lambda>acc b. 256 * acc + unat b) 0 bs"
  for a :: nat and bs :: bytes
proof (induction bs arbitrary: a)
  case (Cons b bs)
  show ?case using Cons [of "256 * a + unat b"] Cons [of "unat b"] by (simp add: algebra_simps)
qed simp

lemma from_be_bytes_be: "n < 256 ^ k \<Longrightarrow> foldl (\<lambda>acc b. 256 * acc + unat b) 0 (be_bytes k n) = n"
proof (induction k arbitrary: n)
  case (Suc k)
  have "foldl (\<lambda>acc b. 256 * acc + unat b) 0 (be_bytes (Suc k) n) =
      256 ^ k * (n div 256 ^ k) + n mod 256 ^ k"
    using unat_byte [OF div_256 [OF Suc.prems]] Suc.IH [of "n mod 256 ^ k"]
    by (simp add: from_be_bytes_append [of "n div 256 ^ k"])
  then show ?case by simp
qed simp

lemma from_to_be_bytes: "n < usize_limit \<Longrightarrow> from_be_bytes (to_be_bytes n) = n"
  using from_be_bytes_be [of n 8] by (simp add: from_be_bytes_def to_be_bytes_def)

lemma to_be_bytes_less:
  "m < usize_limit \<Longrightarrow> n < usize_limit \<Longrightarrow> to_be_bytes m < to_be_bytes n \<longleftrightarrow> m < n"
  using be_bytes_less [of m 8 n] by (simp add: to_be_bytes_def)

lemma to_be_bytes_eq:
  "m < usize_limit \<Longrightarrow> n < usize_limit \<Longrightarrow> to_be_bytes m = to_be_bytes n \<longleftrightarrow> m = n"
  by (metis from_to_be_bytes)

section \<open>The database and the serialisers\<close>

text \<open>
  The operations of RocksDB the storage uses; \<open>_cf\<close> operations work on the log column family, and
  \<open>db_iter_cf\<close> lists what a raw iterator visits from the first key on. A write batch is the list of
  the updates recorded in it.
\<close>

datatype BatchOp = BPut bytes bytes | BPutCf bytes bytes | BDeleteRangeCf bytes bytes

record 'db RocksDB =
  db_get :: "'db \<Rightarrow> bytes \<Rightarrow> bytes option StorageResult"
  db_put :: "'db \<Rightarrow> bytes \<Rightarrow> bytes \<Rightarrow> 'db \<times> unit StorageResult"
  db_put_cf :: "'db \<Rightarrow> bytes \<Rightarrow> bytes \<Rightarrow> 'db \<times> unit StorageResult"
  db_delete_range_cf :: "'db \<Rightarrow> bytes \<Rightarrow> bytes \<Rightarrow> 'db \<times> unit StorageResult"
  db_write :: "'db \<Rightarrow> BatchOp list \<Rightarrow> 'db \<times> unit StorageResult"
  db_iter_cf :: "'db \<Rightarrow> (bytes \<times> bytes) list"

record ('t, 'n) Codec =
  ser_entry :: "'t \<Rightarrow> bytes StorageResult"
  de_entry :: "bytes \<Rightarrow> 't StorageResult"
  ser_ballot :: "Ballot \<Rightarrow> bytes StorageResult"
  de_ballot :: "bytes \<Rightarrow> Ballot StorageResult"
  ser_stopsign :: "StopSign option \<Rightarrow> bytes StorageResult"
  de_stopsign :: "bytes \<Rightarrow> StopSign option StorageResult"
  ser_snapshot :: "'n option \<Rightarrow> bytes StorageResult"
  de_snapshot :: "bytes \<Rightarrow> 'n option StorageResult"
  usize_as_bytes :: "usize \<Rightarrow> bytes"
  usize_read_from :: "bytes \<Rightarrow> usize option"

definition NPROM :: bytes where "NPROM = map of_char ''NPROM''"
definition ACC :: bytes where "ACC = map of_char ''ACC''"
definition DECIDE :: bytes where "DECIDE = map of_char ''DECIDE''"
definition TRIM :: bytes where "TRIM = map of_char ''TRIM''"
definition STOPSIGN :: bytes where "STOPSIGN = map of_char ''STOPSIGN''"
definition SNAPSHOT :: bytes where "SNAPSHOT = map of_char ''SNAPSHOT''"

definition ErrHelper :: StorageError where
  "ErrHelper = BackendError ''ErrHelper''"

definition ok_or :: "'a option \<Rightarrow> 'a StorageResult" where
  "ok_or x = (case x of Some v \<Rightarrow> Inr v | None \<Rightarrow> Inl (Err ErrHelper))"

section \<open>The storage\<close>

record 'db PersistentStorage =
  ps_db :: 'db
  write_batch :: "BatchOp list"
  next_log_key :: usize

text \<open>
  The configuration, with the options of RocksDB as a type \<open>'o\<close>: \<open>opts\<close> are the default options and
  \<open>create_missing\<close> sets \<open>create_missing_column_families\<close> and \<open>create_if_missing\<close>.
\<close>

record 'o PersistentStorageConfig =
  psc_path :: string
  rocksdb_options :: 'o
  log_options :: 'o

definition PersistentStorageConfig_with :: "string \<Rightarrow> 'o \<Rightarrow> 'o \<Rightarrow> 'o PersistentStorageConfig" where
  "PersistentStorageConfig_with path log_opts db_opts =
     \<lparr>psc_path = path, rocksdb_options = db_opts, log_options = log_opts\<rparr>"

definition PersistentStorageConfig_with_path :: "'o \<Rightarrow> ('o \<Rightarrow> 'o) \<Rightarrow> string \<Rightarrow> 'o PersistentStorageConfig" where
  "PersistentStorageConfig_with_path opts create_missing path =
     \<lparr>psc_path = path, rocksdb_options = create_missing opts, log_options = opts\<rparr>"

definition PersistentStorageConfig_default :: "'o \<Rightarrow> ('o \<Rightarrow> 'o) \<Rightarrow> 'o PersistentStorageConfig" where
  "PersistentStorageConfig_default opts create_missing =
     \<lparr>psc_path = ''/default_storage/'', rocksdb_options = create_missing opts, log_options = opts\<rparr>"

text \<open>The part of \<open>open\<close> that works on the database RocksDB has opened: the next log key is found again.\<close>

definition PersistentStorage_recover ::
  "'db RocksDB \<Rightarrow> ('t, 'n) Codec \<Rightarrow> 'db \<Rightarrow> 'db PersistentStorage StorageResult" where
  "PersistentStorage_recover DB C db =
     try_result
       (if db_iter_cf DB db \<noteq> [] then
          (let key = fst (last (db_iter_cf DB db))
           in if length key = 8 then Inr (usize_add (from_be_bytes key) 1)
              else Inl (Panic ''Couldn't recover storage: Log key has unexpected format.''))
        else
          try_result (expect ''Couldn't recover storage: Reading compacted_idx failed.'' (db_get DB db TRIM))
            (\<lambda>trim. case trim of
               Some bs \<Rightarrow> unwrap ''Couldn't recover storage: Commpacted index has unexpected format.''
                           (usize_read_from C bs)
             | None \<Rightarrow> Inr 0))
       (\<lambda>k. Inr \<lparr>ps_db = db, write_batch = [], next_log_key = k\<rparr>)"

text \<open>
  \<open>open_cf_descriptors\<close> is RocksDB opening the database of a configuration, \<open>path_exists\<close> whether the
  path exists.
\<close>

definition PersistentStorage_open ::
  "'db RocksDB \<Rightarrow> ('t, 'n) Codec \<Rightarrow> ('o PersistentStorageConfig \<Rightarrow> 'db StorageResult) \<Rightarrow> 'o PersistentStorageConfig \<Rightarrow>
   'db PersistentStorage StorageResult" where
  "PersistentStorage_open DB C open_cf_descriptors cfg =
     try_result (expect ''Failed to create RocksDB'' (open_cf_descriptors cfg)) (PersistentStorage_recover DB C)"

definition PersistentStorage_new ::
  "'db RocksDB \<Rightarrow> ('t, 'n) Codec \<Rightarrow> (string \<Rightarrow> bool) \<Rightarrow> ('o PersistentStorageConfig \<Rightarrow> 'db StorageResult) \<Rightarrow>
   'o PersistentStorageConfig \<Rightarrow> 'db PersistentStorage StorageResult" where
  "PersistentStorage_new DB C path_exists open_cf_descriptors cfg =
     (if path_exists (psc_path cfg)
      then Inl (Panic (''Cannot create new instance, database already exists in '' @ psc_path cfg))
      else PersistentStorage_open DB C open_cf_descriptors cfg)"

subsection \<open>Batched writes\<close>

text \<open>Record an update in the batch.\<close>

definition batch_add :: "'db PersistentStorage \<Rightarrow> BatchOp \<Rightarrow> 'db PersistentStorage" where
  "batch_add s x = s\<lparr>write_batch := write_batch s @ [x]\<rparr>"

definition batch_append_entry ::
  "('t, 'n) Codec \<Rightarrow> 'db PersistentStorage \<Rightarrow> 't \<Rightarrow> 'db PersistentStorage \<times> unit StorageResult" where
  "batch_append_entry C s entry =
     try_state (s, ser_entry C entry) (\<lambda>s bs.
       ((batch_add s (BPutCf (to_be_bytes (next_log_key s)) bs))\<lparr>next_log_key := usize_add (next_log_key s) 1\<rparr>,
        Inr ()))"

fun batch_append_entries ::
  "('t, 'n) Codec \<Rightarrow> 'db PersistentStorage \<Rightarrow> 't list \<Rightarrow> 'db PersistentStorage \<times> unit StorageResult" where
  "batch_append_entries C s [] = (s, Inr ())"
| "batch_append_entries C s (entry # entries) =
     try_state (s, ser_entry C entry) (\<lambda>s bs.
       batch_append_entries C
         ((batch_add s (BPutCf (to_be_bytes (next_log_key s)) bs))\<lparr>next_log_key := usize_add (next_log_key s) 1\<rparr>)
         entries)"

definition batch_append_on_prefix ::
  "('t, 'n) Codec \<Rightarrow> 'db PersistentStorage \<Rightarrow> usize \<Rightarrow> 't list \<Rightarrow> 'db PersistentStorage \<times> unit StorageResult"
  where
  "batch_append_on_prefix C s from_idx entries =
     (let delete_idx = usize_add from_idx (length entries);
          s = (if delete_idx < next_log_key s
               then batch_add s (BDeleteRangeCf (to_be_bytes delete_idx) (to_be_bytes (next_log_key s)))
               else s)
      in batch_append_entries C (s\<lparr>next_log_key := from_idx\<rparr>) entries)"

definition batch_put_ser ::
  "'db PersistentStorage \<Rightarrow> bytes \<Rightarrow> bytes StorageResult \<Rightarrow> 'db PersistentStorage \<times> unit StorageResult" where
  "batch_put_ser s key ser = try_state (s, ser) (\<lambda>s bs. (batch_add s (BPut key bs), Inr ()))"

definition batch_set_promise ::
  "('t, 'n) Codec \<Rightarrow> 'db PersistentStorage \<Rightarrow> Ballot \<Rightarrow> 'db PersistentStorage \<times> unit StorageResult" where
  "batch_set_promise C s n_prom = batch_put_ser s NPROM (ser_ballot C n_prom)"

definition batch_set_decided_idx ::
  "('t, 'n) Codec \<Rightarrow> 'db PersistentStorage \<Rightarrow> usize \<Rightarrow> 'db PersistentStorage \<times> unit StorageResult" where
  "batch_set_decided_idx C s ld = batch_put_ser s DECIDE (Inr (usize_as_bytes C ld))"

definition batch_set_accepted_round ::
  "('t, 'n) Codec \<Rightarrow> 'db PersistentStorage \<Rightarrow> Ballot \<Rightarrow> 'db PersistentStorage \<times> unit StorageResult" where
  "batch_set_accepted_round C s na = batch_put_ser s ACC (ser_ballot C na)"

definition batch_set_compacted_idx ::
  "('t, 'n) Codec \<Rightarrow> 'db PersistentStorage \<Rightarrow> usize \<Rightarrow> 'db PersistentStorage \<times> unit StorageResult" where
  "batch_set_compacted_idx C s trimmed_idx = batch_put_ser s TRIM (Inr (usize_as_bytes C trimmed_idx))"

definition batch_trim :: "'db PersistentStorage \<Rightarrow> usize \<Rightarrow> 'db PersistentStorage \<times> unit StorageResult" where
  "batch_trim s trimmed_idx =
     (batch_add s (BDeleteRangeCf (to_be_bytes 0) (to_be_bytes trimmed_idx)), Inr ())"

definition batch_set_stopsign ::
  "('t, 'n) Codec \<Rightarrow> 'db PersistentStorage \<Rightarrow> StopSign option \<Rightarrow> 'db PersistentStorage \<times> unit StorageResult" where
  "batch_set_stopsign C s ss = batch_put_ser s STOPSIGN (ser_stopsign C ss)"

definition batch_set_snapshot ::
  "('t, 'n) Codec \<Rightarrow> 'db PersistentStorage \<Rightarrow> 'n option \<Rightarrow> 'db PersistentStorage \<times> unit StorageResult" where
  "batch_set_snapshot C s snap = batch_put_ser s SNAPSHOT (ser_snapshot C snap)"

fun PersistentStorage_batch_op ::
  "('t, 'n) Codec \<Rightarrow> 'db PersistentStorage \<Rightarrow> ('t, 'n) StorageOp \<Rightarrow> 'db PersistentStorage \<times> unit StorageResult"
  where
  "PersistentStorage_batch_op C s (AppendEntry entry) = batch_append_entry C s entry"
| "PersistentStorage_batch_op C s (AppendEntries entries) = batch_append_entries C s entries"
| "PersistentStorage_batch_op C s (AppendOnPrefix from_idx entries) = batch_append_on_prefix C s from_idx entries"
| "PersistentStorage_batch_op C s (SetPromise bal) = batch_set_promise C s bal"
| "PersistentStorage_batch_op C s (SetDecidedIndex idx) = batch_set_decided_idx C s idx"
| "PersistentStorage_batch_op C s (SetAcceptedRound bal) = batch_set_accepted_round C s bal"
| "PersistentStorage_batch_op C s (SetCompactedIdx idx) = batch_set_compacted_idx C s idx"
| "PersistentStorage_batch_op C s (Trim idx) = batch_trim s idx"
| "PersistentStorage_batch_op C s (SetStopsign ss) = batch_set_stopsign C s ss"
| "PersistentStorage_batch_op C s (SetSnapshot snap) = batch_set_snapshot C s snap"

fun batch_ops ::
  "('t, 'n) Codec \<Rightarrow> 'db PersistentStorage \<Rightarrow> ('t, 'n) StorageOp list \<Rightarrow>
   'db PersistentStorage \<times> unit StorageResult" where
  "batch_ops C s [] = (s, Inr ())"
| "batch_ops C s (x # xs) = try_state (PersistentStorage_batch_op C s x) (\<lambda>s _. batch_ops C s xs)"

definition PersistentStorage_write_atomically ::
  "'db RocksDB \<Rightarrow> ('t, 'n) Codec \<Rightarrow> 'db PersistentStorage \<Rightarrow> ('t, 'n) StorageOp list \<Rightarrow>
   'db PersistentStorage \<times> unit StorageResult" where
  "PersistentStorage_write_atomically DB C s ops =
     try_state (batch_ops C s ops) (\<lambda>s _.
       let (db, r) = db_write DB (ps_db s) (write_batch s)
       in (s\<lparr>ps_db := db, write_batch := []\<rparr>, r))"

subsection \<open>Single writes\<close>

definition put_ser ::
  "'db RocksDB \<Rightarrow> 'db PersistentStorage \<Rightarrow> bytes \<Rightarrow> bytes StorageResult \<Rightarrow>
   'db PersistentStorage \<times> unit StorageResult" where
  "put_ser DB s key ser =
     try_state (s, ser) (\<lambda>s bs. let (db, r) = db_put DB (ps_db s) key bs in (s\<lparr>ps_db := db\<rparr>, r))"

definition PersistentStorage_append_entry ::
  "'db RocksDB \<Rightarrow> ('t, 'n) Codec \<Rightarrow> 'db PersistentStorage \<Rightarrow> 't \<Rightarrow> 'db PersistentStorage \<times> unit StorageResult" where
  "PersistentStorage_append_entry DB C s entry =
     try_state (s, ser_entry C entry) (\<lambda>s bs.
       let (db, r) = db_put_cf DB (ps_db s) (to_be_bytes (next_log_key s)) bs
       in try_state (s\<lparr>ps_db := db\<rparr>, r) (\<lambda>s _. (s\<lparr>next_log_key := usize_add (next_log_key s) 1\<rparr>, Inr ())))"

fun append_batch ::
  "('t, 'n) Codec \<Rightarrow> 'db PersistentStorage \<Rightarrow> BatchOp list \<Rightarrow> 't list \<Rightarrow>
   'db PersistentStorage \<times> BatchOp list StorageResult" where
  "append_batch C s batch [] = (s, Inr batch)"
| "append_batch C s batch (entry # entries) =
     try_state (s, ser_entry C entry) (\<lambda>s bs.
       append_batch C (s\<lparr>next_log_key := usize_add (next_log_key s) 1\<rparr>)
         (batch @ [BPutCf (to_be_bytes (next_log_key s)) bs]) entries)"

definition PersistentStorage_append_entries ::
  "'db RocksDB \<Rightarrow> ('t, 'n) Codec \<Rightarrow> 'db PersistentStorage \<Rightarrow> 't list \<Rightarrow>
   'db PersistentStorage \<times> unit StorageResult" where
  "PersistentStorage_append_entries DB C s entries =
     try_state (append_batch C s [] entries) (\<lambda>s batch.
       let (db, r) = db_write DB (ps_db s) batch in (s\<lparr>ps_db := db\<rparr>, r))"

definition PersistentStorage_append_on_prefix ::
  "'db RocksDB \<Rightarrow> ('t, 'n) Codec \<Rightarrow> 'db PersistentStorage \<Rightarrow> usize \<Rightarrow> 't list \<Rightarrow>
   'db PersistentStorage \<times> unit StorageResult" where
  "PersistentStorage_append_on_prefix DB C s from_idx entries =
     (let delete_idx = usize_add from_idx (length entries)
      in try_state
           (if delete_idx < next_log_key s then
              (let (db, r) = db_delete_range_cf DB (ps_db s) (to_be_bytes delete_idx) (to_be_bytes (next_log_key s))
               in (s\<lparr>ps_db := db\<rparr>, r))
            else (s, Inr ()))
           (\<lambda>s _. PersistentStorage_append_entries DB C (s\<lparr>next_log_key := from_idx\<rparr>) entries))"

definition PersistentStorage_set_promise ::
  "'db RocksDB \<Rightarrow> ('t, 'n) Codec \<Rightarrow> 'db PersistentStorage \<Rightarrow> Ballot \<Rightarrow> 'db PersistentStorage \<times> unit StorageResult"
  where "PersistentStorage_set_promise DB C s n_prom = put_ser DB s NPROM (ser_ballot C n_prom)"

definition PersistentStorage_set_decided_idx ::
  "'db RocksDB \<Rightarrow> ('t, 'n) Codec \<Rightarrow> 'db PersistentStorage \<Rightarrow> usize \<Rightarrow> 'db PersistentStorage \<times> unit StorageResult"
  where "PersistentStorage_set_decided_idx DB C s ld = put_ser DB s DECIDE (Inr (usize_as_bytes C ld))"

definition PersistentStorage_set_accepted_round ::
  "'db RocksDB \<Rightarrow> ('t, 'n) Codec \<Rightarrow> 'db PersistentStorage \<Rightarrow> Ballot \<Rightarrow> 'db PersistentStorage \<times> unit StorageResult"
  where "PersistentStorage_set_accepted_round DB C s na = put_ser DB s ACC (ser_ballot C na)"

definition PersistentStorage_set_compacted_idx ::
  "'db RocksDB \<Rightarrow> ('t, 'n) Codec \<Rightarrow> 'db PersistentStorage \<Rightarrow> usize \<Rightarrow> 'db PersistentStorage \<times> unit StorageResult"
  where "PersistentStorage_set_compacted_idx DB C s idx = put_ser DB s TRIM (Inr (usize_as_bytes C idx))"

definition PersistentStorage_set_stopsign ::
  "'db RocksDB \<Rightarrow> ('t, 'n) Codec \<Rightarrow> 'db PersistentStorage \<Rightarrow> StopSign option \<Rightarrow>
   'db PersistentStorage \<times> unit StorageResult"
  where "PersistentStorage_set_stopsign DB C s ss = put_ser DB s STOPSIGN (ser_stopsign C ss)"

definition PersistentStorage_set_snapshot ::
  "'db RocksDB \<Rightarrow> ('t, 'n) Codec \<Rightarrow> 'db PersistentStorage \<Rightarrow> 'n option \<Rightarrow>
   'db PersistentStorage \<times> unit StorageResult"
  where "PersistentStorage_set_snapshot DB C s snap = put_ser DB s SNAPSHOT (ser_snapshot C snap)"

definition PersistentStorage_trim ::
  "'db RocksDB \<Rightarrow> 'db PersistentStorage \<Rightarrow> usize \<Rightarrow> 'db PersistentStorage \<times> unit StorageResult" where
  "PersistentStorage_trim DB s trimmed_idx =
     (let (db, r) = db_delete_range_cf DB (ps_db s) (to_be_bytes 0) (to_be_bytes trimmed_idx)
      in (s\<lparr>ps_db := db\<rparr>, r))"

subsection \<open>Reads\<close>

text \<open>What a getter makes of the bytes under its key.\<close>

definition read_ballot :: "('t, 'n) Codec \<Rightarrow> bytes option \<Rightarrow> Ballot option StorageResult" where
  "read_ballot C v = (case v of Some bs \<Rightarrow> try_result (de_ballot C bs) (\<lambda>b. Inr (Some b)) | None \<Rightarrow> Inr None)"

definition read_usize :: "('t, 'n) Codec \<Rightarrow> bytes option \<Rightarrow> usize StorageResult" where
  "read_usize C v = (case v of Some bs \<Rightarrow> ok_or (usize_read_from C bs) | None \<Rightarrow> Inr 0)"

definition read_stopsign :: "('t, 'n) Codec \<Rightarrow> bytes option \<Rightarrow> StopSign option StorageResult" where
  "read_stopsign C v = (case v of Some bs \<Rightarrow> de_stopsign C bs | None \<Rightarrow> Inr None)"

definition read_snapshot :: "('t, 'n) Codec \<Rightarrow> bytes option \<Rightarrow> 'n option StorageResult" where
  "read_snapshot C v = (case v of Some bs \<Rightarrow> de_snapshot C bs | None \<Rightarrow> Inr None)"

definition PersistentStorage_get_promise ::
  "'db RocksDB \<Rightarrow> ('t, 'n) Codec \<Rightarrow> 'db PersistentStorage \<Rightarrow> Ballot option StorageResult" where
  "PersistentStorage_get_promise DB C s = try_result (db_get DB (ps_db s) NPROM) (read_ballot C)"

definition PersistentStorage_get_accepted_round ::
  "'db RocksDB \<Rightarrow> ('t, 'n) Codec \<Rightarrow> 'db PersistentStorage \<Rightarrow> Ballot option StorageResult" where
  "PersistentStorage_get_accepted_round DB C s = try_result (db_get DB (ps_db s) ACC) (read_ballot C)"

definition PersistentStorage_get_decided_idx ::
  "'db RocksDB \<Rightarrow> ('t, 'n) Codec \<Rightarrow> 'db PersistentStorage \<Rightarrow> usize StorageResult" where
  "PersistentStorage_get_decided_idx DB C s = try_result (db_get DB (ps_db s) DECIDE) (read_usize C)"

definition PersistentStorage_get_compacted_idx ::
  "'db RocksDB \<Rightarrow> ('t, 'n) Codec \<Rightarrow> 'db PersistentStorage \<Rightarrow> usize StorageResult" where
  "PersistentStorage_get_compacted_idx DB C s = try_result (db_get DB (ps_db s) TRIM) (read_usize C)"

definition PersistentStorage_get_stopsign ::
  "'db RocksDB \<Rightarrow> ('t, 'n) Codec \<Rightarrow> 'db PersistentStorage \<Rightarrow> StopSign option StorageResult" where
  "PersistentStorage_get_stopsign DB C s = try_result (db_get DB (ps_db s) STOPSIGN) (read_stopsign C)"

definition PersistentStorage_get_snapshot ::
  "'db RocksDB \<Rightarrow> ('t, 'n) Codec \<Rightarrow> 'db PersistentStorage \<Rightarrow> 'n option StorageResult" where
  "PersistentStorage_get_snapshot DB C s = try_result (db_get DB (ps_db s) SNAPSHOT) (read_snapshot C)"

text \<open>The loop of \<open>get_entries\<close> over a raw iterator that was moved to the first key not below \<open>from\<close>.\<close>

fun read_entries_from ::
  "('t, 'n) Codec \<Rightarrow> nat \<Rightarrow> (bytes \<times> bytes) list \<Rightarrow> 't list StorageResult" where
  "read_entries_from C 0 items = Inr []"
| "read_entries_from C (Suc k) [] = Inl (Err ErrHelper)"
| "read_entries_from C (Suc k) ((_, bs) # items) =
     try_result (de_entry C bs) (\<lambda>e. try_result (read_entries_from C k items) (\<lambda>es. Inr (e # es)))"

definition PersistentStorage_get_entries ::
  "'db RocksDB \<Rightarrow> ('t, 'n) Codec \<Rightarrow> 'db PersistentStorage \<Rightarrow> usize \<Rightarrow> usize \<Rightarrow> 't list StorageResult" where
  "PersistentStorage_get_entries DB C s from_idx to_idx =
     (if next_log_key s < to_idx \<or> to_idx \<le> from_idx then Inr []
      else read_entries_from C (to_idx - from_idx)
             (dropWhile (\<lambda>(key, _). key < to_be_bytes from_idx) (db_iter_cf DB (ps_db s))))"

definition PersistentStorage_get_log_len ::
  "'db RocksDB \<Rightarrow> ('t, 'n) Codec \<Rightarrow> 'db PersistentStorage \<Rightarrow> usize StorageResult" where
  "PersistentStorage_get_log_len DB C s =
     try_result (PersistentStorage_get_compacted_idx DB C s) (\<lambda>c. Inr (usize_sub (next_log_key s) c))"

definition PersistentStorage_get_suffix ::
  "'db RocksDB \<Rightarrow> ('t, 'n) Codec \<Rightarrow> 'db PersistentStorage \<Rightarrow> usize \<Rightarrow> 't list StorageResult" where
  "PersistentStorage_get_suffix DB C s from_idx = PersistentStorage_get_entries DB C s from_idx (next_log_key s)"

text \<open>The implementation of the trait, with the hash that it lacks as the parameter \<open>hash\<close>.\<close>

definition PersistentStorage_impl ::
  "'db RocksDB \<Rightarrow> ('t, 'n) Codec \<Rightarrow> ('db PersistentStorage \<Rightarrow> u64) \<Rightarrow> ('db PersistentStorage, 't, 'n) Storage" where
  "PersistentStorage_impl DB C hash =
     \<lparr>history_hash = hash,
      write_atomically = PersistentStorage_write_atomically DB C,
      append_entry = PersistentStorage_append_entry DB C,
      append_entries = PersistentStorage_append_entries DB C,
      append_on_prefix = PersistentStorage_append_on_prefix DB C,
      set_promise = PersistentStorage_set_promise DB C,
      set_decided_idx = PersistentStorage_set_decided_idx DB C,
      get_decided_idx = PersistentStorage_get_decided_idx DB C,
      set_accepted_round = PersistentStorage_set_accepted_round DB C,
      get_accepted_round = PersistentStorage_get_accepted_round DB C,
      get_entries = PersistentStorage_get_entries DB C,
      get_log_len = PersistentStorage_get_log_len DB C,
      get_suffix = PersistentStorage_get_suffix DB C,
      get_promise = PersistentStorage_get_promise DB C,
      set_stopsign = PersistentStorage_set_stopsign DB C,
      get_stopsign = PersistentStorage_get_stopsign DB C,
      trim = PersistentStorage_trim DB,
      set_compacted_idx = PersistentStorage_set_compacted_idx DB C,
      get_compacted_idx = PersistentStorage_get_compacted_idx DB C,
      set_snapshot = PersistentStorage_set_snapshot DB C,
      get_snapshot = PersistentStorage_get_snapshot DB C\<rparr>"

end
