(* ===== verification/Persistent_Storage_Laws.thy ===== *)
theory Persistent_Storage_Laws
  imports Persistent_Storage
begin

text \<open>
  The persistent storage implements the contract of a storage backend (\<open>log_storage\<close>), given a
  database and serialisers that do what they document; and it survives a restart.
\<close>

section \<open>What RocksDB and the serialisers promise\<close>

fun batch_apply1 ::
  "(bytes \<rightharpoonup> bytes) \<times> (bytes \<rightharpoonup> bytes) \<Rightarrow> BatchOp \<Rightarrow> (bytes \<rightharpoonup> bytes) \<times> (bytes \<rightharpoonup> bytes)" where
  "batch_apply1 (kv, lg) (BPut k v) = (kv(k \<mapsto> v), lg)"
| "batch_apply1 (kv, lg) (BPutCf k v) = (kv, lg(k \<mapsto> v))"
| "batch_apply1 (kv, lg) (BDeleteRangeCf a b) = (kv, \<lambda>k. if a \<le> k \<and> k < b then None else lg k)"

abbreviation batch_apply ::
  "BatchOp list \<Rightarrow> (bytes \<rightharpoonup> bytes) \<times> (bytes \<rightharpoonup> bytes) \<Rightarrow> (bytes \<rightharpoonup> bytes) \<times> (bytes \<rightharpoonup> bytes)" where
  "batch_apply xs c \<equiv> foldl batch_apply1 c xs"

text \<open>The content of a database: the default column family and the log.\<close>

definition db_content :: "'db RocksDB \<Rightarrow> 'db \<Rightarrow> (bytes \<rightharpoonup> bytes) \<times> (bytes \<rightharpoonup> bytes)" where
  "db_content DB d = (\<lambda>k. projr (db_get DB d k), map_of (db_iter_cf DB d))"

text \<open>A range that is deleted must not end before it begins.\<close>

definition range_ok :: "BatchOp \<Rightarrow> bool" where
  "range_ok x = (case x of BDeleteRangeCf a b \<Rightarrow> a \<le> b | _ \<Rightarrow> True)"

lemma range_ok_simps [simp]:
  "range_ok (BPut k v)" "range_ok (BPutCf k v)" "range_ok (BDeleteRangeCf a b) \<longleftrightarrow> a \<le> b"
  by (simp_all add: range_ok_def)

locale rocksdb =
  fixes DB :: "'db RocksDB"
  assumes get_law: "db_get DB d k = Inr (fst (db_content DB d) k)"
    and iter_law: "sorted_wrt (<) (map fst (db_iter_cf DB d))"
    and put_law:
      "\<exists>d'. db_put DB d k v = (d', Inr ()) \<and> db_content DB d' = batch_apply [BPut k v] (db_content DB d)"
    and put_cf_law:
      "\<exists>d'. db_put_cf DB d k v = (d', Inr ()) \<and> db_content DB d' = batch_apply [BPutCf k v] (db_content DB d)"
    and delete_range_law:
      "k \<le> k' \<Longrightarrow> \<exists>d'. db_delete_range_cf DB d k k' = (d', Inr ()) \<and>
            db_content DB d' = batch_apply [BDeleteRangeCf k k'] (db_content DB d)"
    and write_law:
      "list_all range_ok b \<Longrightarrow>
       \<exists>d'. db_write DB d b = (d', Inr ()) \<and> db_content DB d' = batch_apply b (db_content DB d)"

locale codec =
  fixes C :: "('t, 'n) Codec"
  assumes entry_law: "\<exists>bs. ser_entry C e = Inr bs \<and> de_entry C bs = Inr e"
    and ballot_law: "\<exists>bs. ser_ballot C b = Inr bs \<and> de_ballot C bs = Inr b"
    and stopsign_law: "\<exists>bs. ser_stopsign C ss = Inr bs \<and> de_stopsign C bs = Inr ss"
    and snapshot_law: "\<exists>bs. ser_snapshot C sn = Inr bs \<and> de_snapshot C bs = Inr sn"
    and usize_law: "i < usize_limit \<Longrightarrow> usize_read_from C (usize_as_bytes C i) = Some i"

section \<open>Keys and indexes\<close>

lemma be_fold_less: "foldl (\<lambda>acc b. 256 * acc + unat b) 0 bs < 256 ^ length (bs :: bytes)"
proof (induction bs)
  case (Cons b bs)
  have "unat b < 256" using unsigned_less [of b] by simp
  then have "256 ^ length bs * unat b + 256 ^ length bs \<le> 256 ^ length bs * 256"
    by (metis Suc_leI add.commute mult_Suc_right mult_le_mono2)
  with Cons have "256 ^ length bs * unat b + foldl (\<lambda>acc b. 256 * acc + unat b) 0 bs < 256 * 256 ^ length bs"
    by linarith
  then show ?case by (simp add: from_be_bytes_append [of "unat b"])
qed simp

lemma be_bytes_fold: "be_bytes (length bs) (foldl (\<lambda>acc b. 256 * acc + unat b) 0 bs) = bs"
proof (induction bs)
  case (Cons b bs)
  let ?f = "foldl (\<lambda>acc b. 256 * acc + unat b) 0 bs"
  have "(256 ^ length bs * unat b + ?f) div 256 ^ length bs = unat b"
    "(256 ^ length bs * unat b + ?f) mod 256 ^ length bs = ?f"
    using be_fold_less [of bs] by simp_all
  with Cons show ?case by (simp add: from_be_bytes_append [of "unat b"])
qed simp

lemma to_from_be_bytes: "length key = 8 \<Longrightarrow> to_be_bytes (from_be_bytes key) = key"
  using be_bytes_fold [of key] by (simp add: to_be_bytes_def from_be_bytes_def)

lemma from_be_bytes_less: "length key = 8 \<Longrightarrow> from_be_bytes key < usize_limit"
  using be_fold_less [of key] by (simp add: from_be_bytes_def)

lemma key_cases:
  assumes "length key = 8"
  obtains j where "key = to_be_bytes j" and "j < usize_limit" and "from_be_bytes key = j"
  using assms to_from_be_bytes from_be_bytes_less from_to_be_bytes by metis

lemma length_to_be_bytes [simp]: "length (to_be_bytes j) = 8"
  by (simp add: to_be_bytes_def)

text \<open>The log column family with the entries \<open>bs\<close> from index \<open>i\<close> on.\<close>

definition log_map :: "nat \<Rightarrow> bytes list \<Rightarrow> bytes \<rightharpoonup> bytes" where
  "log_map i bs key =
     (if length key = 8 \<and> i \<le> from_be_bytes key \<and> from_be_bytes key < i + length bs
      then Some (bs ! (from_be_bytes key - i)) else None)"

lemma log_map_key:
  "j < usize_limit \<Longrightarrow> log_map i bs (to_be_bytes j) = (if i \<le> j \<and> j < i + length bs then Some (bs ! (j - i)) else None)"
  by (simp add: log_map_def from_to_be_bytes)

lemma log_map_eqI:
  assumes "\<And>j. j < usize_limit \<Longrightarrow> m (to_be_bytes j) = log_map i bs (to_be_bytes j)"
    and "\<And>key. length key \<noteq> 8 \<Longrightarrow> m key = None"
  shows "m = log_map i bs"
proof
  fix key
  show "m key = log_map i bs key"
    using assms by (cases "length key = 8") (metis key_cases, simp add: log_map_def)
qed

lemma log_map_put:
  assumes "i + length bs < usize_limit"
  shows "(log_map i bs)(to_be_bytes (i + length bs) \<mapsto> b) = log_map i (bs @ [b])"
proof (rule log_map_eqI)
  fix j :: nat assume "j < usize_limit"
  then show "((log_map i bs)(to_be_bytes (i + length bs) \<mapsto> b)) (to_be_bytes j) =
      log_map i (bs @ [b]) (to_be_bytes j)"
    using assms by (auto simp: log_map_key to_be_bytes_eq nth_append)
qed (auto simp: log_map_def)

lemma log_map_delete:
  assumes "a < usize_limit" and "b < usize_limit" and "j < usize_limit"
  shows "(if to_be_bytes a \<le> to_be_bytes j \<and> to_be_bytes j < to_be_bytes b then None
          else log_map i bs (to_be_bytes j)) =
         (if a \<le> j \<and> j < b then None else log_map i bs (to_be_bytes j))"
  using assms by (simp add: to_be_bytes_less not_less [symmetric])

definition log_list :: "nat \<Rightarrow> bytes list \<Rightarrow> (bytes \<times> bytes) list" where
  "log_list i bs = zip (map to_be_bytes [i..<i + length bs]) bs"

lemma log_list_sorted:
  assumes "i + length bs \<le> usize_limit"
  shows "sorted_wrt (<) (map fst (log_list i bs))"
  using assms by (auto simp: log_list_def sorted_wrt_iff_nth_less to_be_bytes_less)

lemma map_of_log_list:
  assumes "i + length bs \<le> usize_limit"
  shows "map_of (log_list i bs) = log_map i bs"
proof (rule log_map_eqI)
  fix j :: nat assume j: "j < usize_limit"
  show "map_of (log_list i bs) (to_be_bytes j) = log_map i bs (to_be_bytes j)"
  proof (cases "i \<le> j \<and> j < i + length bs")
    case True
    then have "(to_be_bytes j, bs ! (j - i)) \<in> set (log_list i bs)"
      by (auto simp: log_list_def set_zip intro!: exI [of _ "j - i"])
    moreover have "distinct (map fst (log_list i bs))"
      using log_list_sorted [OF assms] strict_sorted_iff by blast
    ultimately show ?thesis using True j by (simp add: log_map_key)
  next
    case False
    then have "to_be_bytes j \<notin> fst ` set (log_list i bs)"
      using j assms by (auto simp: log_list_def set_zip to_be_bytes_eq)
    then show ?thesis using False j by (simp add: log_map_key map_of_eq_None_iff [THEN iffD2])
  qed
next
  fix key :: bytes assume "length key \<noteq> 8"
  then show "map_of (log_list i bs) key = None"
    by (auto simp: map_of_eq_None_iff log_list_def set_zip)
qed

lemma sorted_map_unique:
  fixes xs ys :: "('a :: linorder \<times> 'b) list"
  assumes "sorted_wrt (<) (map fst xs)" and "sorted_wrt (<) (map fst ys)" and "map_of xs = map_of ys"
  shows "xs = ys"
proof -
  have "fst ` set xs = fst ` set ys"
    using assms(3) by (metis dom_map_of_conv_image_fst)
  then have keys: "map fst xs = map fst ys"
    using assms(1,2) strict_sorted_equal [of "map fst xs" "map fst ys"] by simp
  have "map snd zs = map (\<lambda>k. the (map_of zs k)) (map fst zs)" if "distinct (map fst zs)"
    for zs :: "('a \<times> 'b) list"
    using that by (auto simp: map_of_is_SomeI split: prod.splits)
  then have "map snd xs = map snd ys"
    using keys assms strict_sorted_iff by metis
  with keys show ?thesis by (metis zip_map_fst_snd)
qed

section \<open>Databases that represent a log\<close>

definition log_rep :: "('t, 'n) Codec \<Rightarrow> (bytes \<rightharpoonup> bytes) \<Rightarrow> nat \<Rightarrow> ('t, 'n) StoreView \<Rightarrow> bool" where
  "log_rep C lg k v \<longleftrightarrow>
     (\<exists>bs. map (de_entry C) bs = map Inr (v_log v) \<and> v_offset v + length bs = k \<and> k < usize_limit \<and>
           lg = log_map (v_offset v) bs)"

definition scalar_rep :: "('t, 'n) Codec \<Rightarrow> (bytes \<rightharpoonup> bytes) \<Rightarrow> ('t, 'n) StoreView \<Rightarrow> bool" where
  "scalar_rep C kv v \<longleftrightarrow>
     read_ballot C (kv NPROM) = Inr (v_promise v) \<and> read_ballot C (kv ACC) = Inr (v_acc_round v) \<and>
     read_usize C (kv DECIDE) = Inr (v_decided v) \<and> read_usize C (kv TRIM) = Inr (v_compacted v) \<and>
     read_stopsign C (kv STOPSIGN) = Inr (v_stopsign v) \<and> read_snapshot C (kv SNAPSHOT) = Inr (v_snapshot v)"

text \<open>
  \<open>k\<close> is the next log key. In the middle of a batch that trimmed beyond the end of the log
  (\<open>open_end\<close>) the log is empty and the next key not yet moved.
\<close>

definition rep ::
  "('t, 'n) Codec \<Rightarrow> bool \<Rightarrow> (bytes \<rightharpoonup> bytes) \<times> (bytes \<rightharpoonup> bytes) \<Rightarrow> nat \<Rightarrow> ('t, 'n) StoreView \<Rightarrow> bool" where
  "rep C open_end c k v \<longleftrightarrow> scalar_rep C (fst c) v \<and>
     (if open_end then snd c = Map.empty \<and> v_log v = [] \<and> k < usize_limit \<and> v_offset v < usize_limit
      else log_rep C (snd c) k v)"

definition pending :: "'db RocksDB \<Rightarrow> 'db PersistentStorage \<Rightarrow> (bytes \<rightharpoonup> bytes) \<times> (bytes \<rightharpoonup> bytes)" where
  "pending DB s = batch_apply (write_batch s) (db_content DB (ps_db s))"

lemmas scalar_keys = NPROM_def ACC_def DECIDE_def TRIM_def STOPSIGN_def SNAPSHOT_def

lemma pending_add: "pending DB (batch_add s x) = batch_apply1 (pending DB s) x"
  by (simp add: pending_def batch_add_def)

lemma pending_next [simp]: "pending DB (s\<lparr>next_log_key := k\<rparr>) = pending DB s"
  by (simp add: pending_def)

lemma batch_add_sel [simp]:
  "ps_db (batch_add s x) = ps_db s" "next_log_key (batch_add s x) = next_log_key s"
  by (simp_all add: batch_add_def)

lemma log_map_Nil: "log_map i [] = Map.empty"
  by (simp add: log_map_def fun_eq_iff)

lemma log_map_delete_above:
  assumes "i \<le> a" and "a < usize_limit" and "i + length bs < usize_limit"
  shows "(\<lambda>k. if to_be_bytes a \<le> k \<and> k < to_be_bytes (i + length bs) then None else log_map i bs k) =
         log_map i (take (a - i) bs)"
proof (rule log_map_eqI)
  fix j :: nat assume "j < usize_limit"
  with assms show "(if to_be_bytes a \<le> to_be_bytes j \<and> to_be_bytes j < to_be_bytes (i + length bs) then None
      else log_map i bs (to_be_bytes j)) = log_map i (take (a - i) bs) (to_be_bytes j)"
    by (subst log_map_delete) (auto simp: log_map_key)
qed (auto simp: log_map_def)

lemma log_map_trim:
  assumes "i \<le> a" and "a < usize_limit" and "i + length bs < usize_limit"
  shows "(\<lambda>k. if to_be_bytes 0 \<le> k \<and> k < to_be_bytes a then None else log_map i bs k) =
         log_map a (drop (a - i) bs)"
proof (rule log_map_eqI)
  fix j :: nat assume "j < usize_limit"
  with assms show "(if to_be_bytes 0 \<le> to_be_bytes j \<and> to_be_bytes j < to_be_bytes a then None
      else log_map i bs (to_be_bytes j)) = log_map a (drop (a - i) bs) (to_be_bytes j)"
    by (subst log_map_delete) (auto simp: log_map_key)
qed (auto simp: log_map_def)

text \<open>Entries appended at the next key, over what the log may still hold there.\<close>

fun overwrite :: "nat \<Rightarrow> 'a list \<Rightarrow> 'a list \<Rightarrow> 'a list" where
  "overwrite k bs [] = bs"
| "overwrite k bs (c # cs) = overwrite (Suc k) (if k < length bs then bs[k := c] else bs @ [c]) cs"

lemma overwrite_all:
  "k \<le> length bs \<Longrightarrow> length bs \<le> k + length cs \<Longrightarrow> overwrite k bs cs = take k bs @ cs"
  by (induction cs arbitrary: k bs) (auto simp: take_Suc_conv_app_nth)

lemma log_map_overwrite:
  assumes "i \<le> k" and "k \<le> i + length bs" and "k < usize_limit" and "i + length bs < usize_limit"
  shows "(log_map i bs)(to_be_bytes k \<mapsto> b) = log_map i (overwrite (k - i) bs [b])"
proof (rule log_map_eqI)
  fix j :: nat assume "j < usize_limit"
  with assms show "((log_map i bs)(to_be_bytes k \<mapsto> b)) (to_be_bytes j) =
      log_map i (overwrite (k - i) bs [b]) (to_be_bytes j)"
    by (auto simp: log_map_key to_be_bytes_eq nth_append nth_list_update)
qed (use assms in \<open>auto simp: log_map_def\<close>)

lemma scalar_keys_neq [simp]:
  shows "NPROM \<noteq> ACC" and "NPROM \<noteq> DECIDE" and "NPROM \<noteq> TRIM" and "NPROM \<noteq> STOPSIGN" and "NPROM \<noteq> SNAPSHOT" and
    "ACC \<noteq> NPROM" and "ACC \<noteq> DECIDE" and "ACC \<noteq> TRIM" and "ACC \<noteq> STOPSIGN" and "ACC \<noteq> SNAPSHOT" and
    "DECIDE \<noteq> NPROM" and "DECIDE \<noteq> ACC" and "DECIDE \<noteq> TRIM" and "DECIDE \<noteq> STOPSIGN" and "DECIDE \<noteq> SNAPSHOT" and
    "TRIM \<noteq> NPROM" and "TRIM \<noteq> ACC" and "TRIM \<noteq> DECIDE" and "TRIM \<noteq> STOPSIGN" and "TRIM \<noteq> SNAPSHOT" and
    "STOPSIGN \<noteq> NPROM" and "STOPSIGN \<noteq> ACC" and "STOPSIGN \<noteq> DECIDE" and "STOPSIGN \<noteq> TRIM" and "STOPSIGN \<noteq> SNAPSHOT" and
    "SNAPSHOT \<noteq> NPROM" and "SNAPSHOT \<noteq> ACC" and "SNAPSHOT \<noteq> DECIDE" and "SNAPSHOT \<noteq> TRIM" and "SNAPSHOT \<noteq> STOPSIGN"
  by (simp_all add: scalar_keys)

lemma dropWhile_log_list:
  "i \<le> j \<Longrightarrow> j < usize_limit \<Longrightarrow> i + length bs \<le> usize_limit \<Longrightarrow>
   dropWhile (\<lambda>(key, _). key < to_be_bytes j) (log_list i bs) = drop (j - i) (log_list i bs)"
proof (induction bs arbitrary: i)
  case (Cons b bs)
  have "log_list i (b # bs) = (to_be_bytes i, b) # log_list (Suc i) bs"
    by (simp add: log_list_def upt_conv_Cons del: upt_Suc)
  with Cons show ?case by (cases "i = j") (auto simp: to_be_bytes_less drop_Cons')
qed (simp add: log_list_def)

lemma read_entries_from_eq:
  "map (de_entry C) (map snd items) = map Inr es \<Longrightarrow> n \<le> length items \<Longrightarrow>
   read_entries_from C n items = Inr (take n es)"
  by (induction C n items arbitrary: es rule: read_entries_from.induct) (auto simp: map_eq_Cons_conv Cons_eq_map_conv)

text \<open>One step of \<open>settled\<close>.\<close>

definition next_open :: "bool \<Rightarrow> ('t, 'n) StorageOp \<Rightarrow> ('t, 'n) StoreView \<Rightarrow> bool" where
  "next_open open_end x v = (case x of
     AppendEntry _ \<Rightarrow> False | AppendEntries _ \<Rightarrow> False | AppendOnPrefix _ _ \<Rightarrow> False
   | Trim i \<Rightarrow> open_end \<or> v_end v < i | _ \<Rightarrow> open_end)"

definition step_settled :: "bool \<Rightarrow> ('t, 'n) StorageOp \<Rightarrow> bool" where
  "step_settled open_end x = (case x of AppendEntry _ \<Rightarrow> \<not> open_end | AppendEntries _ \<Rightarrow> \<not> open_end | _ \<Rightarrow> True)"

lemma settled_Cons:
  "settled open_end (x # xs) v \<longleftrightarrow> step_settled open_end x \<and> settled (next_open open_end x v) xs (view_op x v)"
  by (cases x) (auto simp: next_open_def step_settled_def)

lemma scalar_rep_log [simp]:
  "scalar_rep C kv (v\<lparr>v_log := l\<rparr>) = scalar_rep C kv v" "scalar_rep C kv (v\<lparr>v_offset := n\<rparr>) = scalar_rep C kv v"
  by (simp_all add: scalar_rep_def)

lemma rep_closed_log:
  assumes "log_rep C lg k v"
  obtains bs where "map (de_entry C) bs = map Inr (v_log v)" and "length bs = length (v_log v)"
    and "k = v_offset v + length bs" and "k < usize_limit" and "lg = log_map (v_offset v) bs"
proof -
  obtain bs where bs: "map (de_entry C) bs = map Inr (v_log v)" "v_offset v + length bs = k"
    "k < usize_limit" "lg = log_map (v_offset v) bs"
    using assms by (auto simp: log_rep_def)
  then have "length bs = length (v_log v)" by (metis length_map)
  with bs show ?thesis using that by blast
qed

text \<open>The stored log as a reader of the database sees it, and what a storage at rest looks like.\<close>

definition ps_view :: "'db RocksDB \<Rightarrow> ('t, 'n) Codec \<Rightarrow> 'db PersistentStorage \<Rightarrow> ('t, 'n) StoreView" where
  "ps_view DB C s =
     \<lparr>v_offset = next_log_key s - length (db_iter_cf DB (ps_db s)),
      v_log = map (\<lambda>(_, b). projr (de_entry C b)) (db_iter_cf DB (ps_db s)),
      v_promise = projr (PersistentStorage_get_promise DB C s),
      v_acc_round = projr (PersistentStorage_get_accepted_round DB C s),
      v_decided = projr (PersistentStorage_get_decided_idx DB C s),
      v_compacted = projr (PersistentStorage_get_compacted_idx DB C s),
      v_snapshot = projr (PersistentStorage_get_snapshot DB C s),
      v_stopsign = projr (PersistentStorage_get_stopsign DB C s)\<rparr>"

definition ps_invar :: "'db RocksDB \<Rightarrow> ('t, 'n) Codec \<Rightarrow> 'db PersistentStorage \<Rightarrow> bool" where
  "ps_invar DB C s \<longleftrightarrow>
     write_batch s = [] \<and> rep C False (db_content DB (ps_db s)) (next_log_key s) (ps_view DB C s)"

lemmas PersistentStorage_getters = PersistentStorage_get_promise_def PersistentStorage_get_accepted_round_def
  PersistentStorage_get_decided_idx_def PersistentStorage_get_compacted_idx_def
  PersistentStorage_get_snapshot_def PersistentStorage_get_stopsign_def

lemma batch_append_entries_ranges:
  "list_all range_ok (write_batch s) \<Longrightarrow> list_all range_ok (write_batch (fst (batch_append_entries C s es)))"
proof (induction es arbitrary: s)
  case (Cons e es)
  then show ?case by (cases "ser_entry C e") (simp_all add: batch_add_def)
qed simp

lemma batch_append_entry_eq: "batch_append_entry C s e = batch_append_entries C s [e]"
  by (cases "ser_entry C e") (simp_all add: batch_append_entry_def)

text \<open>The separate batch of \<open>append_entries\<close> holds what the storage's own batch would.\<close>

lemma append_batch_eq:
  "batch_append_entries C (s\<lparr>write_batch := batch\<rparr>) es = (s', Inr ()) \<Longrightarrow>
   append_batch C s batch es = (s'\<lparr>write_batch := write_batch s\<rparr>, Inr (write_batch s'))"
proof (induction es arbitrary: s batch)
  case (Cons e es)
  then obtain b where b: "ser_entry C e = Inr b" by (cases "ser_entry C e") auto
  let ?s = "s\<lparr>next_log_key := usize_add (next_log_key s) 1\<rparr>"
  let ?batch = "batch @ [BPutCf (to_be_bytes (next_log_key s)) b]"
  have swap: "?s\<lparr>write_batch := ?batch\<rparr> = s\<lparr>write_batch := ?batch, next_log_key := usize_add (next_log_key s) 1\<rparr>"
    by simp
  have "batch_append_entries C (?s\<lparr>write_batch := ?batch\<rparr>) es = (s', Inr ())"
    unfolding swap using Cons.prems b by (simp add: batch_add_def)
  from Cons.IH [OF this] b show ?case by simp
qed auto

section \<open>The storage against the contract\<close>

locale persistent = rocksdb DB + codec C for DB :: "'db RocksDB" and C :: "('t, 'n) Codec"
begin

lemma batch_append_entries_log:
  assumes "snd (pending DB s) = log_map i bs" and "i \<le> next_log_key s" and "next_log_key s \<le> i + length bs"
    and "i + length bs < usize_limit" and "next_log_key s + length es < usize_limit"
  shows "\<exists>s' cs. batch_append_entries C s es = (s', Inr ()) \<and> map (de_entry C) cs = map Inr es \<and>
      next_log_key s' = next_log_key s + length es \<and> ps_db s' = ps_db s \<and>
      pending DB s' = (fst (pending DB s), log_map i (overwrite (next_log_key s - i) bs cs))"
  using assms
proof (induction es arbitrary: s bs)
  case Nil
  then show ?case by (intro exI [of _ s] exI [of _ "[]"]) (simp add: prod_eq_iff)
next
  case (Cons e es)
  obtain b where b: "ser_entry C e = Inr b" "de_entry C b = Inr e"
    using entry_law by blast
  let ?k = "next_log_key s"
  let ?s = "(batch_add s (BPutCf (to_be_bytes ?k) b))\<lparr>next_log_key := usize_add ?k 1\<rparr>"
  let ?bs = "overwrite (?k - i) bs [b]"
  have k: "usize_add ?k 1 = Suc ?k" "Suc ?k - i = Suc (?k - i)"
    using Cons.prems by (simp_all add: usize_add_exact Suc_diff_le)
  have pend: "pending DB ?s = (fst (pending DB s), log_map i ?bs)"
    using Cons.prems log_map_overwrite [of i ?k bs b] by (cases "pending DB s") (simp add: pending_add)
  have "\<exists>s' cs. batch_append_entries C ?s es = (s', Inr ()) \<and> map (de_entry C) cs = map Inr es \<and>
      next_log_key s' = next_log_key ?s + length es \<and> ps_db s' = ps_db ?s \<and>
      pending DB s' = (fst (pending DB ?s), log_map i (overwrite (next_log_key ?s - i) ?bs cs))"
    using Cons.prems k pend by (intro Cons.IH) auto
  then obtain s' cs where "batch_append_entries C ?s es = (s', Inr ())" "map (de_entry C) cs = map Inr es"
    "next_log_key s' = Suc ?k + length es" "ps_db s' = ps_db s"
    "pending DB s' = (fst (pending DB s), log_map i (overwrite (Suc (?k - i)) ?bs cs))"
    using k pend by auto
  with b show ?case by (intro exI [of _ s'] exI [of _ "b # cs"]) simp
qed

lemma append_rep:
  assumes "rep C False (pending DB s) (next_log_key s) v" and "v_end v + length es < usize_limit"
  shows "\<exists>s'. batch_append_entries C s es = (s', Inr ()) \<and> ps_db s' = ps_db s \<and>
      rep C False (pending DB s') (next_log_key s') (v\<lparr>v_log := v_log v @ es\<rparr>)"
proof -
  have rep: "scalar_rep C (fst (pending DB s)) v" "log_rep C (snd (pending DB s)) (next_log_key s) v"
    using assms(1) by (simp_all add: rep_def)
  from rep(2) obtain bs where bs: "map (de_entry C) bs = map Inr (v_log v)" "length bs = length (v_log v)"
    "next_log_key s = v_offset v + length bs" "next_log_key s < usize_limit"
    "snd (pending DB s) = log_map (v_offset v) bs"
    by (rule rep_closed_log)
  obtain s' cs where s': "batch_append_entries C s es = (s', Inr ())" "map (de_entry C) cs = map Inr es"
    "next_log_key s' = next_log_key s + length es" "ps_db s' = ps_db s"
    "pending DB s' = (fst (pending DB s), log_map (v_offset v) (overwrite (next_log_key s - v_offset v) bs cs))"
    using batch_append_entries_log [OF bs(5), of es] bs assms(2) by auto
  have "length cs = length es" using s'(2) by (metis length_map)
  then have "log_rep C (snd (pending DB s')) (next_log_key s') (v\<lparr>v_log := v_log v @ es\<rparr>)"
    using bs s' assms(2) unfolding log_rep_def by (intro exI [of _ "bs @ cs"]) (auto simp: overwrite_all)
  with s' rep(1) show ?thesis by (simp add: rep_def)
qed

lemma append_on_prefix_rep:
  assumes "rep C open_end (pending DB s) (next_log_key s) v" and "view_op_ok (AppendOnPrefix i es) v"
  shows "\<exists>s'. batch_append_on_prefix C s i es = (s', Inr ()) \<and> ps_db s' = ps_db s \<and>
      rep C False (pending DB s') (next_log_key s') (view_op (AppendOnPrefix i es) v)"
proof -
  have i: "v_offset v \<le> i" "i \<le> v_end v" "i + length es < usize_limit" using assms(2) by auto
  have scal: "scalar_rep C (fst (pending DB s)) v" using assms(1) by (simp add: rep_def)
  have del: "usize_add i (length es) = i + length es" using i by (simp add: usize_add_exact)
  let ?s = "(if i + length es < next_log_key s
     then batch_add s (BDeleteRangeCf (to_be_bytes (i + length es)) (to_be_bytes (next_log_key s))) else s)"
  let ?t = "?s\<lparr>next_log_key := i\<rparr>"
  have "\<exists>bs. pending DB ?t = (fst (pending DB s), log_map (v_offset v) bs) \<and> i \<le> v_offset v + length bs \<and>
      v_offset v + length bs < usize_limit \<and> length bs \<le> i - v_offset v + length es \<and>
      map (de_entry C) (take (i - v_offset v) bs) = map Inr (take (i - v_offset v) (v_log v))"
  proof (cases open_end)
    case True
    then have "snd (pending DB s) = Map.empty" "v_log v = []" using assms(1) by (auto simp: rep_def)
    then have "pending DB ?t = (fst (pending DB s), log_map (v_offset v) [])"
      by (cases "pending DB s") (simp add: pending_add log_map_Nil fun_eq_iff)
    with i \<open>v_log v = []\<close> show ?thesis by (intro exI [of _ "[]"]) auto
  next
    case False
    then have "log_rep C (snd (pending DB s)) (next_log_key s) v" using assms(1) by (simp add: rep_def)
    then obtain bs where bs: "map (de_entry C) bs = map Inr (v_log v)" "length bs = length (v_log v)"
      "next_log_key s = v_offset v + length bs" "next_log_key s < usize_limit"
      "snd (pending DB s) = log_map (v_offset v) bs"
      by (rule rep_closed_log)
    let ?n = "i + length es - v_offset v"
    have "pending DB ?t = (fst (pending DB s), log_map (v_offset v) (take ?n bs))"
      using bs i log_map_delete_above [of "v_offset v" "i + length es" bs]
      by (cases "pending DB s") (auto simp: pending_add)
    moreover have "map (de_entry C) (take (i - v_offset v) (take ?n bs)) = map Inr (take (i - v_offset v) (v_log v))"
      using bs(1) i by (simp add: take_map [symmetric] min_def)
    ultimately show ?thesis using bs i by (intro exI [of _ "take ?n bs"]) auto
  qed
  then obtain bs where bs: "pending DB ?t = (fst (pending DB s), log_map (v_offset v) bs)"
    "i \<le> v_offset v + length bs" "v_offset v + length bs < usize_limit" "length bs \<le> i - v_offset v + length es"
    "map (de_entry C) (take (i - v_offset v) bs) = map Inr (take (i - v_offset v) (v_log v))" by blast
  then obtain s' cs where s': "batch_append_entries C ?t es = (s', Inr ())" "map (de_entry C) cs = map Inr es"
    "next_log_key s' = i + length es" "ps_db s' = ps_db ?t"
    "pending DB s' = (fst (pending DB ?t), log_map (v_offset v) (overwrite (i - v_offset v) bs cs))"
    using batch_append_entries_log [of ?t "v_offset v" bs es] i by auto
  have cs: "length cs = length es" using s'(2) by (metis length_map)
  then have "overwrite (i - v_offset v) bs cs = take (i - v_offset v) bs @ cs"
    using bs i by (intro overwrite_all) auto
  then have "log_rep C (snd (pending DB s')) (next_log_key s') (view_op (AppendOnPrefix i es) v)"
    using bs s' i cs unfolding log_rep_def by (intro exI [of _ "take (i - v_offset v) bs @ cs"]) auto
  moreover have "batch_append_on_prefix C s i es = (s', Inr ())"
    using s'(1) by (simp add: batch_append_on_prefix_def del Let_def)
  ultimately show ?thesis using s' bs scal by (auto simp: rep_def)
qed

lemma trim_rep:
  assumes "rep C open_end c k v" and "view_op_ok (Trim i) v"
  shows "rep C (next_open open_end (Trim i) v) (batch_apply1 c (BDeleteRangeCf (to_be_bytes 0) (to_be_bytes i))) k
           (view_op (Trim i) v)"
proof (cases open_end)
  case True
  with assms show ?thesis by (cases c) (auto simp: rep_def next_open_def fun_eq_iff)
next
  case False
  then have "log_rep C (snd c) k v" using assms(1) by (simp add: rep_def)
  then obtain bs where bs: "map (de_entry C) bs = map Inr (v_log v)" "length bs = length (v_log v)"
    "k = v_offset v + length bs" "k < usize_limit" "snd c = log_map (v_offset v) bs"
    by (rule rep_closed_log)
  have lg: "batch_apply1 c (BDeleteRangeCf (to_be_bytes 0) (to_be_bytes i)) =
      (fst c, log_map i (drop (i - v_offset v) bs))"
    using log_map_trim [of "v_offset v" i bs] bs assms(2) by (cases c) auto
  have "map (de_entry C) (drop (i - v_offset v) bs) = map Inr (drop (i - v_offset v) (v_log v))"
    using bs(1) by (simp add: drop_map [symmetric])
  then show ?thesis
    using False assms lg bs
    by (auto simp: rep_def next_open_def log_rep_def log_map_Nil intro!: exI [of _ "drop (i - v_offset v) bs"])
qed

lemma scalar_rep_put:
  assumes "rep C open_end c k v" and "scalar_rep C ((fst c)(key \<mapsto> b)) v'"
    and "v_log v' = v_log v" and "v_offset v' = v_offset v"
  shows "rep C open_end (batch_apply1 c (BPut key b)) k v'"
  using assms by (cases c) (auto simp: rep_def log_rep_def)

text \<open>The bytes each scalar operation writes under its key.\<close>

definition scalar_bytes :: "('t, 'n) StorageOp \<Rightarrow> bytes \<times> bytes StorageResult" where
  "scalar_bytes x = (case x of
     SetPromise b \<Rightarrow> (NPROM, ser_ballot C b) | SetAcceptedRound b \<Rightarrow> (ACC, ser_ballot C b)
   | SetDecidedIndex i \<Rightarrow> (DECIDE, Inr (usize_as_bytes C i)) | SetCompactedIdx i \<Rightarrow> (TRIM, Inr (usize_as_bytes C i))
   | SetStopsign ss \<Rightarrow> (STOPSIGN, ser_stopsign C ss) | SetSnapshot sn \<Rightarrow> (SNAPSHOT, ser_snapshot C sn)
   | _ \<Rightarrow> ([], Inr []))"

definition scalar_op :: "('t, 'n) StorageOp \<Rightarrow> bool" where
  "scalar_op x = (case x of AppendEntry _ \<Rightarrow> False | AppendEntries _ \<Rightarrow> False | AppendOnPrefix _ _ \<Rightarrow> False
     | Trim _ \<Rightarrow> False | _ \<Rightarrow> True)"

lemmas scalar_op_defs = scalar_bytes_def scalar_rep_def read_ballot_def read_usize_def read_stopsign_def
  read_snapshot_def ok_or_def

lemma scalar_op_rep:
  assumes "rep C open_end c k v" and "view_op_ok x v" and "scalar_op x"
  shows "\<exists>b. snd (scalar_bytes x) = Inr b \<and> rep C open_end (batch_apply1 c (BPut (fst (scalar_bytes x)) b)) k (view_op x v)"
proof -
  have scal: "scalar_rep C (fst c) v" using assms(1) by (simp add: rep_def)
  have "\<exists>b. snd (scalar_bytes x) = Inr b \<and> scalar_rep C ((fst c)(fst (scalar_bytes x) \<mapsto> b)) (view_op x v)"
  proof (cases x)
    case (SetPromise b)
    with scal assms(2) ballot_law [of b] show ?thesis by (auto simp: scalar_op_defs)
  next
    case (SetAcceptedRound b)
    with scal assms(2) ballot_law [of b] show ?thesis by (auto simp: scalar_op_defs)
  next
    case (SetDecidedIndex i)
    with scal assms(2) usize_law [of i] show ?thesis by (auto simp: scalar_op_defs)
  next
    case (SetCompactedIdx i)
    with scal assms(2) usize_law [of i] show ?thesis by (auto simp: scalar_op_defs)
  next
    case (SetStopsign ss)
    with scal assms(2) stopsign_law [of ss] show ?thesis by (auto simp: scalar_op_defs)
  next
    case (SetSnapshot sn)
    with scal assms(2) snapshot_law [of sn] show ?thesis by (auto simp: scalar_op_defs)
  qed (use assms(3) in \<open>auto simp: scalar_op_def\<close>)
  moreover have "v_log (view_op x v) = v_log v" "v_offset (view_op x v) = v_offset v"
    using assms(3) by (cases x; simp add: scalar_op_def)+
  ultimately show ?thesis using scalar_rep_put [OF assms(1)] by blast
qed

lemma batch_scalar:
  assumes "scalar_op x" and "snd (scalar_bytes x) = Inr b"
  shows "PersistentStorage_batch_op C s x = (batch_add s (BPut (fst (scalar_bytes x)) b), Inr ())"
  using assms
  by (cases x) (auto simp: scalar_op_def scalar_bytes_def batch_put_ser_def batch_set_promise_def
      batch_set_decided_idx_def batch_set_accepted_round_def batch_set_compacted_idx_def batch_set_stopsign_def
      batch_set_snapshot_def)

lemma batch_op_rep:
  assumes "rep C open_end (pending DB s) (next_log_key s) v" and "view_op_ok x v" and "step_settled open_end x"
  shows "\<exists>s'. PersistentStorage_batch_op C s x = (s', Inr ()) \<and> ps_db s' = ps_db s \<and>
      rep C (next_open open_end x v) (pending DB s') (next_log_key s') (view_op x v)"
proof (cases "scalar_op x")
  case True
  then have "next_open open_end x v = open_end" by (cases x) (auto simp: scalar_op_def next_open_def)
  with scalar_op_rep [OF assms(1,2) True] batch_scalar [OF True] show ?thesis
    by (fastforce simp: pending_add)
next
  case False
  then show ?thesis
  proof (cases x)
    case (AppendEntry e)
    with assms append_rep [of s v "[e]"] show ?thesis
      by (auto simp: step_settled_def next_open_def batch_append_entry_eq)
  next
    case (AppendEntries es)
    with assms append_rep [of s v es] show ?thesis by (auto simp: step_settled_def next_open_def)
  next
    case (AppendOnPrefix i es)
    with assms append_on_prefix_rep [OF assms(1), of i es] show ?thesis by (auto simp: next_open_def)
  next
    case (Trim i)
    with assms trim_rep [OF assms(1), of i] show ?thesis by (simp add: batch_trim_def pending_add)
  qed (auto simp: scalar_op_def)
qed

lemma batch_op_ranges:
  assumes "rep C open_end c (next_log_key s) v" and "view_op_ok x v" and "list_all range_ok (write_batch s)"
  shows "list_all range_ok (write_batch (fst (PersistentStorage_batch_op C s x)))"
proof (cases "scalar_op x")
  case True
  obtain b where "snd (scalar_bytes x) = Inr b" using scalar_op_rep [OF assms(1,2) True] by blast
  from batch_scalar [OF True this, of s] show ?thesis using assms(3) by (simp add: batch_add_def)
next
  case False
  have key: "next_log_key s < usize_limit" using assms(1) by (auto simp: rep_def log_rep_def split: if_splits)
  from False show ?thesis
  proof (cases x)
    case (AppendOnPrefix i es)
    have "list_all range_ok (write_batch (if usize_add i (length es) < next_log_key s
        then batch_add s (BDeleteRangeCf (to_be_bytes (usize_add i (length es))) (to_be_bytes (next_log_key s))) else s))"
      using assms(3) key by (simp add: batch_add_def to_be_bytes_less less_imp_le)
    with AppendOnPrefix show ?thesis
      by (simp add: batch_append_on_prefix_def Let_def batch_append_entries_ranges)
  next
    case (Trim i)
    with assms(2,3) show ?thesis
      by (simp add: batch_trim_def batch_add_def to_be_bytes_less not_less [symmetric])
  qed (use assms(3) in \<open>auto simp: scalar_op_def batch_append_entry_eq batch_append_entries_ranges
      simp del: batch_append_entries.simps\<close>)
qed

lemma batch_ops_rep:
  assumes "rep C open_end (pending DB s) (next_log_key s) v" and "view_ops_legal ops v" and "settled open_end ops v"
    and "list_all range_ok (write_batch s)"
  shows "\<exists>s'. batch_ops C s ops = (s', Inr ()) \<and> ps_db s' = ps_db s \<and> list_all range_ok (write_batch s') \<and>
      rep C False (pending DB s') (next_log_key s') (view_ops ops v)"
  using assms
proof (induction ops arbitrary: s v open_end)
  case (Cons x xs)
  then obtain s1 where s1: "PersistentStorage_batch_op C s x = (s1, Inr ())" "ps_db s1 = ps_db s"
    "rep C (next_open open_end x v) (pending DB s1) (next_log_key s1) (view_op x v)"
    using batch_op_rep [of open_end s v x] by (auto simp: settled_Cons)
  moreover have "list_all range_ok (write_batch s1)"
    using batch_op_ranges [OF Cons.prems(1) _ Cons.prems(4), of x] Cons.prems(2) s1(1) by simp
  ultimately show ?case using Cons.IH [OF s1(3)] Cons.prems(2,3) by (auto simp: settled_Cons)
qed (simp add: prod_eq_iff)

text \<open>A database that represents a log is read back as that log.\<close>

lemma iter_log:
  assumes "log_rep C (snd (db_content DB d)) k v"
  obtains bs where "db_iter_cf DB d = log_list (v_offset v) bs" and "map (de_entry C) bs = map Inr (v_log v)"
    and "length bs = length (v_log v)" and "k = v_offset v + length bs" and "k < usize_limit"
proof -
  from assms obtain bs where bs: "map (de_entry C) bs = map Inr (v_log v)" "length bs = length (v_log v)"
    "k = v_offset v + length bs" "k < usize_limit" "snd (db_content DB d) = log_map (v_offset v) bs"
    by (rule rep_closed_log)
  then have "db_iter_cf DB d = log_list (v_offset v) bs"
    by (intro sorted_map_unique iter_law log_list_sorted) (auto simp: map_of_log_list db_content_def)
  with bs that show ?thesis by blast
qed

lemma ps_getters:
  assumes "scalar_rep C (fst (db_content DB (ps_db s))) v"
  shows "PersistentStorage_get_promise DB C s = Inr (v_promise v)"
    and "PersistentStorage_get_accepted_round DB C s = Inr (v_acc_round v)"
    and "PersistentStorage_get_decided_idx DB C s = Inr (v_decided v)"
    and "PersistentStorage_get_compacted_idx DB C s = Inr (v_compacted v)"
    and "PersistentStorage_get_stopsign DB C s = Inr (v_stopsign v)"
    and "PersistentStorage_get_snapshot DB C s = Inr (v_snapshot v)"
  using assms get_law by (simp_all add: scalar_rep_def PersistentStorage_getters)

lemma rep_view:
  assumes "rep C False (db_content DB (ps_db s)) (next_log_key s) v"
  shows "ps_view DB C s = v"
proof -
  have rep: "scalar_rep C (fst (db_content DB (ps_db s))) v"
    "log_rep C (snd (db_content DB (ps_db s))) (next_log_key s) v"
    using assms by (simp_all add: rep_def)
  from rep(2) obtain bs where bs: "db_iter_cf DB (ps_db s) = log_list (v_offset v) bs"
    "map (de_entry C) bs = map Inr (v_log v)" "length bs = length (v_log v)"
    "next_log_key s = v_offset v + length bs" "next_log_key s < usize_limit"
    by (rule iter_log)
  have "map (\<lambda>(_, b). projr (de_entry C b)) (log_list (v_offset v) bs) = map projr (map (de_entry C) bs)"
    by (rule nth_equalityI) (simp_all add: log_list_def)
  also have "\<dots> = v_log v" unfolding bs(2) by (simp add: o_def)
  finally show ?thesis
    using bs ps_getters [OF rep(1)] by (simp add: ps_view_def log_list_def)
qed

lemma invarI:
  assumes "write_batch s = []" and "rep C False (db_content DB (ps_db s)) (next_log_key s) v"
  shows "ps_invar DB C s \<and> ps_view DB C s = v"
  using assms rep_view by (simp add: ps_invar_def)

lemma write_atomically_rep:
  assumes "ps_invar DB C s" and "view_ops_ok ops (ps_view DB C s)"
  shows "\<exists>s'. PersistentStorage_write_atomically DB C s ops = (s', Inr ()) \<and> ps_invar DB C s' \<and>
      ps_view DB C s' = view_ops ops (ps_view DB C s)"
proof -
  have "rep C False (pending DB s) (next_log_key s) (ps_view DB C s)" "list_all range_ok (write_batch s)"
    using assms(1) by (simp_all add: ps_invar_def pending_def)
  then obtain s1 where s1: "batch_ops C s ops = (s1, Inr ())" "list_all range_ok (write_batch s1)"
    "rep C False (pending DB s1) (next_log_key s1) (view_ops ops (ps_view DB C s))"
    using batch_ops_rep [of False s "ps_view DB C s" ops] assms(2) by (auto simp: view_ops_ok_def)
  obtain d where d: "db_write DB (ps_db s1) (write_batch s1) = (d, Inr ())" "db_content DB d = pending DB s1"
    using write_law [OF s1(2), of "ps_db s1"] by (auto simp: pending_def)
  with s1 invarI [of "s1\<lparr>ps_db := d, write_batch := []\<rparr>"] show ?thesis
    by (auto simp: PersistentStorage_write_atomically_def)
qed

lemma append_entries_rep:
  assumes "ps_invar DB C s" and "view_op_ok (AppendEntries es) (ps_view DB C s)"
  shows "\<exists>s'. PersistentStorage_append_entries DB C s es = (s', Inr ()) \<and> ps_invar DB C s' \<and>
      ps_view DB C s' = view_op (AppendEntries es) (ps_view DB C s)"
proof -
  have inv: "write_batch s = []" "rep C False (pending DB s) (next_log_key s) (ps_view DB C s)"
    using assms(1) by (simp_all add: ps_invar_def pending_def)
  then obtain s1 where s1: "batch_append_entries C s es = (s1, Inr ())"
    "rep C False (pending DB s1) (next_log_key s1) (view_op (AppendEntries es) (ps_view DB C s))"
    using append_rep [of s "ps_view DB C s" es] assms(2) by auto
  have "list_all range_ok (write_batch s1)"
    using batch_append_entries_ranges [of s C es] s1(1) inv(1) by simp
  then obtain d where d: "db_write DB (ps_db s1) (write_batch s1) = (d, Inr ())" "db_content DB d = pending DB s1"
    using write_law [of "write_batch s1" "ps_db s1"] by (auto simp: pending_def)
  have same: "s\<lparr>write_batch := []\<rparr> = s" using inv(1) by simp
  have "append_batch C s [] es = (s1\<lparr>write_batch := []\<rparr>, Inr (write_batch s1))"
    using append_batch_eq [where s = s and batch = "[]" and es = es, unfolded same, OF s1(1)]
    by (simp only: inv(1))
  with s1 d invarI [of "s1\<lparr>write_batch := [], ps_db := d\<rparr>"] show ?thesis
    by (auto simp: PersistentStorage_append_entries_def)
qed

lemma put_rep:
  assumes "ps_invar DB C s" and "scalar_op x" and "view_op_ok x (ps_view DB C s)"
    and "scalar_bytes x = (key, ser)"
  shows "\<exists>s'. put_ser DB s key ser = (s', Inr ()) \<and> ps_invar DB C s' \<and>
      ps_view DB C s' = view_op x (ps_view DB C s)"
proof -
  have inv: "write_batch s = []" "rep C False (db_content DB (ps_db s)) (next_log_key s) (ps_view DB C s)"
    using assms(1) by (simp_all add: ps_invar_def)
  obtain b where b: "ser = Inr b"
    "rep C False (batch_apply1 (db_content DB (ps_db s)) (BPut key b)) (next_log_key s) (view_op x (ps_view DB C s))"
    using scalar_op_rep [OF inv(2) assms(3,2)] assms(4) by auto
  obtain d where d: "db_put DB (ps_db s) key b = (d, Inr ())"
    "db_content DB d = batch_apply1 (db_content DB (ps_db s)) (BPut key b)"
    using put_law [of "ps_db s" key b] by auto
  with b inv invarI [of "s\<lparr>ps_db := d\<rparr>" "view_op x (ps_view DB C s)"] show ?thesis
    by (auto simp: put_ser_def)
qed

lemma get_entries_rep:
  assumes "ps_invar DB C s" and "v_offset (ps_view DB C s) \<le> i" and "v_offset (ps_view DB C s) \<le> j"
    and "i < usize_limit"
  shows "PersistentStorage_get_entries DB C s i j = Inr (view_entries (ps_view DB C s) i j)"
proof -
  let ?v = "ps_view DB C s"
  have "log_rep C (snd (db_content DB (ps_db s))) (next_log_key s) ?v"
    using assms(1) by (simp add: ps_invar_def rep_def)
  then obtain bs where bs: "db_iter_cf DB (ps_db s) = log_list (v_offset ?v) bs"
    "map (de_entry C) bs = map Inr (v_log ?v)" "length bs = length (v_log ?v)"
    "next_log_key s = v_offset ?v + length bs" "next_log_key s < usize_limit"
    by (rule iter_log)
  show ?thesis
  proof (cases "next_log_key s < j \<or> j \<le> i")
    case True
    then show ?thesis using bs by (auto simp: PersistentStorage_get_entries_def view_entries_def)
  next
    case False
    have "map snd (log_list (v_offset ?v) bs) = bs" by (simp add: log_list_def)
    then have "map (de_entry C) (map snd (drop (i - v_offset ?v) (log_list (v_offset ?v) bs))) =
        map Inr (drop (i - v_offset ?v) (v_log ?v))"
      using bs(2) by (metis drop_map)
    moreover have "j - i \<le> length (drop (i - v_offset ?v) (log_list (v_offset ?v) bs))"
      using False assms(2) bs(3,4) by (simp add: log_list_def diff_le_mono)
    ultimately show ?thesis
      using False assms bs
      by (simp add: PersistentStorage_get_entries_def dropWhile_log_list read_entries_from_eq view_entries_def)
  qed
qed

end

context persistent
begin

text \<open>Opening the database again gives back the storage, if the compacted index was kept.\<close>

lemma reopen:
  assumes "ps_invar DB C s" and "v_compacted (ps_view DB C s) = v_offset (ps_view DB C s)"
  shows "PersistentStorage_recover DB C (ps_db s) = Inr s"
proof -
  let ?v = "ps_view DB C s"
  have rep: "scalar_rep C (fst (db_content DB (ps_db s))) ?v"
    "log_rep C (snd (db_content DB (ps_db s))) (next_log_key s) ?v" and batch: "write_batch s = []"
    using assms(1) by (simp_all add: ps_invar_def rep_def)
  from rep(2) obtain bs where bs: "db_iter_cf DB (ps_db s) = log_list (v_offset ?v) bs"
    "next_log_key s = v_offset ?v + length bs" "next_log_key s < usize_limit"
    by (rule iter_log)
  have s: "\<lparr>ps_db = ps_db s, write_batch = [], next_log_key = next_log_key s\<rparr> = s"
    using batch by simp
  show ?thesis
  proof (cases "bs = []")
    case True
    then have "db_iter_cf DB (ps_db s) = []" using bs by (simp add: log_list_def)
    moreover have "read_usize C (fst (db_content DB (ps_db s)) TRIM) = Inr (next_log_key s)"
      using rep(1) assms(2) bs True by (simp add: scalar_rep_def)
    ultimately show ?thesis
      using s get_law [of "ps_db s" TRIM]
      by (auto simp: PersistentStorage_recover_def read_usize_def ok_or_def split: option.splits)
  next
    case False
    then have "last (log_list (v_offset ?v) bs) = (to_be_bytes (v_offset ?v + length bs - 1), last bs)"
      by (simp add: log_list_def last_zip last_map last_upt)
    then have "fst (last (db_iter_cf DB (ps_db s))) = to_be_bytes (next_log_key s - 1)" "next_log_key s \<noteq> 0"
      using bs False by (simp_all add: Suc_le_eq)
    moreover have "db_iter_cf DB (ps_db s) \<noteq> []" using bs False by (simp add: log_list_def)
    ultimately show ?thesis
      using s bs(3) by (simp add: PersistentStorage_recover_def from_to_be_bytes usize_add_exact)
  qed
qed

end

sublocale persistent \<subseteq> log_storage "PersistentStorage_impl DB C hash" "ps_view DB C" "ps_invar DB C" for hash
proof (unfold_locales, goal_cases)
  case (1 s)
  then show ?case by (auto simp: ps_invar_def rep_def elim!: rep_closed_log)
next
  case (2 s ops)
  then show ?case using write_atomically_rep by (simp add: PersistentStorage_impl_def)
next
  case (3 s es)
  then show ?case using append_entries_rep by (simp add: PersistentStorage_impl_def)
next
  case (4 s b)
  then show ?case using put_rep [of s "SetPromise b"]
    by (simp add: PersistentStorage_impl_def PersistentStorage_set_promise_def scalar_op_def scalar_bytes_def)
next
  case (5 s i)
  then show ?case using put_rep [of s "SetDecidedIndex i"]
    by (simp add: PersistentStorage_impl_def PersistentStorage_set_decided_idx_def scalar_op_def scalar_bytes_def)
next
  case (6 s ss)
  then show ?case using put_rep [of s "SetStopsign ss"]
    by (simp add: PersistentStorage_impl_def PersistentStorage_set_stopsign_def scalar_op_def scalar_bytes_def)
next
  case (13 s)
  then have "scalar_rep C (fst (db_content DB (ps_db s))) (ps_view DB C s)"
    "log_rep C (snd (db_content DB (ps_db s))) (next_log_key s) (ps_view DB C s)"
    by (simp_all add: ps_invar_def rep_def)
  with 13 ps_getters show ?case
    by (auto simp: PersistentStorage_impl_def PersistentStorage_get_log_len_def usize_sub_exact elim!: rep_closed_log)
next
  case (14 s i j)
  then show ?case using get_entries_rep by (simp add: PersistentStorage_impl_def)
next
  case (15 s i)
  then have "next_log_key s = v_end (ps_view DB C s)" "next_log_key s < usize_limit"
    by (auto simp: ps_invar_def rep_def elim!: rep_closed_log)
  with 15 get_entries_rep [of s i "next_log_key s"] show ?case
    by (simp add: PersistentStorage_impl_def PersistentStorage_get_suffix_def)
qed (auto simp: PersistentStorage_impl_def ps_invar_def rep_def ps_getters)

end
