(* ===== verification/Persistent_Properties.thy ===== *)
theory Persistent_Properties
  imports Persistent_Storage_Laws "HOL-Library.RBT"
begin

text \<open>
  A database and serialisers that keep the promises of \<open>rocksdb\<close> and \<open>codec\<close>, and the properties
  of the persistent storage: batches are carried out completely, a restart finds the state before
  or after a batch and nothing in between, and what a failed batch leaves behind.
\<close>

section \<open>A database\<close>

text \<open>A database of two search trees and simple serialisers that keep the promises.\<close>

type_synonym tree_db = "(bytes, bytes) rbt \<times> (bytes, bytes) rbt"

fun tree_apply1 :: "tree_db \<Rightarrow> BatchOp \<Rightarrow> tree_db" where
  "tree_apply1 (kv, lg) (BPut k v) = (RBT.insert k v kv, lg)"
| "tree_apply1 (kv, lg) (BPutCf k v) = (kv, RBT.insert k v lg)"
| "tree_apply1 (kv, lg) (BDeleteRangeCf a b) =
     (kv, RBT.bulkload (filter (\<lambda>(k, _). \<not> (a \<le> k \<and> k < b)) (RBT.entries lg)))"

definition tree_rocksdb :: "tree_db RocksDB" where
  "tree_rocksdb =
     \<lparr>db_get = \<lambda>d k. Inr (RBT.lookup (fst d) k),
      db_put = \<lambda>d k v. (tree_apply1 d (BPut k v), Inr ()),
      db_put_cf = \<lambda>d k v. (tree_apply1 d (BPutCf k v), Inr ()),
      db_delete_range_cf = \<lambda>d a b. (tree_apply1 d (BDeleteRangeCf a b), Inr ()),
      db_write = \<lambda>d xs. (foldl tree_apply1 d xs, Inr ()),
      db_iter_cf = \<lambda>d. RBT.entries (snd d)\<rparr>"

lemma tree_content: "db_content tree_rocksdb d = (RBT.lookup (fst d), RBT.lookup (snd d))"
  by (simp add: db_content_def tree_rocksdb_def map_of_entries fun_eq_iff)

lemma map_of_filter_keys: "map_of (filter (\<lambda>(k, _). P k) xs) = (\<lambda>k. if P k then map_of xs k else None)"
  by (induction xs) (auto simp: fun_eq_iff)

lemma tree_apply1_content:
  "db_content tree_rocksdb (tree_apply1 d x) = batch_apply1 (db_content tree_rocksdb d) x"
  by (cases d; cases x)
    (auto simp: tree_content fun_eq_iff map_of_filter_keys map_of_entries)

lemma tree_apply_content:
  "db_content tree_rocksdb (foldl tree_apply1 d xs) = batch_apply xs (db_content tree_rocksdb d)"
  by (induction xs arbitrary: d) (simp_all add: tree_apply1_content)

lemma tree_ops:
  "db_get tree_rocksdb d k = Inr (RBT.lookup (fst d) k)"
  "db_put tree_rocksdb d k v = (tree_apply1 d (BPut k v), Inr ())"
  "db_put_cf tree_rocksdb d k v = (tree_apply1 d (BPutCf k v), Inr ())"
  "db_delete_range_cf tree_rocksdb d a b = (tree_apply1 d (BDeleteRangeCf a b), Inr ())"
  "db_write tree_rocksdb d xs = (foldl tree_apply1 d xs, Inr ())"
  "db_iter_cf tree_rocksdb d = RBT.entries (snd d)"
  by (simp_all add: tree_rocksdb_def)

interpretation tree: rocksdb tree_rocksdb
  by unfold_locales
    (simp_all only: tree_ops tree_apply1_content tree_apply_content foldl.simps prod.inject simp_thms ex_simps
      strict_sorted_iff RBT.sorted_entries RBT.distinct_entries, simp_all add: tree_content)

text \<open>Serialisers: every value as a list of numbers, every number in unary (indexes in eight bytes).\<close>

definition enc_nats :: "nat list \<Rightarrow> bytes" where
  "enc_nats ns = concat (map (\<lambda>n. replicate n 1 @ [0]) ns)"

fun dec_nats :: "nat \<Rightarrow> bytes \<Rightarrow> nat list" where
  "dec_nats n [] = []"
| "dec_nats n (b # bs) = (if b = 0 then n # dec_nats 0 bs else dec_nats (Suc n) bs)"

lemma dec_nats_replicate: "dec_nats m (replicate n 1 @ 0 # bs) = (m + n) # dec_nats 0 bs"
  by (induction n arbitrary: m) simp_all

lemma dec_enc_nats: "dec_nats 0 (enc_nats ns) = ns"
  by (induction ns) (simp_all add: enc_nats_def dec_nats_replicate)

definition ballot_nats :: "Ballot \<Rightarrow> nat list" where
  "ballot_nats b = [unat (b_config_id b), unat (b_n b), unat (b_priority b), unat (b_pid b)]"

definition nats_ballot :: "nat list \<Rightarrow> Ballot" where
  "nats_ballot ns = Ballot_with (of_nat (ns ! 0)) (of_nat (ns ! 1)) (of_nat (ns ! 2)) (of_nat (ns ! 3))"

definition quorum_nats :: "FlexibleQuorum option \<Rightarrow> nat list" where
  "quorum_nats q = (case q of None \<Rightarrow> [0, 0, 0] | Some q \<Rightarrow> [1, read_quorum_size q, write_quorum_size q])"

definition nats_quorum :: "nat list \<Rightarrow> FlexibleQuorum option" where
  "nats_quorum ns = (if ns ! 0 = 0 then None else Some \<lparr>read_quorum_size = ns ! 1, write_quorum_size = ns ! 2\<rparr>)"

definition stopsign_nats :: "StopSign option \<Rightarrow> nat list" where
  "stopsign_nats ss = (case ss of None \<Rightarrow> [] | Some ss \<Rightarrow>
     [unat (configuration_id (next_config ss)), length (cc_nodes (next_config ss))] @
     map unat (cc_nodes (next_config ss)) @ quorum_nats (cc_flexible_quorum (next_config ss)) @
     (case metadata ss of None \<Rightarrow> [] | Some bs \<Rightarrow> 0 # map unat bs))"

definition nats_stopsign :: "nat list \<Rightarrow> StopSign option" where
  "nats_stopsign ns = (case ns of
     c # k # ns \<Rightarrow> Some \<lparr>next_config = \<lparr>configuration_id = of_nat c, cc_nodes = map of_nat (take k ns),
        cc_flexible_quorum = nats_quorum (take 3 (drop k ns))\<rparr>,
        metadata = (case drop (k + 3) ns of [] \<Rightarrow> None | _ # bs \<Rightarrow> Some (map of_nat bs))\<rparr>
   | _ \<Rightarrow> None)"

lemma nats_ballot: "nats_ballot (ballot_nats b) = b"
  by (simp add: nats_ballot_def ballot_nats_def Ballot_with_def)

lemma nats_quorum: "nats_quorum (quorum_nats q) = q" "length (quorum_nats q) = 3"
  by (auto simp: nats_quorum_def quorum_nats_def split: option.splits)

lemma nats_stopsign: "nats_stopsign (stopsign_nats ss) = ss"
proof (cases ss)
  case (Some s)
  then show ?thesis
    by (cases "metadata s") (simp_all add: nats_stopsign_def stopsign_nats_def nats_quorum o_def)
qed (simp add: nats_stopsign_def stopsign_nats_def)

text \<open>For a log of numbers without snapshots.\<close>

definition unary_codec :: "(nat, NoSnapshot) Codec" where
  "unary_codec =
     \<lparr>ser_entry = \<lambda>e. Inr (enc_nats [e]), de_entry = \<lambda>bs. Inr (hd (dec_nats 0 bs)),
      ser_ballot = \<lambda>b. Inr (enc_nats (ballot_nats b)), de_ballot = \<lambda>bs. Inr (nats_ballot (dec_nats 0 bs)),
      ser_stopsign = \<lambda>ss. Inr (enc_nats (stopsign_nats ss)), de_stopsign = \<lambda>bs. Inr (nats_stopsign (dec_nats 0 bs)),
      ser_snapshot = \<lambda>sn. Inr (case sn of None \<Rightarrow> [] | Some _ \<Rightarrow> [0]),
      de_snapshot = \<lambda>bs. Inr (if bs = [] then None else Some NoSnapshot),
      usize_as_bytes = \<lambda>i. to_be_bytes i,
      usize_read_from = \<lambda>bs. if length bs = 8 then Some (from_be_bytes bs) else None\<rparr>"

interpretation unary: codec unary_codec
proof (unfold_locales, goal_cases)
  case (4 sn)
  have "sn = None \<or> sn = Some NoSnapshot" by (cases sn; cases "the sn") auto
  then show ?case by (auto simp: unary_codec_def)
qed (auto simp: unary_codec_def dec_enc_nats nats_ballot nats_stopsign from_to_be_bytes)

interpretation tree_unary: persistent tree_rocksdb unary_codec ..

text \<open>An empty storage on an empty database.\<close>

definition example_ps :: "tree_db PersistentStorage" where
  "example_ps = \<lparr>ps_db = (RBT.empty, RBT.empty), write_batch = [], next_log_key = 0\<rparr>"

definition example_ps_config :: "unit PersistentStorageConfig" where
  "example_ps_config = PersistentStorageConfig_default () id"

definition empty_view :: "('t, 'n) StoreView" where
  "empty_view = \<lparr>v_offset = 0, v_log = [], v_promise = None, v_acc_round = None, v_decided = 0, v_compacted = 0,
     v_snapshot = None, v_stopsign = None\<rparr>"

lemma example_ps_invar: "ps_invar tree_rocksdb unary_codec example_ps \<and>
    ps_view tree_rocksdb unary_codec example_ps = empty_view"
  by (rule tree_unary.invarI)
    (simp_all add: example_ps_def tree_content rep_def scalar_rep_def read_ballot_def read_usize_def
      read_stopsign_def read_snapshot_def log_rep_def log_map_Nil empty_view_def)

lemma batch_append_entries_db: "ps_db (fst (batch_append_entries C s es)) = ps_db s"
proof (induction es arbitrary: s)
  case (Cons e es)
  then show ?case by (cases "ser_entry C e") simp_all
qed simp

lemma batch_put_ser_db: "ps_db (fst (batch_put_ser s key ser)) = ps_db s"
  by (cases ser) (simp_all add: batch_put_ser_def)

lemma batch_op_db: "ps_db (fst (PersistentStorage_batch_op C s x)) = ps_db s"
  by (cases x) (simp_all add: batch_append_entry_eq batch_append_entries_db batch_append_on_prefix_def Let_def
      batch_trim_def batch_set_promise_def batch_set_decided_idx_def batch_set_accepted_round_def
      batch_set_compacted_idx_def batch_set_stopsign_def batch_set_snapshot_def batch_put_ser_db
      del: batch_append_entries.simps)

text \<open>Until the batch is written the database is untouched, whether or not collecting it succeeds.\<close>

lemma batch_ops_db: "ps_db (fst (batch_ops C s ops)) = ps_db s"
proof (induction ops arbitrary: s)
  case (Cons x xs)
  obtain s1 r where op: "PersistentStorage_batch_op C s x = (s1, r)" by fastforce
  then have "ps_db s1 = ps_db s" using batch_op_db [of C s x] by simp
  with op Cons show ?case by (cases r) simp_all
qed simp

text \<open>
  C15. On a database and with serialisers that do what they document, \<open>write_atomically\<close> of the
  persistent storage carries out every legal batch completely: it succeeds, leaves nothing in the
  batch, and the stored log and values are those obtained by applying the operations in order.
\<close>

theorem persistent_write_atomically_refines:
  assumes "rocksdb DB" and "codec C" and "ps_invar DB C s" and "view_ops_ok ops (ps_view DB C s)"
  shows "\<exists>s'. PersistentStorage_write_atomically DB C s ops = (s', Inr ()) \<and> ps_invar DB C s' \<and>
      ps_view DB C s' = view_ops ops (ps_view DB C s)"
  using persistent.write_atomically_rep [OF persistent.intro [OF assms(1,2)] assms(3,4)] .

theorem persistent_write_atomically_refines_witness:
  "\<exists>s'. PersistentStorage_write_atomically tree_rocksdb unary_codec example_ps
          [AppendEntries [10, 20, 30], AppendOnPrefix 2 [7, 8], Trim 1] = (s', Inr ()) \<and>
        v_log (ps_view tree_rocksdb unary_codec s') = [20, 7, 8] \<and> v_offset (ps_view tree_rocksdb unary_codec s') = 1"
proof -
  let ?ops = "[AppendEntries [10, 20, 30], AppendOnPrefix 2 [7, 8], Trim 1]"
  have inv: "ps_invar tree_rocksdb unary_codec example_ps" using example_ps_invar by blast
  have view: "ps_view tree_rocksdb unary_codec example_ps = empty_view" using example_ps_invar by blast
  have "view_ops_ok ?ops (ps_view tree_rocksdb unary_codec example_ps)"
    by (simp add: view view_ops_ok_def empty_view_def)
  from persistent_write_atomically_refines [OF tree.rocksdb_axioms unary.codec_axioms inv this] show ?thesis
    by (auto simp: view empty_view_def)
qed

text \<open>
  C9. A restart finds the storage before a batch or after it. Wherever in the collection of a legal
  batch the process stops, opening the database again gives exactly the storage before the batch; once
  the batch is written, opening the database gives exactly the storage the write returned, with its
  next log key, provided the batch keeps the compacted index at the start of the log.
\<close>

theorem persistent_restart:
  assumes "rocksdb DB" and "codec C" and "ps_invar DB C s" and "view_ops_ok ops (ps_view DB C s)"
    and "v_compacted (ps_view DB C s) = v_offset (ps_view DB C s)"
    and "v_compacted (view_ops ops (ps_view DB C s)) = v_offset (view_ops ops (ps_view DB C s))"
  shows "PersistentStorage_open DB C (\<lambda>_. Inr (ps_db (fst (batch_ops C s (take n ops))))) cfg = Inr s \<and>
      (\<exists>s'. PersistentStorage_write_atomically DB C s ops = (s', Inr ()) \<and>
            ps_view DB C s' = view_ops ops (ps_view DB C s) \<and>
            PersistentStorage_open DB C (\<lambda>_. Inr (ps_db s')) cfg = Inr s')"
proof -
  note P = persistent.intro [OF assms(1,2)]
  obtain s' where s': "PersistentStorage_write_atomically DB C s ops = (s', Inr ())" "ps_invar DB C s'"
    "ps_view DB C s' = view_ops ops (ps_view DB C s)"
    using persistent.write_atomically_rep [OF P assms(3,4)] by blast
  have "PersistentStorage_recover DB C (ps_db s') = Inr s'"
    using persistent.reopen [OF P s'(2)] s'(3) assms(6) by simp
  with s' persistent.reopen [OF P assms(3,5)] show ?thesis
    by (simp add: batch_ops_db PersistentStorage_open_def)
qed

theorem persistent_restart_witness:
  "PersistentStorage_open tree_rocksdb unary_codec (\<lambda>_. Inr (ps_db (fst (batch_ops unary_codec example_ps
       (take 1 [AppendEntries [10, 20], Trim 1, SetCompactedIdx 1]))))) example_ps_config = Inr example_ps \<and>
   (\<exists>s'. PersistentStorage_write_atomically tree_rocksdb unary_codec example_ps
          [AppendEntries [10, 20], Trim 1, SetCompactedIdx 1] = (s', Inr ()) \<and>
        v_log (ps_view tree_rocksdb unary_codec s') = [20] \<and>
        PersistentStorage_open tree_rocksdb unary_codec (\<lambda>_. Inr (ps_db s')) example_ps_config = Inr s')"
proof -
  let ?ops = "[AppendEntries [10, 20], Trim 1, SetCompactedIdx 1]"
  have inv: "ps_invar tree_rocksdb unary_codec example_ps" using example_ps_invar by blast
  have view: "ps_view tree_rocksdb unary_codec example_ps = empty_view" using example_ps_invar by blast
  have h: "view_ops_ok ?ops (ps_view tree_rocksdb unary_codec example_ps)"
    "v_compacted (ps_view tree_rocksdb unary_codec example_ps) = v_offset (ps_view tree_rocksdb unary_codec example_ps)"
    "v_compacted (view_ops ?ops (ps_view tree_rocksdb unary_codec example_ps)) =
     v_offset (view_ops ?ops (ps_view tree_rocksdb unary_codec example_ps))"
    by (simp_all add: view view_ops_ok_def empty_view_def)
  from persistent_restart [OF tree.rocksdb_axioms unary.codec_axioms inv h, of 1 example_ps_config] show ?thesis
    by (auto simp: view empty_view_def)
qed



end
