(* ===== verification/Replica_Liveness.thy ===== *)
theory Replica_Liveness
  imports Replica_Properties
begin

text \<open>
  A replica is never stuck: from every state it can reach, sections of its own tasks, of the waiter
  and of the clock bring every command it holds into the log and its acknowledgement to the
  client, except for commands in the late buffer, which wait for the leader to announce a new
  deadline. The proof follows a measure of the work left; waiting for a deadline takes as many
  ticks as the deadline is away.
\<close>

text \<open>What a replica does by itself.\<close>

fun internal :: "'t Event \<Rightarrow> bool" where
  "internal (RunTask _ _) = True"
| "internal (Tick _) = True"
| "internal (WaiterTake _) = True"
| "internal WaiterRegister = True"
| "internal WaiterNotify = True"
| "internal TakeClientOutgoing = True"
| "internal _ = False"

fun task_weight :: "'t Task \<Rightarrow> nat" where
  "task_weight (ProposeInsert _ _ _) = 8"
| "task_weight (ProposeAnnounce _ _ _ _) = 1"
| "task_weight (ProposeAck _ _ _ _) = 1"
| "task_weight _ = 0"

definition waiter_weight :: "('s, 't) SequencePaxos \<Rightarrow> nat" where
  "waiter_weight sp = (case waiter sp of WaiterIdle \<Rightarrow> 0 | WaiterPopped _ _ \<Rightarrow> 5
     | WaiterWaiting rx _ _ \<Rightarrow> (if dchans sp rx = Sent () then 3 else 4))"

definition work :: "('s, 't) SequencePaxos \<Rightarrow> nat" where
  "work sp = sum_list (map task_weight (tasks sp)) + 6 * length (early (buffers sp)) + waiter_weight sp +
     2 * length (delivered sp)"

lemma work_lessI:
  assumes "waiter sp' = waiter sp" and "dchans sp' = dchans sp"
    and "sum_list (map task_weight (tasks sp')) + 6 * length (early (buffers sp')) + 2 * length (delivered sp') <
         sum_list (map task_weight (tasks sp)) + 6 * length (early (buffers sp)) + 2 * length (delivered sp)"
  shows "work sp' < work sp"
proof -
  have "waiter_weight sp' = waiter_weight sp" unfolding waiter_weight_def assms(1,2) ..
  with assms(3) show ?thesis by (simp add: work_def)
qed

lemma world_run_append:
  "world_run S R e w (xs @ ys) = Option.bind (world_run S R e w xs) (\<lambda>w. world_run S R e w ys)"
  by (induction xs arbitrary: w) (simp_all add: bind_assoc)

lemma internal_proposed: "world_step S R e w ev = Some w' \<Longrightarrow> internal ev \<Longrightarrow> proposed w' = proposed w"
  by (cases ev) (auto simp: Let_def split: if_splits option.splits prod.splits)

lemma internal_run_proposed:
  "world_run S R e w evs = Some w' \<Longrightarrow> list_all internal evs \<Longrightarrow> proposed w' = proposed w"
proof (induction evs arbitrary: w)
  case (Cons ev evs)
  then show ?case by (auto simp: bind_eq_Some_conv dest: internal_proposed)
qed simp

text \<open>Running the first section of a task that does not panic.\<close>

lemma task_step:
  assumes "tasks (replica w) = ts1 @ t # ts2"
    and "run_task S R now ((replica w)\<lparr>tasks := ts1 @ ts2\<rparr>) t = Some (sp, rest, Inr ())"
  shows "world_run S R e w [RunTask (length ts1) now] = Some (w\<lparr>replica := sp\<lparr>tasks := tasks sp @ rest\<rparr>\<rparr>)"
  using assms by simp

text \<open>Ticking until a registered deadline has passed.\<close>

lemma tick_until:
  assumes "deadlines (clock (replica w)) = [d]" and "database (clock (replica w)) = [d \<mapsto> rx]"
  shows "\<exists>evs c new. list_all internal evs \<and>
      world_run S R e w evs = Some (w\<lparr>replica := (replica w)\<lparr>clock := c, tasks := tasks (replica w) @ new\<rparr>\<rparr>) \<and>
      sum_list (map task_weight new) = 0 \<and> concat (map task_chans new) = [] \<and> WakeDeadline rx \<in> set new"
  using assms
proof (induction "nat (d + 1 - logical_time (clock (replica w)))" arbitrary: w rule: less_induct)
  case less
  let ?c = "clock (replica w)"
  let ?t = "?c\<lparr>clock_counter := clock_counter ?c + 1, logical_time := logical_time ?c + int (tick_step True (drift ?c))\<rparr>"
  obtain c woken ds where tick: "tick_fn True ?c = (c, woken, ds)" by (cases "tick_fn True ?c")
  let ?new = "map WakeDeadline woken @ (if ds then [SyncStart] else [])"
  let ?w = "w\<lparr>replica := (replica w)\<lparr>clock := c, tasks := tasks (replica w) @ ?new\<rparr>\<rparr>"
  have run: "world_run S R e w [Tick True] = Some ?w"
    by (simp add: clock_tick_def tick)
  have quiet_new: "sum_list (map task_weight ?new) = 0" "concat (map task_chans ?new) = []"
    by (induction woken) auto
  have c: "woken = snd (process_deadlines ?t)" "logical_time c = logical_time ?t"
    "deadlines c = deadlines (fst (process_deadlines ?t))" "database c = database (fst (process_deadlines ?t))"
    using tick by (auto simp: tick_fn_def Let_def split_beta split: if_splits)
  show ?case
  proof (cases "d < logical_time ?t")
    case True
    then have "woken = [rx]" using c less.prems process_deadlines_single [of ?t d rx] by simp
    with run quiet_new show ?thesis by (intro exI [of _ "[Tick True]"] exI [of _ c] exI [of _ ?new]) auto
  next
    case False
    then have kept: "deadlines (clock (replica ?w)) = [d]" "database (clock (replica ?w)) = [d \<mapsto> rx]"
      using c less.prems process_deadlines_single [of ?t d rx] by auto
    have "nat (d + 1 - logical_time (clock (replica ?w))) < nat (d + 1 - logical_time ?c)"
      using False c(2) by (simp add: tick_step_def)
    from less.hyps [OF this kept] obtain evs c' new' where ih: "list_all internal evs"
      "world_run S R e ?w evs = Some (?w\<lparr>replica := (replica ?w)\<lparr>clock := c', tasks := tasks (replica ?w) @ new'\<rparr>\<rparr>)"
      "sum_list (map task_weight new') = 0" "concat (map task_chans new') = []" "WakeDeadline rx \<in> set new'"
      by blast
    have "world_run S R e w (Tick True # evs) =
        Some (w\<lparr>replica := (replica w)\<lparr>clock := c', tasks := tasks (replica w) @ (?new @ new')\<rparr>\<rparr>)"
      using run ih(2) by simp
    with ih quiet_new show ?thesis
      by (intro exI [of _ "Tick True # evs"] exI [of _ c'] exI [of _ "?new @ new'"]) auto
  qed
qed

lemma sent_values_upd:
  assumes "distinct xs"
  shows "length (concat (map (\<lambda>ch. sent_value ((cs(tx := Sent req)) ch)) xs)) \<le>
         Suc (length (concat (map (\<lambda>ch. sent_value (cs ch)) xs)))"
  using assms
proof (induction xs)
  case (Cons x xs)
  show ?case
  proof (cases "x = tx")
    case True
    then have "concat (map (\<lambda>ch. sent_value (if ch = tx then Sent req else cs ch)) xs) =
        concat (map (\<lambda>ch. sent_value (cs ch)) xs)"
      using Cons.prems by (intro arg_cong [of _ _ concat]) auto
    with True show ?thesis by simp
  qed (use Cons in simp)
qed simp

context paxos_replica
begin

text \<open>Some steps of its own that leave less work.\<close>

definition progress :: "('d \<Rightarrow> 't \<Rightarrow> 'd \<times> string option option) \<Rightarrow> ('s, 't, 'd) World \<Rightarrow> bool" where
  "progress e w \<longleftrightarrow> (\<exists>evs w'. list_all internal evs \<and> world_run S R e w evs = Some w' \<and>
     panics w' = panics w \<and> work (replica w') < work (replica w))"

lemma progressI:
  assumes "world_run S R e w [ev] = Some w'" and "internal ev" and "panics w' = panics w"
    and "work (replica w') < work (replica w)"
  shows "progress e w"
  using assms unfolding progress_def by (intro exI [of _ "[ev]"] exI [of _ w']) simp

lemma progress_task:
  assumes "tasks (replica w) = ts1 @ t # ts2"
    and "run_task S R now ((replica w)\<lparr>tasks := ts1 @ ts2\<rparr>) t = Some (sp, rest, Inr ())"
    and "work (sp\<lparr>tasks := tasks sp @ rest\<rparr>) < work (replica w)"
  shows "progress e w"
  by (rule progressI [OF task_step [OF assms(1,2)]]) (use assms(3) in simp_all)

lemma delivered_tasks:
  "delivered (sp\<lparr>tasks := ts\<rparr>) = concat (map (\<lambda>t. concat (map (\<lambda>ch. sent_value (chans sp ch)) (task_chans t))) ts)"
  by (induction ts) (simp_all add: delivered_def awaiting_def)

lemma insert_progress:
  assumes inv: "replica_inv w" and ok: "proposals_ok w" and t: "ProposeInsert entry l spec \<in> set (tasks (replica w))"
  shows "progress e w"
proof -
  let ?rep = "replica w" and ?tx = "next_chan (replica w)" and ?id = "get_id R entry"
  obtain ts1 ts2 where ts: "tasks ?rep = ts1 @ ProposeInsert entry l spec # ts2"
    using split_list [OF t] by blast
  have W: "wired R ?rep" and C: "conserved view R w" using inv by (simp_all add: replica_inv_def)
  have "distinct (map (get_id R) (in_flight ?rep))" using distinct_in_flight [OF C ok] by simp
  then have "?id \<notin> get_id R ` set (queued (buffers ?rep))"
    by (auto simp: in_flight_def inserting_def ts)
  then have old: "notifiers (buffers ?rep) ?id = None" using W by (auto simp: wired_def)
  obtain b nd where ins: "Buffers_insert R (clock ?rep) (buffers ?rep) entry l ?tx = (b, nd)"
    by (cases "Buffers_insert R (clock ?rep) (buffers ?rep) entry l ?tx")
  have early: "length (early b) \<le> Suc (length (early (buffers ?rep)))"
    using ins by (auto simp: Buffers_insert_def Let_def heap_push_def split: if_splits)
  have tx: "chans ?rep ?tx = Pending" using W by (simp add: wired_def)
  let ?sp = "?rep\<lparr>tasks := ts1 @ ts2, buffers := b, next_chan := Suc ?tx\<rparr>"
  let ?rest = "case nd of Some d \<Rightarrow> [ProposeAnnounce ?id d ?tx spec] | None \<Rightarrow> [ProposeAwait ?tx spec]"
  have run: "run_task S R 0 (?rep\<lparr>tasks := ts1 @ ts2\<rparr>) (ProposeInsert entry l spec) = Some (?sp, ?rest, Inr ())"
    using ins old by (simp add: drop_sender_def Let_def split: option.splits)
  have "delivered (?sp\<lparr>tasks := tasks ?sp @ ?rest\<rparr>) = delivered ?rep"
    using tx by (simp add: delivered_def awaiting_def ts split: option.split)
  then have "work (?sp\<lparr>tasks := tasks ?sp @ ?rest\<rparr>) < work ?rep"
    using early by (intro work_lessI) (simp_all add: ts split: option.split)
  then show ?thesis by (rule progress_task [OF ts run])
qed

lemma announce_progress:
  assumes t: "ProposeAnnounce k d rx spec \<in> set (tasks (replica w))"
  shows "progress e w"
proof -
  let ?rep = "replica w"
  obtain ts1 ts2 where ts: "tasks ?rep = ts1 @ ProposeAnnounce k d rx spec # ts2" using split_list [OF t] by blast
  let ?sp = "?rep\<lparr>tasks := ts1 @ ts2, outgoing := outgoing ?rep @
      map (\<lambda>peer. paxos_msg (sp_pid ?rep) peer (NewDeadline k d)) (sp_peers ?rep)\<rparr>"
  have run: "run_task S R 0 (?rep\<lparr>tasks := ts1 @ ts2\<rparr>) (ProposeAnnounce k d rx spec) =
      Some (?sp, [ProposeAwait rx spec], Inr ())" by simp
  have "length (delivered (?sp\<lparr>tasks := tasks ?sp @ [ProposeAwait rx spec]\<rparr>)) = length (delivered ?rep)"
    by (simp add: delivered_def awaiting_def ts)
  then show ?thesis
    by (intro progress_task [OF ts run] work_lessI) (simp_all add: ts)
qed

lemma ack_progress:
  assumes t: "ProposeAck req hash spec k \<in> set (tasks (replica w))"
  shows "progress e w"
proof -
  let ?rep = "replica w"
  obtain ts1 ts2 where ts: "tasks ?rep = ts1 @ ProposeAck req hash spec k # ts2" using split_list [OF t] by blast
  let ?sp = "?rep\<lparr>tasks := ts1 @ ts2, outgoing_clients := outgoing_clients ?rep @
      [paxos_msg (sp_pid ?rep) (request_client_id R req) (Ack req hash spec k)]\<rparr>"
  have run: "run_task S R 0 (?rep\<lparr>tasks := ts1 @ ts2\<rparr>) (ProposeAck req hash spec k) = Some (?sp, [], Inr ())" by simp
  have "length (delivered (?sp\<lparr>tasks := tasks ?sp @ []\<rparr>)) = length (delivered ?rep)"
    by (simp add: delivered_def awaiting_def ts)
  then show ?thesis
    by (intro progress_task [OF ts run] work_lessI) (simp_all add: ts)
qed

lemma await_progress:
  assumes inv: "replica_inv w" and ok: "proposals_ok w" and t: "ProposeAwait rx spec \<in> set (tasks (replica w))"
    and req: "chans (replica w) rx = Sent req"
  shows "progress e w"
proof -
  let ?rep = "replica w" and ?i = "internal_storage (replica w)"
  obtain ts1 ts2 where ts: "tasks ?rep = ts1 @ ProposeAwait rx spec # ts2" using split_list [OF t] by blast
  obtain i' r' where app: "append_entries_and_get_accepted_idx S ?i [req] = (i', r')"
    by (cases "append_entries_and_get_accepted_idx S ?i [req]")
  have C: "conserved view R w" and St: "stored view invar ?i" using inv by (simp_all add: replica_inv_def)
  have "length (v_log (iview ?i)) < usize_limit - 1" using log_bound [OF C ok] by (simp add: replica_log_def)
  note i' = append_stored [OF St this app]
  let ?sp = "?rep\<lparr>tasks := ts1 @ ts2, internal_storage := i'\<rparr>"
  let ?rest = "[ProposeAck req (history_hash S (storage i')) spec (length (v_log (iview ?i)) + 1)]"
  have run: "run_task S R 0 (?rep\<lparr>tasks := ts1 @ ts2\<rparr>) (ProposeAwait rx spec) = Some (?sp, ?rest, Inr ())"
    using req app i'(3) by simp
  have "length (delivered ?rep) = Suc (length (delivered (?sp\<lparr>tasks := tasks ?sp @ ?rest\<rparr>)))"
    using req by (simp add: delivered_def awaiting_def ts)
  then show ?thesis
    by (intro progress_task [OF ts run] work_lessI) (simp_all add: ts)
qed

lemma register_progress:
  assumes "waiter (replica w) = WaiterPopped sender req"
  shows "progress e w"
proof -
  let ?rep = "replica w" and ?d = "get_deadline R req"
  let ?sp = "?rep\<lparr>clock := add_deadline (clock ?rep) ?d (next_chan ?rep), next_chan := next_chan ?rep + 1,
     dchans := drop_sender (database (clock ?rep) ?d) (dchans ?rep),
     waiter := WaiterWaiting (next_chan ?rep) sender req\<rparr>"
  have run: "world_run S R e w [WaiterRegister] = Some (w\<lparr>replica := ?sp\<rparr>)"
    using assms by (simp add: waiter_register_def Let_def)
  have "work ?sp < work ?rep"
    using assms by (simp add: work_def waiter_weight_def delivered_def awaiting_def)
  then show ?thesis by (intro progressI [OF run]) simp_all
qed

lemma take_progress:
  assumes "waiter (replica w) = WaiterIdle" and "early (buffers (replica w)) \<noteq> []"
  shows "progress e w"
proof -
  let ?rep = "replica w" and ?b = "buffers (replica w)"
  obtain req where req: "heap_pop (get_deadline R) (early ?b) req (remove1 req (early ?b))"
    using heap_pop_exists [OF assms(2), of "get_deadline R"] by (auto simp: heap_pop_def)
  let ?b' = "?b\<lparr>early := remove1 req (early ?b), last_released_deadline := Some (get_deadline R req),
      notifiers := (notifiers ?b)(get_id R req := None)\<rparr>"
  let ?sp = "?rep\<lparr>buffers := ?b', waiter := WaiterPopped (notifiers ?b (get_id R req)) req\<rparr>"
  have run: "world_run S R e w [WaiterTake req] = Some (w\<lparr>replica := ?sp\<rparr>)"
    using assms(1) req by (simp add: waiter_take_def waiter_pop_def)
  have "req \<in> set (early ?b)" using req by (simp add: heap_pop_def)
  then have "length (early ?b) = Suc (length (remove1 req (early ?b)))"
    using assms(2) by (simp add: length_remove1)
  then have "work ?sp < work ?rep"
    using assms(1) by (simp add: work_def waiter_weight_def delivered_def awaiting_def)
  then show ?thesis by (intro progressI [OF run]) simp_all
qed

lemma notify_progress:
  assumes inv: "replica_inv w" and "waiter (replica w) = WaiterWaiting rx sender req"
    and "dchans (replica w) rx = Sent ()"
  shows "progress e w"
proof -
  let ?rep = "replica w"
  have W: "wired R ?rep" using inv by (simp add: replica_inv_def)
  then obtain tx where tx: "sender = Some tx" using assms(2) by (rule waiting_sender)
  let ?sp = "?rep\<lparr>waiter := WaiterIdle, chans := (chans ?rep)(tx := Sent req)\<rparr>"
  have run: "world_run S R e w [WaiterNotify] = Some (w\<lparr>replica := ?sp\<rparr>)"
    using assms(2,3) tx by (simp add: waiter_notify_def)
  have "distinct (awaiting ?rep)" using W by (simp add: wired_def)
  then have "length (delivered ?sp) \<le> Suc (length (delivered ?rep))"
    using sent_values_upd [of "awaiting ?rep" "chans ?rep" tx req] by (simp add: delivered_def awaiting_def)
  then have "work ?sp < work ?rep"
    using assms(2,3) by (simp add: work_def waiter_weight_def)
  then show ?thesis by (intro progressI [OF run]) simp_all
qed

lemma wake_progress:
  assumes inv: "replica_inv w" and waiting: "waiter (replica w) = WaiterWaiting rx sender req"
    and unsent: "dchans (replica w) rx \<noteq> Sent ()"
  shows "progress e w"
proof -
  let ?rep = "replica w"
  have "\<exists>evs c new. list_all internal evs \<and>
      world_run S R e w evs = Some (w\<lparr>replica := ?rep\<lparr>clock := c, tasks := tasks ?rep @ new\<rparr>\<rparr>) \<and>
      sum_list (map task_weight new) = 0 \<and> concat (map task_chans new) = [] \<and>
      WakeDeadline rx \<in> set (tasks ?rep @ new)"
  proof (cases "deadlines (clock ?rep) = []")
    case True
    then have "rx \<in> set (waking ?rep)"
      using inv waiting unsent by (simp add: replica_inv_def timed_def)
    then obtain t where t: "t \<in> set (tasks ?rep)" "rx \<in> set (task_wakes t)" by (auto simp: waking_def)
    moreover have "t = WakeDeadline rx" using t(2) by (cases t rule: task_wakes.cases) auto
    ultimately have "WakeDeadline rx \<in> set (tasks ?rep)" by simp
    then show ?thesis
      by (intro exI [of _ "[]"] exI [of _ "clock ?rep"] exI [of _ "[]"]) simp
  next
    case False
    then have "deadlines (clock ?rep) = [get_deadline R req]" "database (clock ?rep) = [get_deadline R req \<mapsto> rx]"
      using inv waiting by (auto simp: replica_inv_def timed_def)
    from tick_until [OF this, of S R e] show ?thesis by auto
  qed
  then obtain evs c new where evs: "list_all internal evs"
    "world_run S R e w evs = Some (w\<lparr>replica := ?rep\<lparr>clock := c, tasks := tasks ?rep @ new\<rparr>\<rparr>)"
    "sum_list (map task_weight new) = 0" "concat (map task_chans new) = []"
    "WakeDeadline rx \<in> set (tasks ?rep @ new)" by blast
  let ?w = "w\<lparr>replica := ?rep\<lparr>clock := c, tasks := tasks ?rep @ new\<rparr>\<rparr>"
  obtain ts1 ts2 where ts: "tasks ?rep @ new = ts1 @ WakeDeadline rx # ts2" using split_list [OF evs(5)] by blast
  let ?sp = "(replica ?w)\<lparr>tasks := ts1 @ ts2, dchans := (dchans ?rep)(rx := Sent ())\<rparr>"
  have "world_run S R e ?w [RunTask (length ts1) 0] = Some (?w\<lparr>replica := ?sp\<lparr>tasks := tasks ?sp @ []\<rparr>\<rparr>)"
    by (rule task_step [of _ _ "WakeDeadline rx"]) (simp_all add: ts)
  then have run: "world_run S R e w (evs @ [RunTask (length ts1) 0]) = Some (?w\<lparr>replica := ?sp\<rparr>)"
    using evs(2) by (simp add: world_run_append)
  have "sum_list (map task_weight (ts1 @ ts2)) = sum_list (map task_weight (tasks ?rep @ new))"
    "concat (map task_chans (ts1 @ ts2)) = concat (map task_chans (tasks ?rep @ new))"
    by (simp_all add: ts)
  then have "sum_list (map task_weight (ts1 @ ts2)) = sum_list (map task_weight (tasks ?rep))"
    "concat (map task_chans (ts1 @ ts2)) = concat (map task_chans (tasks ?rep))"
    using evs(3,4) by simp_all
  then have "work ?sp < work ?rep"
    using waiting unsent by (simp add: work_def waiter_weight_def delivered_def awaiting_def)
  with run evs(1) show ?thesis
    unfolding progress_def by (intro exI [of _ "evs @ [RunTask (length ts1) 0]"] exI [of _ "?w\<lparr>replica := ?sp\<rparr>"]) simp
qed

lemma work_progress:
  assumes inv: "replica_inv w" and ok: "proposals_ok w" and work: "0 < work (replica w)"
  shows "progress e w"
proof (cases "sum_list (map task_weight (tasks (replica w))) = 0")
  case False
  then obtain t where t: "t \<in> set (tasks (replica w))" "task_weight t \<noteq> 0" by auto
  show ?thesis
  proof (cases t)
    case (ProposeInsert entry l spec)
    with t insert_progress [OF inv ok] show ?thesis by blast
  next
    case (ProposeAnnounce k d rx spec)
    with t announce_progress show ?thesis by blast
  next
    case (ProposeAck req hash spec k)
    with t ack_progress show ?thesis by blast
  qed (use t(2) in auto)
next
  case True
  then have none: "task_weight t = 0" if "t \<in> set (tasks (replica w))" for t using that by auto
  show ?thesis
  proof (cases "delivered (replica w) = []")
    case False
    then obtain t ch req where t: "t \<in> set (tasks (replica w))" "ch \<in> set (task_chans t)"
      "chans (replica w) ch = Sent req"
      by (auto simp: delivered_def awaiting_def neq_Nil_conv elim!: sent_value.elims)
    with none [OF t(1)] obtain spec where "t = ProposeAwait ch spec" by (cases t) auto
    with t await_progress [OF inv ok] show ?thesis by blast
  next
    case idle: True
    show ?thesis
    proof (cases "waiter (replica w)")
      case WaiterIdle
      then have "early (buffers (replica w)) \<noteq> []"
        using work True idle by (auto simp: work_def waiter_weight_def)
      with WaiterIdle take_progress show ?thesis by blast
    next
      case (WaiterPopped sender req)
      then show ?thesis by (rule register_progress)
    next
      case (WaiterWaiting rx sender req)
      then show ?thesis using notify_progress [OF inv] wake_progress [OF inv] by blast
    qed
  qed
qed

lemma internal_run_inv:
  "world_run S R e w evs = Some w' \<Longrightarrow> list_all internal evs \<Longrightarrow> replica_inv w \<Longrightarrow> proposals_ok w \<Longrightarrow>
   replica_inv w' \<and> proposals_ok w'"
proof (induction evs arbitrary: w)
  case (Cons ev evs)
  then obtain w1 where w1: "world_step S R e w ev = Some w1" "world_run S R e w1 evs = Some w'"
    by (auto simp: bind_eq_Some_conv)
  have "proposed w1 = proposed w" using internal_proposed [OF w1(1)] Cons.prems(2) by simp
  then have "proposals_ok w1" using Cons.prems(4) by (simp add: proposals_ok_def)
  with Cons.IH [OF w1(2)] step_inv [OF Cons.prems(3,4) w1(1)] Cons.prems(2) show ?case by simp
qed simp

lemma finishes:
  assumes "replica_inv w" and "proposals_ok w"
  shows "\<exists>evs w'. list_all internal evs \<and> world_run S R e w evs = Some w' \<and> panics w' = panics w \<and>
      work (replica w') = 0"
  using assms
proof (induction "work (replica w)" arbitrary: w rule: less_induct)
  case less
  show ?case
  proof (cases "work (replica w) = 0")
    case True
    then show ?thesis by (intro exI [of _ "[]"] exI [of _ w]) simp
  next
    case False
    then obtain evs w1 where w1: "list_all internal evs" "world_run S R e w evs = Some w1" "panics w1 = panics w"
      "work (replica w1) < work (replica w)"
      using work_progress [OF less.prems, of e] by (auto simp: progress_def)
    from internal_run_inv [OF w1(2,1) less.prems] less.hyps [OF w1(4)]
    obtain evs' w' where "list_all internal evs'" "world_run S R e w1 evs' = Some w'" "panics w' = panics w1"
      "work (replica w') = 0" by blast
    with w1 show ?thesis by (intro exI [of _ "evs @ evs'"] exI [of _ w']) (simp add: world_run_append)
  qed
qed

text \<open>With no work left everything in flight is in the late buffer, and no acknowledgement is left in a task.\<close>

lemma no_work:
  assumes "work sp = 0"
  shows "in_flight sp = map snd (late (buffers sp))" and "concat (map task_acks (tasks sp)) = []"
proof -
  have z: "task_weight t = 0" if "t \<in> set (tasks sp)" for t
    using assms that by (auto simp: work_def)
  then have "task_inserts t = [] \<and> task_acks t = []" if "t \<in> set (tasks sp)" for t
    using z [OF that] by (cases t) auto
  then have "inserting sp = []" "concat (map task_acks (tasks sp)) = []" by (auto simp: inserting_def)
  moreover have "waiter sp = WaiterIdle" using assms by (cases "waiter sp") (auto simp: work_def waiter_weight_def split: if_splits)
  ultimately show "in_flight sp = map snd (late (buffers sp))" "concat (map task_acks (tasks sp)) = []"
    using assms by (simp_all add: in_flight_def queued_def work_def)
qed

lemma replica_completes:
  assumes "replica_inv w" and "proposals_ok w"
  shows "\<exists>evs w'. list_all internal evs \<and> world_run S R e w evs = Some w' \<and> panics w' = panics w \<and>
      mset (map (request_core R) (map snd (late (buffers (replica w'))) @ replica_log view (replica w'))) =
        mset (map (request_core R) (proposed w)) \<and>
      mset (map (snd \<circ> snd) (concat (map message_acks (fetched w')))) = mset [1..<length (replica_log view (replica w')) + 1]"
proof -
  obtain evs w1 where w1: "list_all internal evs" "world_run S R e w evs = Some w1" "panics w1 = panics w"
    "work (replica w1) = 0"
    using finishes [OF assms] by blast
  let ?w = "w1\<lparr>replica := (replica w1)\<lparr>outgoing_clients := [], latest_accepted_meta := None\<rparr>, fetched := fetched w1 @ outgoing_clients (replica w1)\<rparr>"
  have "world_run S R e w (evs @ [TakeClientOutgoing]) = Some ?w"
    using w1(2) by (simp add: world_run_append take_outgoing_client_msgs_def)
  moreover have "proposed w1 = proposed w" using internal_run_proposed [OF w1(2,1)] .
  moreover have "replica_inv w1" using internal_run_inv [OF w1(2,1) assms] by simp
  moreover note no_work [OF w1(4)]
  ultimately show ?thesis
    using w1(1,3)
    by (intro exI [of _ "evs @ [TakeClientOutgoing]"] exI [of _ ?w])
      (simp add: replica_inv_def conserved_def acked_def all_acks_def replica_log_def)
qed

end



end
