(* ===== verification/Spec2Isabelle.thy ===== *)
theory Spec2Isabelle
  imports Log_Compaction Deployment Proxy_Handler Config_Files Dashboard_Render Entry_Derive
    Persistent_Properties Replica_Liveness
begin

text \<open>
  A verification of the replicated key-value store of this repository: clients send commands to a
  proxy, the proxy sends each command to all servers, every server orders the commands by deadline
  in its replica of the log and acknowledges each with a hash of its log so far, and the proxy
  answers the client when a quorum, the leader among it, has acknowledged with the same hash. The
  library under \<^verbatim>\<open>crates/custom-paxos\<close> is a fork of OmniPaxos, the programs are under \<^verbatim>\<open>src\<close>. All paths
  below are relative to the repository (\<^verbatim>\<open>omnipaxos/\<close> stands for
  \<^verbatim>\<open>crates/custom-paxos/omnipaxos/\<close>).

  \<^bold>\<open>Parts and theories.\<close>

  \<^item> \<open>Prelude\<close>: machine integers, errors and panics as values, the \<open>?\<close> operator, vectors, heaps.
  \<^item> \<open>Util\<close>, \<open>Ballots\<close>, \<open>Config\<close>, \<open>Messages\<close>: \<^verbatim>\<open>omnipaxos/src/util.rs\<close>, the \<open>Ballot\<close> of
    \<^verbatim>\<open>ballot_leader_election.rs\<close>, configurations and their validation (\<^verbatim>\<open>omni_paxos.rs\<close>, \<^verbatim>\<open>errors.rs\<close>),
    \<^verbatim>\<open>messages.rs\<close>.
  \<^item> \<open>Storage_Api\<close>: the traits of \<^verbatim>\<open>omnipaxos/src/storage/mod.rs\<close> as records of operations, and the
    contract of a storage as the locale \<open>log_storage\<close> over an abstract log (\<open>StoreView\<close>).
    \<open>Memory_Storage\<close> (\<^verbatim>\<open>memory_storage.rs\<close>) and \<open>Persistent_Storage\<close> with \<open>Persistent_Storage_Laws\<close>
    (\<^verbatim>\<open>persistent_storage.rs\<close>, over RocksDB as a parameter) implement it.
  \<^item> \<open>Internal_Storage\<close>, \<open>Internal_Storage_Laws\<close>, \<open>Log_Compaction\<close>: \<^verbatim>\<open>state_cache.rs\<close> and
    \<^verbatim>\<open>internal_storage.rs\<close>, the cached and batched log, reads, trimming, snapshots and synchronisation,
    over any lawful storage and snapshot type, and \<^verbatim>\<open>examples/kv_store/src/kv.rs\<close>.
  \<^item> \<open>Unicache\<close>, \<open>Lru_Unicache\<close>, \<open>Lfu_Unicache\<close>: \<^verbatim>\<open>omnipaxos/src/unicache\<close>, the caches that compress
    fields of log entries, as instances of the locale \<open>field_cache\<close>; \<open>Entry_Derive\<close>: \<^verbatim>\<open>omnipaxos_macros\<close>,
    the derive macros as functions on parsed declarations and the code they generate, as the locale
    \<open>entry_cache\<close> over the caches of the fields.
  \<^item> \<open>Clock\<close>, \<open>Buffers\<close>: \<^verbatim>\<open>clock.rs\<close> and \<^verbatim>\<open>buffers.rs\<close>, the simulated clock and the deadline buffers.
  \<^item> \<open>Sequence_Paxos\<close>, \<open>Sequence_Paxos_Laws\<close>, \<open>Replica_Properties\<close>, \<open>Replica_Liveness\<close>:
    \<^verbatim>\<open>omnipaxos/src/sequence_paxos\<close>, the replica with its spawned tasks as explicit state. Every section of
    a task that runs under its locks is one step, \<open>reachable\<close> is every interleaving of the steps.
  \<^item> \<open>Leader_Election\<close>, \<open>Omni_Paxos\<close>: \<^verbatim>\<open>ballot_leader_election.rs\<close> and \<^verbatim>\<open>omni_paxos.rs\<close>.
  \<^item> \<open>Common\<close>, \<open>Network\<close>, \<open>Server\<close>: \<^verbatim>\<open>src/common.rs\<close>, \<^verbatim>\<open>src/server\<close>; \<open>Proxy\<close> and
    \<open>Proxy_Handler\<close>: \<^verbatim>\<open>src/proxy\<close>, the latter the task of a client connection with its early returns; \<open>Client\<close>:
    \<^verbatim>\<open>src/client\<close>; \<open>Config_Files\<close>: how the three find their configuration; \<open>Connections\<close>: the reader and writer tasks, connection loops and server actors of all three,
    over any framed socket that satisfies the locale \<open>message_sink\<close>.
  \<^item> \<open>System\<close>: servers in any reachable state together with the proxy; \<open>Deployment\<close>: with the connections
    between them. They add no model of their own, only the vocabulary of the theorems about the answers
    clients get.
  \<^item> \<open>Dashboard\<close>, \<open>Dashboard_Render\<close>: \<^verbatim>\<open>omnipaxos_ui\<close> and \<^verbatim>\<open>omnipaxos/src/utils/ui.rs\<close>, the state behind the
    terminal dashboard and the widgets it draws.

  \<^bold>\<open>Conventions.\<close> A struct is a record, an enum a datatype, a method a function from the state to the
  state it leaves behind and its result. \<open>usize\<close> is a natural number with the wrap-around at
  \<open>2 ^ 64\<close> written out, the other integers are words. Loops over collections are recursive functions;
  the one terminating loop that is not structural, \<open>process_deadlines\<close>, is a total function with a
  termination proof; the loops that retry until a name resolves or a connection is made are
  \<open>partial_function\<close>s, with the theorem that they end at the first success; no definition
  needs fuel. Endless loops (the clock, the waiter, the main loops of server, proxy and client) are modelled as the step one round takes, and runs as lists of steps. Randomness,
  the wall clock and the choice of the next task are parameters of the steps. A hash is a function
  \<open>finish\<close> of the values fed to the hasher.

  \<^bold>\<open>What is shown.\<close> For the replica, over every interleaving: commands are neither lost nor duplicated,
  an acknowledgement carries the position and the hash of the log prefix it ends, the promise never
  decreases, commands are released in deadline order, and a replica is never stuck. For the storage:
  both backends refine the abstract log, the persistent one finds its state again after a restart;
  reads, trimming, snapshots and synchronisation do to the abstract log what they should. For leader
  election: quorums intersect, an elected ballot is the highest, a takeover needs a quorum. For the
  programs: the proxy answers once per quorum, decided entries are applied once and in order, requests
  are numbered consecutively, connections to clients deliver in order and without gaps. For servers and
  proxy together: every answer is backed by a quorum of servers with the same history, and any two answers
  are in the log of one server, provided that the hasher does not collide on these logs and that no
  acknowledgement is delivered twice, which \<open>Deployment\<close> shows of connections that may fail at any time.
  The caches decode what they encoded, and so does the code the
  derive macro generates for whole entries. The dashboard keeps its shape and is drawn without a panic as
  long as no follower is ahead of the leader. The error theorems show where the
  code does not do what it means to, on concrete runs or under stated conditions.

  \<^bold>\<open>Parameters.\<close> RocksDB, \<^verbatim>\<open>bincode\<close>, the \<^verbatim>\<open>lru\<close> and \<^verbatim>\<open>linked_hash_set\<close> crates, framed sockets, name resolution, the
  \<^verbatim>\<open>syn\<close> parser, the \<^verbatim>\<open>config\<close> crate, the TOML parser, the floating-point operations of the dashboard and the hasher are arguments of the
  definitions that use them; what is relied on of their documented behaviour is stated as locales.

  \<^bold>\<open>Not modelled.\<close> Sockets and framing themselves and the accept loop of the listener; positions and fixed
  styles of the widgets of the dashboard; the token level of the derive macros; the demonstration programs
  under \<^verbatim>\<open>examples\<close> except for \<^verbatim>\<open>kv.rs\<close> (they are written against an older interface and import a module that
  does not exist); output files, logging and the \<open>main\<close> functions, which only call libraries;
  \<^verbatim>\<open>src/server/proxy.rs\<close> and \<^verbatim>\<open>src/server/clock.rs\<close>, which no module declares.
\<close>

end
